(* ===== verification/Base.thy ===== *)
theory Base
  imports Main
begin

text \<open>
  The prelude: the operations of Rust's \<open>str\<close>, \<open>slice\<close> and iterators that the modelled code
  uses, on lists, with the lemmas every component shares.

  A Rust \<open>String\<close> is modelled by its UTF-8 bytes: a \<^typ>\<open>string\<close> is a list of
  \<^typ>\<open>char\<close>, and a \<^typ>\<open>char\<close> is one byte.  Hence \<open>str::len\<close> is \<^const>\<open>length\<close>, slices are
  byte slices, and searching, splitting or trimming at ASCII characters works bytewise,
  because a byte below 128 never occurs inside a multi-byte character.
\<close>

section \<open>Collections\<close>

named_theorems str_simps \<open>characteristic equations of the string operations\<close>

section \<open>Prefixes and suffixes\<close>

text \<open>\<open>str::strip_prefix\<close>, with the prefix first.\<close>

fun strip_prefix :: "'a list \<Rightarrow> 'a list \<Rightarrow> 'a list option" where
  "strip_prefix [] s = Some s"
| "strip_prefix (p # ps) [] = None"
| "strip_prefix (p # ps) (c # cs) = (if p = c then strip_prefix ps cs else None)"

definition starts_with :: "'a list \<Rightarrow> 'a list \<Rightarrow> bool" where
  "starts_with p s = (strip_prefix p s \<noteq> None)"

definition strip_suffix :: "'a list \<Rightarrow> 'a list \<Rightarrow> 'a list option" where
  "strip_suffix p s = map_option rev (strip_prefix (rev p) (rev s))"

definition ends_with :: "'a list \<Rightarrow> 'a list \<Rightarrow> bool" where
  "ends_with p s = (strip_suffix p s \<noteq> None)"

lemma strip_prefix_Some [str_simps]: "strip_prefix p s = Some r \<longleftrightarrow> s = p @ r"
  by (induction p s rule: strip_prefix.induct) auto

lemma Some_strip_prefix [str_simps]: "Some r = strip_prefix p s \<longleftrightarrow> s = p @ r"
  using strip_prefix_Some [of p s r] by (auto simp: eq_commute)

lemma strip_prefix_append [simp]: "strip_prefix p (p @ r) = Some r"
  by (simp add: strip_prefix_Some)

lemma strip_prefix_None [str_simps]: "strip_prefix p s = None \<longleftrightarrow> (\<nexists>r. s = p @ r)"
  by (metis not_None_eq strip_prefix_Some)

lemma starts_with_iff [str_simps]: "starts_with p s \<longleftrightarrow> (\<exists>r. s = p @ r)"
  by (auto simp: starts_with_def strip_prefix_Some)

lemma starts_with_append [simp]: "starts_with p (p @ r)"
  by (auto simp: starts_with_iff)

lemma starts_with_single [simp]: "starts_with [c] s \<longleftrightarrow> s \<noteq> [] \<and> hd s = c"
  by (cases s) (auto simp: starts_with_iff)

lemma strip_suffix_Some [str_simps]: "strip_suffix p s = Some r \<longleftrightarrow> s = r @ p"
proof -
  have "strip_suffix p s = Some r \<longleftrightarrow> strip_prefix (rev p) (rev s) = Some (rev r)"
    by (auto simp: strip_suffix_def)
  also have "\<dots> \<longleftrightarrow> rev s = rev (r @ p)"
    by (simp add: strip_prefix_Some)
  also have "\<dots> \<longleftrightarrow> s = r @ p"
    by (simp only: rev_is_rev_conv)
  finally show ?thesis .
qed

lemma strip_suffix_append [simp]: "strip_suffix p (r @ p) = Some r"
  by (simp add: strip_suffix_Some)

lemma strip_suffix_Nil [simp]: "strip_suffix [] s = Some s"
  by (simp add: strip_suffix_Some)

lemma strip_suffix_None [str_simps]: "strip_suffix p s = None \<longleftrightarrow> (\<nexists>r. s = r @ p)"
  by (metis not_None_eq strip_suffix_Some)

lemma ends_with_iff [str_simps]: "ends_with p s \<longleftrightarrow> (\<exists>r. s = r @ p)"
  by (auto simp: ends_with_def strip_suffix_Some)

lemma ends_with_single [simp]: "ends_with [c] s \<longleftrightarrow> s \<noteq> [] \<and> last s = c"
  by (cases s rule: rev_cases) (auto simp: ends_with_iff)

section \<open>Splitting and joining\<close>

text \<open>\<open>str::split\<close> at one character: always at least one piece.\<close>

fun split_char :: "'a \<Rightarrow> 'a list \<Rightarrow> 'a list list" where
  "split_char c [] = [[]]"
| "split_char c (x # xs) =
     (if x = c then [] # split_char c xs
      else (x # hd (split_char c xs)) # tl (split_char c xs))"

lemma split_char_nonempty: "split_char c s \<noteq> []"
  by (cases s) auto

lemma split_char_code [code]:
  "split_char c [] = [[]]"
  "split_char c (x # xs) =
     (case split_char c xs of
        [] \<Rightarrow> []
      | p # ps \<Rightarrow> if x = c then [] # p # ps else (x # p) # ps)"
  by (simp, cases "split_char c xs") (simp_all add: split_char_nonempty)

text \<open>\<open>[T]::join\<close>.\<close>

fun join :: "'a list \<Rightarrow> 'a list list \<Rightarrow> 'a list" where
  "join sep [] = []"
| "join sep [x] = x"
| "join sep (x # y # zs) = x @ sep @ join sep (y # zs)"

lemmas split_char_not_Nil [simp] = split_char_nonempty

lemma length_split_char_pos [simp]: "0 < length (split_char c s)"
  by simp

lemma split_char_free: "c \<notin> set s \<Longrightarrow> split_char c s = [s]"
  by (induction s) auto

lemma split_char_pieces: "x \<in> set (split_char c s) \<Longrightarrow> c \<notin> set x"
proof (induction s arbitrary: x)
  case Nil
  then show ?case by simp
next
  case (Cons y ys)
  have h: "hd (split_char c ys) \<in> set (split_char c ys)" by simp
  have t: "z \<in> set (tl (split_char c ys)) \<Longrightarrow> c \<notin> set z" for z
    by (rule Cons.IH) (simp add: list.set_sel(2))
  from Cons.prems Cons.IH [OF h] t show ?case
    by (auto split: if_splits dest: Cons.IH)
qed

lemma split_char_subset: "x \<in> set (split_char c s) \<Longrightarrow> set x \<subseteq> set s"
proof (induction s arbitrary: x)
  case Nil
  then show ?case by simp
next
  case (Cons y ys)
  have h: "set (hd (split_char c ys)) \<subseteq> set ys" by (rule Cons.IH) simp
  have t: "z \<in> set (tl (split_char c ys)) \<Longrightarrow> set z \<subseteq> set ys" for z
    by (rule Cons.IH) (simp add: list.set_sel(2))
  from Cons.prems h t show ?case
    by (auto split: if_splits dest: Cons.IH)
qed

lemma join_Cons: "xs \<noteq> [] \<Longrightarrow> join sep (x # xs) = x @ sep @ join sep xs"
  by (cases xs) auto

lemma join_Cons_Cons: "join sep ((c # x) # xs) = c # join sep (x # xs)"
  by (cases xs) auto

lemma join_split_char [simp]: "join [c] (split_char c s) = s"
proof (induction s)
  case Nil
  then show ?case by simp
next
  case (Cons x xs)
  then show ?case
    by (auto simp: join_Cons join_Cons_Cons)
qed

lemma split_char_append:
  "split_char c (a @ c # b) = split_char c a @ split_char c b"
proof (induction a)
  case Nil
  then show ?case by simp
next
  case (Cons x xs)
  then show ?case by (simp add: hd_append)
qed

lemma split_char_join:
  assumes "xs \<noteq> []" and "\<And>x. x \<in> set xs \<Longrightarrow> c \<notin> set x"
  shows "split_char c (join [c] xs) = xs"
  using assms
proof (induction xs)
  case Nil
  then show ?case by simp
next
  case (Cons x xs)
  show ?case
  proof (cases xs)
    case Nil
    with Cons.prems show ?thesis by (simp add: split_char_free)
  next
    case (Cons y ys)
    then show ?thesis
      using Cons.prems Cons.IH
      by (simp add: split_char_append split_char_free)
  qed
qed

lemma join_append:
  "xs \<noteq> [] \<Longrightarrow> ys \<noteq> [] \<Longrightarrow> join sep (xs @ ys) = join sep xs @ sep @ join sep ys"
proof (induction xs)
  case Nil
  then show ?case by simp
next
  case (Cons x xs)
  then show ?case by (cases "xs = []") (simp_all add: join_Cons)
qed

lemma set_join: "set (join sep xs) \<subseteq> (\<Union>x\<in>set xs. set x) \<union> set sep"
  by (induction sep xs rule: join.induct) auto

lemma hd_split_char: "hd (split_char c s) = takeWhile (\<lambda>x. x \<noteq> c) s"
  by (induction s) auto

text \<open>\<open>str::split_once\<close> at one character.\<close>

fun split_once :: "'a \<Rightarrow> 'a list \<Rightarrow> ('a list \<times> 'a list) option" where
  "split_once c [] = None"
| "split_once c (x # xs) =
     (if x = c then Some ([], xs)
      else map_option (\<lambda>(a, b). (x # a, b)) (split_once c xs))"

lemma split_once_Some [str_simps]:
  "split_once c s = Some (a, b) \<longleftrightarrow> s = a @ c # b \<and> c \<notin> set a"
proof (induction s arbitrary: a)
  case Nil
  then show ?case by simp
next
  case (Cons x xs)
  then show ?case by (cases a) auto
qed

lemma split_once_None [str_simps]: "split_once c s = None \<longleftrightarrow> c \<notin> set s"
  by (induction s) auto

text \<open>\<open>str::rfind\<close> of one character: the byte offset of its last occurrence.\<close>

fun rfind :: "'a \<Rightarrow> 'a list \<Rightarrow> nat option" where
  "rfind c [] = None"
| "rfind c (x # xs) =
     (case rfind c xs of Some i \<Rightarrow> Some (Suc i) | None \<Rightarrow> if x = c then Some 0 else None)"

lemma rfind_Some: "rfind c s = Some i \<Longrightarrow> i < length s \<and> s ! i = c \<and> c \<notin> set (drop (Suc i) s)"
proof (induction s arbitrary: i)
  case Nil
  then show ?case by simp
next
  case (Cons x xs)
  have none: "rfind c xs = None \<Longrightarrow> c \<notin> set xs"
    by (induction xs) (auto split: option.splits if_splits)
  from Cons none show ?case
    by (auto split: option.splits if_splits)
qed

text \<open>\<open>str::split\<close> and \<open>str::replace\<close> with a string pattern.\<close>

function split_str :: "'a list \<Rightarrow> 'a list \<Rightarrow> 'a list list" where
  "split_str p s =
     (if p = [] then [s]
      else case strip_prefix p s of
        Some r \<Rightarrow> [] # split_str p r
      | None \<Rightarrow>
          (case s of
             [] \<Rightarrow> [[]]
           | c # cs \<Rightarrow> (c # hd (split_str p cs)) # tl (split_str p cs)))"
  by pat_completeness auto
termination
  by (relation "measure (\<lambda>(p, s). length s)") (auto simp: strip_prefix_Some)

declare split_str.simps [simp del]

definition replace_str :: "'a list \<Rightarrow> 'a list \<Rightarrow> 'a list \<Rightarrow> 'a list" where
  "replace_str p by s = join by (split_str p s)"

lemma split_str_not_Nil [simp]: "split_str p s \<noteq> []"
  by (subst split_str.simps) (auto split: option.splits list.splits)

lemma join_split_str: "join p (split_str p s) = s"
proof (induction p s rule: split_str.induct)
  case (1 p s)
  show ?case
    by (subst split_str.simps)
      (use 1 in \<open>auto simp: join_Cons join_Cons_Cons strip_prefix_Some
        split: option.splits list.splits\<close>)
qed

section \<open>Trimming\<close>

definition trim_start :: "('a \<Rightarrow> bool) \<Rightarrow> 'a list \<Rightarrow> 'a list" where
  "trim_start P s = dropWhile P s"

definition trim_end :: "('a \<Rightarrow> bool) \<Rightarrow> 'a list \<Rightarrow> 'a list" where
  "trim_end P s = rev (dropWhile P (rev s))"

definition trim_matches :: "('a \<Rightarrow> bool) \<Rightarrow> 'a list \<Rightarrow> 'a list" where
  "trim_matches P s = trim_end P (trim_start P s)"

lemma trim_start_Nil_iff: "trim_start P s = [] \<longleftrightarrow> (\<forall>c\<in>set s. P c)"
  by (simp add: trim_start_def)

lemma trim_end_Nil_iff: "trim_end P s = [] \<longleftrightarrow> (\<forall>c\<in>set s. P c)"
  by (simp add: trim_end_def)

lemma trim_start_id: "s = [] \<or> \<not> P (hd s) \<Longrightarrow> trim_start P s = s"
  by (cases s) (auto simp: trim_start_def)

lemma trim_end_id: "s = [] \<or> \<not> P (last s) \<Longrightarrow> trim_end P s = s"
  by (cases s rule: rev_cases) (auto simp: trim_end_def)

lemma trim_start_hd: "trim_start P s \<noteq> [] \<Longrightarrow> \<not> P (hd (trim_start P s))"
  by (simp add: trim_start_def hd_dropWhile)

lemma trim_end_last: "trim_end P s \<noteq> [] \<Longrightarrow> \<not> P (last (trim_end P s))"
  by (simp add: trim_end_def last_rev hd_dropWhile)

lemma trim_end_prefix: "\<exists>r. s = trim_end P s @ r \<and> (\<forall>c\<in>set r. P c)"
proof -
  have "s = trim_end P s @ rev (takeWhile P (rev s))"
    by (metis rev_append rev_rev_ident takeWhile_dropWhile_id trim_end_def)
  then show ?thesis
    by (metis set_rev set_takeWhileD)
qed

lemma trim_start_suffix: "\<exists>r. s = r @ trim_start P s \<and> (\<forall>c\<in>set r. P c)"
  by (metis set_takeWhileD takeWhile_dropWhile_id trim_start_def)

lemma set_trim_end: "set (trim_end P s) \<subseteq> set s"
  by (auto simp: trim_end_def dest: set_dropWhileD)

lemma set_trim_start: "set (trim_start P s) \<subseteq> set s"
  by (auto simp: trim_start_def dest: set_dropWhileD)

lemma set_trim_matches: "set (trim_matches P s) \<subseteq> set s"
  using set_trim_end set_trim_start by (fastforce simp: trim_matches_def)

lemma hd_trim_end: "trim_end P s \<noteq> [] \<Longrightarrow> hd (trim_end P s) = hd s"
  by (metis hd_append2 trim_end_prefix)

lemma trim_matches_ends:
  assumes "trim_matches P s \<noteq> []"
  shows "\<not> P (hd (trim_matches P s))" and "\<not> P (last (trim_matches P s))"
proof -
  from assms show "\<not> P (last (trim_matches P s))"
    by (simp add: trim_matches_def trim_end_last)
  from assms have ne: "trim_end P (trim_start P s) \<noteq> []"
    by (simp add: trim_matches_def)
  then have "trim_start P s \<noteq> []"
    by (auto simp: trim_end_def)
  with hd_trim_end [OF ne] trim_start_hd show "\<not> P (hd (trim_matches P s))"
    by (metis trim_matches_def)
qed

lemma trim_matches_id:
  "s = [] \<or> (\<not> P (hd s) \<and> \<not> P (last s)) \<Longrightarrow> trim_matches P s = s"
  by (auto simp: trim_matches_def trim_start_id trim_end_id)

lemma trim_matches_idem [simp]: "trim_matches P (trim_matches P s) = trim_matches P s"
  by (metis trim_matches_ends trim_matches_id)

lemma trim_matches_Nil_iff: "trim_matches P s = [] \<longleftrightarrow> (\<forall>c\<in>set s. P c)"
proof -
  have "trim_matches P s = [] \<longleftrightarrow> (\<forall>c\<in>set (dropWhile P s). P c)"
    by (simp add: trim_matches_def trim_end_Nil_iff trim_start_def)
  also have "\<dots> \<longleftrightarrow> (\<forall>c\<in>set s. P c)"
    by (metis Un_iff dropWhile_eq_Nil_conv hd_dropWhile hd_in_set
        set_append set_takeWhileD takeWhile_dropWhile_id)
  finally show ?thesis .
qed

section \<open>Filtering out repeated keys\<close>

text \<open>
  The idiom \<open>values.into_iter().filter(|v| seen.insert(key(v)))\<close>: the first element of each key.
\<close>

fun distinct_by_from :: "'k set \<Rightarrow> ('a \<Rightarrow> 'k) \<Rightarrow> 'a list \<Rightarrow> 'a list" where
  "distinct_by_from seen key [] = []"
| "distinct_by_from seen key (x # xs) =
     (if key x \<in> seen then distinct_by_from seen key xs
      else x # distinct_by_from (insert (key x) seen) key xs)"

lemma set_distinct_by_from: "set (distinct_by_from seen key xs) \<subseteq> set xs"
  by (induction xs arbitrary: seen) (auto split: if_splits)

lemma distinct_by_from_fresh: "x \<in> set (distinct_by_from seen key xs) \<Longrightarrow> key x \<notin> seen"
  by (induction xs arbitrary: seen) (auto split: if_splits)

lemma distinct_by_from_distinct: "distinct (map key (distinct_by_from seen key xs))"
  by (induction xs arbitrary: seen) (auto dest: distinct_by_from_fresh)

lemma distinct_by_from_keys:
  "key ` set (distinct_by_from seen key xs) = key ` set xs - seen"
  by (induction xs arbitrary: seen) auto

section \<open>Numbers in decimal\<close>

definition digit_char :: "nat \<Rightarrow> char" where
  "digit_char d = char_of (48 + d)"

text \<open>\<open>Display\<close> for the unsigned integers.\<close>

fun show_nat :: "nat \<Rightarrow> string" where
  "show_nat n = (if n < 10 then [digit_char n] else show_nat (n div 10) @ [digit_char (n mod 10)])"

declare show_nat.simps [simp del]

definition is_digit :: "char \<Rightarrow> bool" where
  "is_digit c = (48 \<le> (of_char c :: nat) \<and> (of_char c :: nat) \<le> 57)"

definition digit_val :: "char \<Rightarrow> nat" where
  "digit_val c = of_char c - 48"

definition digits_val :: "string \<Rightarrow> nat" where
  "digits_val s = foldl (\<lambda>n c. 10 * n + digit_val c) 0 s"

lemma digit_char_digit: "d < 10 \<Longrightarrow> is_digit (digit_char d) \<and> digit_val (digit_char d) = d"
  by (simp add: is_digit_def digit_char_def digit_val_def)

lemma show_nat_digits: "c \<in> set (show_nat n) \<Longrightarrow> is_digit c"
proof (induction n rule: show_nat.induct)
  case (1 n)
  then show ?case
    by (subst (asm) show_nat.simps) (auto simp: digit_char_digit split: if_splits)
qed

lemma show_nat_not_Nil [simp]: "show_nat n \<noteq> []"
  by (subst show_nat.simps) simp

lemma digits_val_show_nat [simp]: "digits_val (show_nat n) = n"
proof (induction n rule: show_nat.induct)
  case (1 n)
  show ?case
  proof (cases "n < 10")
    case True
    then show ?thesis
      by (subst show_nat.simps) (simp add: digits_val_def digit_char_digit)
  next
    case False
    with 1 show ?thesis
      by (subst show_nat.simps)
        (simp add: digits_val_def digit_char_digit)
  qed
qed

section \<open>Results\<close>

text \<open>The operator \<open>?\<close>: go on with the value, or return the error.\<close>

fun and_then :: "'e + 'a \<Rightarrow> ('a \<Rightarrow> 'e + 'b) \<Rightarrow> 'e + 'b" where
  "and_then (Inl e) f = Inl e"
| "and_then (Inr x) f = f x"

lemma and_then_Inr [simp]: "and_then r f = Inr y \<longleftrightarrow> (\<exists>x. r = Inr x \<and> f x = Inr y)"
  by (cases r) auto

lemma and_then_Inl: "and_then r f = Inl e \<longleftrightarrow> r = Inl e \<or> (\<exists>x. r = Inr x \<and> f x = Inl e)"
  by (cases r) auto

section \<open>Integers\<close>

text \<open>\<open>usize::saturating_add\<close> on a 64-bit target; the bound is an \<open>int\<close> to stay computable.\<close>

definition sat_add :: "nat \<Rightarrow> nat \<Rightarrow> nat" where
  "sat_add a b = nat (min (int a + int b) (2 ^ 64 - 1))"

text \<open>\<open>usize::checked_add\<close> on a 64-bit target\<close>

definition checked_add :: "nat \<Rightarrow> nat \<Rightarrow> nat option" where
  "checked_add a b = (if int a + int b \<le> 2 ^ 64 - 1 then Some (a + b) else None)"

end
