(* ===== verification/Utf8.thy ===== *)
theory Utf8
  imports Base
begin

text \<open>
  UTF-8 as Rust's standard library reads it: the validation behind \<open>str::from_utf8\<close> with its
  two error fields (\<open>valid_up_to\<close>, \<open>error_len\<close>), the replacement of \<open>from_utf8_lossy\<close>, the
  characters of a \<open>str\<close>, char boundaries and the UTF-16 view (\<open>encode_utf16\<close>) that the code
  uses where it has to agree with JavaScript.
\<close>

section \<open>One validation step\<close>

definition bval :: "char \<Rightarrow> nat" where
  "bval b = of_char b"

definition is_cont :: "char \<Rightarrow> bool" where
  "is_cont b = (128 \<le> bval b \<and> bval b < 192)"

text \<open>The sequence length a first byte announces; 0 for a byte that starts no sequence.\<close>

definition utf8_char_width :: "char \<Rightarrow> nat" where
  "utf8_char_width b =
     (if bval b < 128 then 1
      else if 194 \<le> bval b \<and> bval b < 224 then 2
      else if 224 \<le> bval b \<and> bval b < 240 then 3
      else if 240 \<le> bval b \<and> bval b < 245 then 4
      else 0)"

text \<open>The second byte of a 3- or 4-byte sequence: no overlong forms, no surrogates, at most U+10FFFF.\<close>

definition second_ok :: "char \<Rightarrow> char \<Rightarrow> bool" where
  "second_ok b0 b1 =
     (if bval b0 = 224 then 160 \<le> bval b1 \<and> bval b1 < 192
      else if bval b0 = 237 then 128 \<le> bval b1 \<and> bval b1 < 160
      else if bval b0 = 240 then 144 \<le> bval b1 \<and> bval b1 < 192
      else if bval b0 = 244 then 128 \<le> bval b1 \<and> bval b1 < 144
      else is_cont b1)"

datatype utf8_decision =
    Utf8_Char nat
  | Utf8_Bad nat
  | Utf8_Incomplete

fun utf8_step :: "string \<Rightarrow> utf8_decision" where
  "utf8_step [] = Utf8_Incomplete"
| "utf8_step (b0 # s) =
     (if utf8_char_width b0 = 1 then Utf8_Char 1
      else if utf8_char_width b0 = 2 then
        (case s of
           [] \<Rightarrow> Utf8_Incomplete
         | b1 # _ \<Rightarrow> if is_cont b1 then Utf8_Char 2 else Utf8_Bad 1)
      else if utf8_char_width b0 = 3 then
        (case s of
           [] \<Rightarrow> Utf8_Incomplete
         | b1 # s1 \<Rightarrow>
             if \<not> second_ok b0 b1 then Utf8_Bad 1
             else (case s1 of
                [] \<Rightarrow> Utf8_Incomplete
              | b2 # _ \<Rightarrow> if is_cont b2 then Utf8_Char 3 else Utf8_Bad 2))
      else if utf8_char_width b0 = 4 then
        (case s of
           [] \<Rightarrow> Utf8_Incomplete
         | b1 # s1 \<Rightarrow>
             if \<not> second_ok b0 b1 then Utf8_Bad 1
             else (case s1 of
                [] \<Rightarrow> Utf8_Incomplete
              | b2 # s2 \<Rightarrow>
                  if \<not> is_cont b2 then Utf8_Bad 2
                  else (case s2 of
                     [] \<Rightarrow> Utf8_Incomplete
                   | b3 # _ \<Rightarrow> if is_cont b3 then Utf8_Char 4 else Utf8_Bad 3)))
      else Utf8_Bad 1)"

lemma utf8_step_Char: "utf8_step s = Utf8_Char k \<Longrightarrow> 0 < k \<and> k \<le> length s"
  by (cases s) (auto split: if_splits list.splits)

lemma utf8_step_Bad: "utf8_step s = Utf8_Bad k \<Longrightarrow> 0 < k \<and> k \<le> length s"
  by (cases s) (auto split: if_splits list.splits)

lemma utf8_step_Incomplete: "utf8_step s = Utf8_Incomplete \<Longrightarrow> length s \<le> 3"
  by (cases s) (auto split: if_splits list.splits)

lemma utf8_step_append:
  "utf8_step s \<noteq> Utf8_Incomplete \<Longrightarrow> utf8_step (s @ t) = utf8_step s"
  by (cases s) (auto split: if_splits list.splits)

section \<open>Whole-string validation\<close>

text \<open>
  \<open>Utf8_Invalid n k\<close> is an \<open>Utf8Error\<close> with \<open>valid_up_to = n\<close> and \<open>error_len = Some k\<close>;
  \<open>Utf8_Truncated n\<close> one with \<open>error_len = None\<close> (the input ends inside a sequence).
\<close>

datatype utf8_result =
    Utf8_Valid
  | Utf8_Invalid nat nat
  | Utf8_Truncated nat

function from_utf8_at :: "nat \<Rightarrow> string \<Rightarrow> utf8_result" where
  "from_utf8_at n s =
     (if s = [] then Utf8_Valid
      else case utf8_step s of
        Utf8_Char k \<Rightarrow> from_utf8_at (n + k) (drop k s)
      | Utf8_Bad k \<Rightarrow> Utf8_Invalid n k
      | Utf8_Incomplete \<Rightarrow> Utf8_Truncated n)"
  by pat_completeness auto
termination
  by (relation "measure (\<lambda>(n, s). length s)") (auto dest: utf8_step_Char)

declare from_utf8_at.simps [simp del]

definition from_utf8 :: "string \<Rightarrow> utf8_result" where
  "from_utf8 s = from_utf8_at 0 s"

definition valid_utf8 :: "string \<Rightarrow> bool" where
  "valid_utf8 s = (from_utf8 s = Utf8_Valid)"

lemma from_utf8_at_Nil [simp]: "from_utf8_at n [] = Utf8_Valid"
  by (simp add: from_utf8_at.simps)

fun utf8_shift :: "nat \<Rightarrow> utf8_result \<Rightarrow> utf8_result" where
  "utf8_shift d Utf8_Valid = Utf8_Valid"
| "utf8_shift d (Utf8_Invalid n k) = Utf8_Invalid (d + n) k"
| "utf8_shift d (Utf8_Truncated n) = Utf8_Truncated (d + n)"

lemma from_utf8_at_shift: "from_utf8_at (d + n) s = utf8_shift d (from_utf8_at n s)"
proof (induction n s rule: from_utf8_at.induct)
  case (1 n s)
  show ?case
  proof (cases "s = []")
    case True
    then show ?thesis by simp
  next
    case False
    have unf: "from_utf8_at m s = (case utf8_step s of
        Utf8_Char k \<Rightarrow> from_utf8_at (m + k) (drop k s)
      | Utf8_Bad k \<Rightarrow> Utf8_Invalid m k
      | Utf8_Incomplete \<Rightarrow> Utf8_Truncated m)" for m
      using False by (simp add: from_utf8_at.simps [of m s])
    show ?thesis
      using 1 [OF False] by (auto simp: unf add.assoc split: utf8_decision.splits)
  qed
qed

lemma from_utf8_at_step:
  assumes "s \<noteq> []" and "utf8_step s \<noteq> Utf8_Incomplete"
  shows "from_utf8_at n (s @ t) = (case utf8_step s of
        Utf8_Char k \<Rightarrow> from_utf8_at (n + k) (drop k s @ t)
      | Utf8_Bad k \<Rightarrow> Utf8_Invalid n k
      | Utf8_Incomplete \<Rightarrow> Utf8_Truncated n)"
  using assms utf8_step_append [OF assms(2), of t]
  by (subst from_utf8_at.simps) (auto dest: utf8_step_Char split: utf8_decision.splits)

text \<open>A valid prefix can be cut off; an invalid one decides the result.\<close>

lemma from_utf8_at_append:
  shows "from_utf8_at n s = Utf8_Valid \<Longrightarrow> from_utf8_at n (s @ t) = from_utf8_at (n + length s) t"
    and "from_utf8_at n s = Utf8_Invalid m k \<Longrightarrow> from_utf8_at n (s @ t) = Utf8_Invalid m k"
    and "from_utf8_at n s = Utf8_Truncated m \<Longrightarrow>
      n \<le> m \<and> m < n + length s \<and> n + length s \<le> m + 3 \<and>
      from_utf8_at n (s @ t) = from_utf8_at m (drop (m - n) s @ t)"
proof (induction n s rule: from_utf8_at.induct)
  case (1 n s)
  show "from_utf8_at n s = Utf8_Valid \<Longrightarrow> from_utf8_at n (s @ t) = from_utf8_at (n + length s) t"
  proof (cases "s = []")
    case False
    assume v: "from_utf8_at n s = Utf8_Valid"
    with False obtain k where k: "utf8_step s = Utf8_Char k"
      by (subst (asm) from_utf8_at.simps) (auto split: utf8_decision.splits)
    with v False have "from_utf8_at (n + k) (drop k s) = Utf8_Valid"
      by (subst (asm) from_utf8_at.simps) simp
    from 1(1) [OF False k this] k False utf8_step_Char [OF k] show ?thesis
      by (simp add: from_utf8_at_step)
  qed simp
  show "from_utf8_at n s = Utf8_Invalid m k \<Longrightarrow> from_utf8_at n (s @ t) = Utf8_Invalid m k"
  proof (cases "s = []")
    case False
    assume v: "from_utf8_at n s = Utf8_Invalid m k"
    with False have inc: "utf8_step s \<noteq> Utf8_Incomplete"
      by (subst (asm) from_utf8_at.simps) auto
    show ?thesis
    proof (cases "utf8_step s")
      case (Utf8_Char j)
      with v False have "from_utf8_at (n + j) (drop j s) = Utf8_Invalid m k"
        by (subst (asm) from_utf8_at.simps) simp
      from 1(2) [OF False Utf8_Char this] show ?thesis
        using Utf8_Char False inc by (simp add: from_utf8_at_step)
    next
      case (Utf8_Bad j)
      with v False show ?thesis
        using inc by (subst (asm) from_utf8_at.simps) (simp add: from_utf8_at_step)
    qed (use inc in simp)
  qed simp
  show "from_utf8_at n s = Utf8_Truncated m \<Longrightarrow>
      n \<le> m \<and> m < n + length s \<and> n + length s \<le> m + 3 \<and>
      from_utf8_at n (s @ t) = from_utf8_at m (drop (m - n) s @ t)"
  proof (cases "s = []")
    case False
    assume v: "from_utf8_at n s = Utf8_Truncated m"
    show ?thesis
    proof (cases "utf8_step s")
      case (Utf8_Char j)
      with v False have "from_utf8_at (n + j) (drop j s) = Utf8_Truncated m"
        by (subst (asm) from_utf8_at.simps) simp
      from 1(3) [OF False Utf8_Char this] show ?thesis
        using Utf8_Char False utf8_step_Char [OF Utf8_Char]
        by (auto simp: from_utf8_at_step)
    next
      case Utf8_Incomplete
      with v False have "m = n"
        by (subst (asm) from_utf8_at.simps) simp
      with False utf8_step_Incomplete [OF Utf8_Incomplete] show ?thesis
        by simp
    next
      case (Utf8_Bad j)
      with v False show ?thesis
        by (subst (asm) from_utf8_at.simps) simp
    qed
  qed simp
qed

lemma valid_utf8_append: "valid_utf8 s \<Longrightarrow> valid_utf8 (s @ t) \<longleftrightarrow> valid_utf8 t"
proof -
  assume "valid_utf8 s"
  then have "from_utf8_at 0 (s @ t) = from_utf8_at (length s + 0) t"
    by (simp add: valid_utf8_def from_utf8_def from_utf8_at_append(1))
  also have "\<dots> = utf8_shift (length s) (from_utf8_at 0 t)"
    by (rule from_utf8_at_shift)
  finally show ?thesis
    by (cases "from_utf8_at 0 t") (auto simp: valid_utf8_def from_utf8_def)
qed

text \<open>An ASCII character never continues a sequence: what comes before it is valid by itself.\<close>

lemma utf8_step_Incomplete_ascii:
  "utf8_step r = Utf8_Incomplete \<Longrightarrow> r \<noteq> [] \<Longrightarrow> bval c < 128 \<Longrightarrow> \<exists>k. utf8_step (r @ c # t) = Utf8_Bad k"
  by (cases r) (auto simp: is_cont_def second_ok_def split: if_splits list.splits)

lemma from_utf8_at_Truncated:
  "from_utf8_at n s = Utf8_Truncated m \<Longrightarrow>
    drop (m - n) s \<noteq> [] \<and> utf8_step (drop (m - n) s) = Utf8_Incomplete"
proof (induction n s rule: from_utf8_at.induct)
  case (1 n s)
  then have ne: "s \<noteq> []" by auto
  show ?case
  proof (cases "utf8_step s")
    case (Utf8_Char k)
    with 1(2) ne have t: "from_utf8_at (n + k) (drop k s) = Utf8_Truncated m"
      by (subst (asm) from_utf8_at.simps) simp
    from from_utf8_at_append(3) [OF t] have "n + k \<le> m" by blast
    with 1(1) [OF ne Utf8_Char t] show ?thesis by (simp add: add.commute)
  qed (use 1(2) ne in \<open>subst (asm) from_utf8_at.simps, simp\<close>)+
qed

lemma valid_utf8_before_ascii:
  assumes "valid_utf8 (a @ c # t)" and "bval c < 128"
  shows "valid_utf8 a \<and> valid_utf8 t"
proof -
  have "valid_utf8 a"
  proof (cases "from_utf8_at 0 a")
    case Utf8_Valid
    then show ?thesis by (simp add: valid_utf8_def from_utf8_def)
  next
    case (Utf8_Invalid m k)
    from from_utf8_at_append(2) [OF this, of "c # t"] assms(1) show ?thesis
      by (simp add: valid_utf8_def from_utf8_def)
  next
    case (Utf8_Truncated m)
    let ?r = "drop m a"
    from from_utf8_at_Truncated [OF Utf8_Truncated] have r: "?r \<noteq> []" "utf8_step ?r = Utf8_Incomplete" by auto
    from utf8_step_Incomplete_ascii [OF r(2,1) assms(2)] obtain k where
      "utf8_step (?r @ c # t) = Utf8_Bad k" by blast
    then have "from_utf8_at m (?r @ c # t) = Utf8_Invalid m k"
      by (subst from_utf8_at.simps) simp
    with from_utf8_at_append(3) [OF Utf8_Truncated, of "c # t"] assms(1) show ?thesis
      by (simp add: valid_utf8_def from_utf8_def)
  qed
  moreover have "valid_utf8 [c]"
    using assms(2) by (simp add: valid_utf8_def from_utf8_def from_utf8_at.simps utf8_char_width_def)
  ultimately show ?thesis
    using assms(1) valid_utf8_append [of a "c # t"] valid_utf8_append [of "[c]" t] by simp
qed

lemma valid_utf8_split_char:
  "valid_utf8 s \<Longrightarrow> bval c < 128 \<Longrightarrow> x \<in> set (split_char c s) \<Longrightarrow> valid_utf8 x"
proof (induction "length s" arbitrary: s rule: less_induct)
  case less
  show ?case
  proof (cases "c \<in> set s")
    case False
    with less.prems show ?thesis by (simp add: split_char_free)
  next
    case True
    then obtain a t where s: "s = a @ c # t" "c \<notin> set a" by (metis split_list_first)
    with less.prems(1,2) have "valid_utf8 a" "valid_utf8 t" using valid_utf8_before_ascii by blast+
    with s less.prems less.hyps [of t] show ?thesis
      by (auto simp: split_char_append split_char_free)
  qed
qed

lemma valid_utf8_ascii: "(\<And>c. c \<in> set s \<Longrightarrow> bval c < 128) \<Longrightarrow> valid_utf8 s"
proof (induction s)
  case Nil
  then show ?case by (simp add: valid_utf8_def from_utf8_def)
next
  case (Cons c s)
  from Cons.prems have "valid_utf8 [c]"
    by (simp add: valid_utf8_def from_utf8_def from_utf8_at.simps utf8_char_width_def)
  with Cons valid_utf8_append [of "[c]" s] show ?case by simp
qed

section \<open>Lossy decoding\<close>

text \<open>\<open>from_utf8_lossy\<close>: every maximal invalid part becomes U+FFFD.\<close>

definition replacement_char :: string where
  "replacement_char = [CHR 0xEF, CHR 0xBF, CHR 0xBD]"

function from_utf8_lossy :: "string \<Rightarrow> string" where
  "from_utf8_lossy s =
     (if s = [] then []
      else case utf8_step s of
        Utf8_Char k \<Rightarrow> take k s @ from_utf8_lossy (drop k s)
      | Utf8_Bad k \<Rightarrow> replacement_char @ from_utf8_lossy (drop k s)
      | Utf8_Incomplete \<Rightarrow> replacement_char)"
  by pat_completeness auto
termination
  by (relation "measure length") (auto dest: utf8_step_Char utf8_step_Bad)

declare from_utf8_lossy.simps [simp del]

lemma from_utf8_lossy_valid_at: "from_utf8_at n s = Utf8_Valid \<Longrightarrow> from_utf8_lossy s = s"
proof (induction n s rule: from_utf8_at.induct)
  case (1 n s)
  show ?case
  proof (cases "s = []")
    case True
    then show ?thesis by (simp add: from_utf8_lossy.simps)
  next
    case False
    with "1.prems" obtain k where k: "utf8_step s = Utf8_Char k"
      by (subst (asm) from_utf8_at.simps) (auto split: utf8_decision.splits)
    with False "1.prems" have "from_utf8_at (n + k) (drop k s) = Utf8_Valid"
      by (subst (asm) from_utf8_at.simps) simp
    from "1.IH" [OF False k this] False k show ?thesis
      by (simp add: from_utf8_lossy.simps [of s])
  qed
qed

lemma from_utf8_lossy_valid: "valid_utf8 s \<Longrightarrow> from_utf8_lossy s = s"
  by (simp add: valid_utf8_def from_utf8_def from_utf8_lossy_valid_at)

section \<open>Characters\<close>

text \<open>
  \<open>str::chars\<close>, a character given by its bytes.  The iterator of a \<open>str\<close> trusts the
  first byte for the length of the sequence.
\<close>

definition char_len :: "char \<Rightarrow> nat" where
  "char_len b = (if bval b < 128 then 1 else if bval b < 224 then 2 else if bval b < 240 then 3 else 4)"

lemma char_len_pos [simp]: "0 < char_len b"
  by (simp add: char_len_def)

fun next_char :: "string \<Rightarrow> (string \<times> string) option" where
  "next_char [] = None"
| "next_char (b # s) = Some (take (char_len b) (b # s), drop (char_len b) (b # s))"

lemma next_char_Some: "next_char s = Some (c, r) \<Longrightarrow> s = c @ r \<and> c \<noteq> []"
proof (cases s)
  case (Cons b t)
  assume "next_char s = Some (c, r)"
  with Cons have "c = take (char_len b) s" and "r = drop (char_len b) s" by simp_all
  with Cons char_len_pos [of b] show ?thesis by (metis append_take_drop_id bot_nat_0.extremum_strict list.distinct(1) take_eq_Nil)
qed simp

lemma next_char_None: "next_char s = None \<Longrightarrow> s = []"
  by (cases s) auto

function chars :: "string \<Rightarrow> string list" where
  "chars s = (case next_char s of None \<Rightarrow> [] | Some (c, r) \<Rightarrow> c # chars r)"
  by pat_completeness auto
termination
  by (relation "measure length") (auto dest: next_char_Some)

declare chars.simps [simp del]

lemma chars_Nil [simp]: "chars [] = []"
  by (simp add: chars.simps)

lemma chars_ascii_Cons: "bval b < 128 \<Longrightarrow> chars (b # s) = [b] # chars s"
  by (simp add: chars.simps [of "b # s"] char_len_def)

lemma concat_chars [simp]: "concat (chars s) = s"
proof (induction s rule: chars.induct)
  case (1 s)
  then show ?case
    by (subst chars.simps) (auto dest: next_char_Some next_char_None split: option.splits)
qed

lemma chars_not_Nil: "[] \<notin> set (chars s)"
proof (induction s rule: chars.induct)
  case (1 s)
  show ?case
  proof (cases "next_char s")
    case None
    then show ?thesis by (subst chars.simps) simp
  next
    case (Some cr)
    then obtain c r where n: "next_char s = Some (c, r)" by (cases cr) simp
    with 1 have "[] \<notin> set (chars r)" by blast
    with n next_char_Some [OF n] show ?thesis by (subst chars.simps) auto
  qed
qed

lemma utf8_step_char_len: "utf8_step (b # s) = Utf8_Char k \<Longrightarrow> char_len b = k"
  by (auto simp: char_len_def utf8_char_width_def split: if_splits list.splits)

lemma chars_append_at: "from_utf8_at n a = Utf8_Valid \<Longrightarrow> chars (a @ b) = chars a @ chars b"
proof (induction n a rule: from_utf8_at.induct)
  case (1 n a)
  show ?case
  proof (cases a)
    case Nil
    then show ?thesis by simp
  next
    case (Cons c s)
    with "1.prems" obtain k where k: "utf8_step a = Utf8_Char k"
      by (subst (asm) from_utf8_at.simps) (auto split: utf8_decision.splits)
    with Cons "1.prems" have "from_utf8_at (n + k) (drop k a) = Utf8_Valid"
      by (subst (asm) from_utf8_at.simps) simp
    with "1.IH" k Cons have IH: "chars (drop k a @ b) = chars (drop k a) @ chars b" by blast
    have len: "char_len c = k" "0 < k" "k \<le> length a"
      using k Cons utf8_step_char_len utf8_step_Char by blast+
    have "chars (a @ t) = take k a # chars (drop k a @ t)" for t
    proof -
      have "take k (a @ t) = take k a" and "drop k (a @ t) = drop k a @ t" using len by simp_all
      moreover have "next_char (a @ t) = Some (take k (a @ t), drop k (a @ t))"
        using len Cons by simp
      ultimately show ?thesis by (subst chars.simps) simp
    qed
    from this [of b] this [of "[]"] IH show ?thesis by simp
  qed
qed

lemma chars_append: "valid_utf8 a \<Longrightarrow> chars (a @ b) = chars a @ chars b"
  by (simp add: valid_utf8_def from_utf8_def chars_append_at)

definition is_char_boundary :: "string \<Rightarrow> nat \<Rightarrow> bool" where
  "is_char_boundary s i \<longleftrightarrow> i = 0 \<or> i = length s \<or> (i < length s \<and> \<not> is_cont (s ! i))"

text \<open>\<open>str::get(..n)\<close>: \<open>None\<close> past the end and inside a character.\<close>

definition get_prefix :: "string \<Rightarrow> nat \<Rightarrow> string option" where
  "get_prefix s n = (if n \<le> length s \<and> is_char_boundary s n then Some (take n s) else None)"

section \<open>UTF-16\<close>

definition utf16_units :: "string \<Rightarrow> nat" where
  "utf16_units c = (if length c = 4 then 2 else 1)"

text \<open>\<open>encode_utf16().count()\<close>.\<close>

definition utf16_len :: "string \<Rightarrow> nat" where
  "utf16_len s = sum_list (map utf16_units (chars s))"

text \<open>The scalar value of one character, and the code units \<open>encode_utf16\<close> yields for it.\<close>

definition scalar_value :: "string \<Rightarrow> nat" where
  "scalar_value c =
     (case c of
        [b0] \<Rightarrow> bval b0
      | [b0, b1] \<Rightarrow> (bval b0 - 192) * 64 + (bval b1 - 128)
      | [b0, b1, b2] \<Rightarrow> (bval b0 - 224) * 4096 + (bval b1 - 128) * 64 + (bval b2 - 128)
      | [b0, b1, b2, b3] \<Rightarrow>
          (bval b0 - 240) * 262144 + (bval b1 - 128) * 4096 + (bval b2 - 128) * 64 + (bval b3 - 128)
      | _ \<Rightarrow> 0)"

lemma scalar_value_code [code]:
  "scalar_value c =
     (if length c = 1 then bval (c ! 0)
      else if length c = 2 then (bval (c ! 0) - 192) * 64 + (bval (c ! 1) - 128)
      else if length c = 3 then
        (bval (c ! 0) - 224) * 4096 + (bval (c ! 1) - 128) * 64 + (bval (c ! 2) - 128)
      else if length c = 4 then
        (bval (c ! 0) - 240) * 262144 + (bval (c ! 1) - 128) * 4096 + (bval (c ! 2) - 128) * 64 +
          (bval (c ! 3) - 128)
      else 0)"
  by (auto simp: scalar_value_def split: list.split)

definition encode_utf16_char :: "string \<Rightarrow> nat list" where
  "encode_utf16_char c =
     (let v = scalar_value c in
      if v < 65536 then [v]
      else [55296 + (v - 65536) div 1024, 56320 + (v - 65536) mod 1024])"

definition encode_utf16 :: "string \<Rightarrow> nat list" where
  "encode_utf16 s = concat (map encode_utf16_char (chars s))"

lemma utf16_len_ascii: "(\<And>c. c \<in> set s \<Longrightarrow> bval c < 128) \<Longrightarrow> utf16_len s = length s"
  by (induction s) (auto simp: utf16_len_def chars_ascii_Cons utf16_units_def)

section \<open>Path text\<close>

text \<open>Every \<open>\\<close> becomes \<open>/\<close> and runs of \<open>/\<close> collapse; the flag says that a \<open>/\<close> was just written.\<close>

fun collapse_from :: "bool \<Rightarrow> string \<Rightarrow> string" where
  "collapse_from after_slash [] = []"
| "collapse_from after_slash (c # s) =
     (let c' = (if c = CHR 0x5C then CHR ''/'' else c) in
      if c' = CHR ''/'' \<and> after_slash then collapse_from True s
      else c' # collapse_from (c' = CHR ''/'') s)"

definition is_ascii_alphabetic :: "char \<Rightarrow> bool" where
  "is_ascii_alphabetic c \<longleftrightarrow>
     (65 \<le> bval c \<and> bval c \<le> 90) \<or> (97 \<le> bval c \<and> bval c \<le> 122)"

section \<open>Characters\<close>

text \<open>\<open>char::is_whitespace\<close> (White\_Space) on a scalar value, and \<open>str::trim\<close>.\<close>

definition unicode_whitespace :: "nat \<Rightarrow> bool" where
  "unicode_whitespace v \<longleftrightarrow>
     (9 \<le> v \<and> v \<le> 13) \<or> v = 0x20 \<or> v = 0x85 \<or> v = 0xA0 \<or> v = 0x1680 \<or> (0x2000 \<le> v \<and> v \<le> 0x200A) \<or>
     v = 0x2028 \<or> v = 0x2029 \<or> v = 0x202F \<or> v = 0x205F \<or> v = 0x3000"

lemma unicode_whitespace_code [code]:
  "unicode_whitespace v \<longleftrightarrow>
     (if v < 0x80 then (9 \<le> v \<and> v \<le> 13) \<or> v = 0x20
      else v = 0x85 \<or> v = 0xA0 \<or> v = 0x1680 \<or> (0x2000 \<le> v \<and> v \<le> 0x200A) \<or>
        v = 0x2028 \<or> v = 0x2029 \<or> v = 0x202F \<or> v = 0x205F \<or> v = 0x3000)"
  by (auto simp: unicode_whitespace_def)

definition str_trim :: "string \<Rightarrow> string" where
  "str_trim s = concat (trim_matches (\<lambda>c. unicode_whitespace (scalar_value c)) (chars s))"

definition is_ascii_hexdigit :: "char \<Rightarrow> bool" where
  "is_ascii_hexdigit c \<longleftrightarrow>
     (48 \<le> bval c \<and> bval c \<le> 57) \<or> (65 \<le> bval c \<and> bval c \<le> 70) \<or> (97 \<le> bval c \<and> bval c \<le> 102)"

end
