(* ===== verification/Format.thy ===== *)
theory Format
  imports Utf8
begin

text \<open>
  The wire format of file mode (\<open>crates/core/src/format.rs\<close>): building a clipboard payload from
  files and parsing a payload back into entries.  The three regular expressions of the module
  are translated alternative by alternative into functions that return every way to match, in
  the order a leftmost-first matcher tries them, so that the first result is the match.
\<close>

section \<open>Data\<close>

datatype change_type = New | Modified | Deleted | Moved

text \<open>\<open>ChangeType\<close> derives \<open>Ord\<close>: the order of the constructors.\<close>

fun change_type_index :: "change_type \<Rightarrow> nat" where
  "change_type_index New = 0"
| "change_type_index Modified = 1"
| "change_type_index Deleted = 2"
| "change_type_index Moved = 3"

lemma change_type_index_inj [simp]: "change_type_index a = change_type_index b \<longleftrightarrow> a = b"
  by (cases a; cases b) auto

instantiation change_type :: linorder
begin

definition less_eq_change_type :: "change_type \<Rightarrow> change_type \<Rightarrow> bool" where
  "less_eq_change_type a b = (change_type_index a \<le> change_type_index b)"

definition less_change_type :: "change_type \<Rightarrow> change_type \<Rightarrow> bool" where
  "less_change_type a b = (change_type_index a < change_type_index b)"

instance
  by standard (auto simp: less_eq_change_type_def less_change_type_def dest: antisym)

end

fun as_str :: "change_type \<Rightarrow> string" where
  "as_str New = ''NEW''"
| "as_str Modified = ''MODIFIED''"
| "as_str Deleted = ''DELETED''"
| "as_str Moved = ''MOVED''"

definition from_label :: "string \<Rightarrow> change_type option" where
  "from_label label =
     (if label = ''NEW'' then Some New
      else if label = ''MODIFIED'' then Some Modified
      else if label = ''DELETED'' then Some Deleted
      else if label = ''MOVED'' then Some Moved
      else None)"

record parsed_entry =
  entry_path :: string
  entry_content :: string
  entry_change_types :: "change_type set"

record payload_file =
  file_path :: string
  file_content :: "string option"
  file_change_type :: "change_type option"
  file_skipped_reason :: "string option"

record build_payload_options =
  opt_header_format :: string
  opt_pre_text :: string
  opt_post_text :: string
  opt_add_extra_line_between_files :: bool
  opt_files :: "payload_file list"
  opt_source_root :: "string option"

text \<open>\<open>BorrowedPayloadOptions\<close>: the same fields and the flag of the two entry points.\<close>

record borrowed_payload_options =
  b_header_format :: string
  b_pre_text :: string
  b_post_text :: string
  b_add_extra_line_between_files :: bool
  b_source_root :: "string option"
  b_files :: "payload_file list"
  b_include_empty_wrappers :: bool

section \<open>Constants and trimming\<close>

definition nl :: char where "nl = CHR 0x0A"

definition cr :: char where "cr = CHR 0x0D"

definition ESCAPE_MARKER :: string where "ESCAPE_MARKER = ''//clipcode-esc: ''"

definition SOURCE_ROOT_MARKER :: string where "SOURCE_ROOT_MARKER = ''// clipcode-root: ''"

definition POST_TEXT_MARKER :: string where "POST_TEXT_MARKER = ''// clipcode-end''"

definition PLACEHOLDER :: string where "PLACEHOLDER = ''$FILE_PATH''"

definition is_ascii_ws :: "char \<Rightarrow> bool" where
  "is_ascii_ws c \<longleftrightarrow>
     c = CHR 0x20 \<or> c = CHR 0x09 \<or> c = CHR 0x0A \<or> c = CHR 0x0B \<or> c = CHR 0x0C \<or> c = CHR 0x0D"

definition ascii_trim :: "string \<Rightarrow> string" where
  "ascii_trim value = trim_matches is_ascii_ws value"

text \<open>The four JavaScript line terminators: what the class \<open>DOT\<close> excludes.\<close>

definition js_line_terminators :: "string list" where
  "js_line_terminators =
     [[CHR 0x0A], [CHR 0x0D], [CHR 0xE2, CHR 0x80, CHR 0xA8], [CHR 0xE2, CHR 0x80, CHR 0xA9]]"

definition extract_source_root :: "string \<Rightarrow> string option" where
  "extract_source_root clipboard_text =
     (case strip_prefix SOURCE_ROOT_MARKER (hd (split_char nl clipboard_text)) of
        None \<Rightarrow> None
      | Some rest \<Rightarrow> (let value = ascii_trim rest in if value = [] then None else Some value))"

section \<open>The regular expressions\<close>

text \<open>\<open>[ \t\n\x0B\x0C\r]*\<close>, greedy: the rests in the order they are tried.\<close>

fun ws_star :: "string \<Rightarrow> string list" where
  "ws_star [] = [[]]"
| "ws_star (c # s) = (if is_ascii_ws c then ws_star s @ [c # s] else [c # s])"

text \<open>\<open>[Ff][Ii][Ll][Ee]:\<close>\<close>

fun file_keyword :: "string \<Rightarrow> string list" where
  "file_keyword (f # i # l # e # c # s) =
     (if (f = CHR ''F'' \<or> f = CHR ''f'') \<and> (i = CHR ''I'' \<or> i = CHR ''i'') \<and>
         (l = CHR ''L'' \<or> l = CHR ''l'') \<and> (e = CHR ''E'' \<or> e = CHR ''e'') \<and> c = CHR '':''
      then [s] else [])"
| "file_keyword s = []"

text \<open>\<open>DOT+?\<close>, lazy: the shortest match first.\<close>

function dot_plus_lazy :: "string \<Rightarrow> (string \<times> string) list" where
  "dot_plus_lazy s =
     (case next_char s of
        None \<Rightarrow> []
      | Some (c, r) \<Rightarrow>
          if c \<in> set js_line_terminators then []
          else (c, r) # map (\<lambda>(p, q). (c @ p, q)) (dot_plus_lazy r))"
  by pat_completeness auto
termination
  by (relation "measure length") (auto dest: next_char_Some)

declare dot_plus_lazy.simps [simp del]

text \<open>\<open>(?:(//|#|/\*)WS*)?\<close>: the three markers in order, then no marker.\<close>

definition comment_marker :: "string \<Rightarrow> (string option \<times> string) list" where
  "comment_marker s =
     concat (map (\<lambda>m. case strip_prefix m s of
                        None \<Rightarrow> []
                      | Some r \<Rightarrow> map (\<lambda>r'. (Some m, r')) (ws_star r))
       [''//'', ''#'', ''/*'']) @ [(None, s)]"

text \<open>\<open>(?:\*/)?\<close>\<close>

definition comment_close :: "string \<Rightarrow> string list" where
  "comment_close s = (case strip_prefix ''*/'' s of None \<Rightarrow> [s] | Some r \<Rightarrow> [r, s])"

text \<open>\<open>GENERIC_FILE_HEADER\<close>: the captures (comment marker, path) of every match, in order.\<close>

definition generic_matches :: "string \<Rightarrow> (string option \<times> string) list" where
  "generic_matches line =
     [(m, p). s1 \<leftarrow> ws_star line, (m, s2) \<leftarrow> comment_marker s1, s3 \<leftarrow> file_keyword s2,
              s4 \<leftarrow> ws_star s3, (p, s5) \<leftarrow> dot_plus_lazy s4, s6 \<leftarrow> ws_star s5,
              s7 \<leftarrow> comment_close s6, s7 = []]"

definition generic_file_header :: "string \<Rightarrow> (string option \<times> string) option" where
  "generic_file_header line =
     (case generic_matches line of [] \<Rightarrow> None | capture # _ \<Rightarrow> Some capture)"

text \<open>One \<open>\[(NEW|MODIFIED|DELETED|MOVED)\]\<close> at the start: the label and the rest.\<close>

definition label_at :: "string \<Rightarrow> (string \<times> string) option" where
  "label_at s =
     (case [(l, r). l \<leftarrow> [''NEW'', ''MODIFIED'', ''DELETED'', ''MOVED''],
                    r \<leftarrow> (case strip_prefix (''['' @ l @ '']'') s of None \<Rightarrow> [] | Some r \<Rightarrow> [r])] of
        [] \<Rightarrow> None
      | x # _ \<Rightarrow> Some x)"

lemma label_at_shrinks: "label_at s = Some (l, r) \<Longrightarrow> length r < length s"
  by (auto simp: label_at_def strip_prefix_Some split: list.splits option.splits if_splits)

text \<open>\<open>LEADING_LABEL_PATTERN\<close>: what is left after the greedy \<open>^(?:\[...\]WS*)+\<close>, if it matches.\<close>

function drop_leading_labels :: "string \<Rightarrow> string" where
  "drop_leading_labels s =
     (case label_at s of None \<Rightarrow> s | Some (l, r) \<Rightarrow> drop_leading_labels (dropWhile is_ascii_ws r))"
  by pat_completeness auto
termination
  by (relation "measure length")
    (auto dest!: label_at_shrinks intro: le_less_trans [OF length_dropWhile_le])

declare drop_leading_labels.simps [simp del]

text \<open>\<open>LABEL_PATTERN.captures_iter\<close>: the labels found scanning from left to right.\<close>

function label_captures :: "string \<Rightarrow> string list" where
  "label_captures s =
     (case label_at s of
        Some (l, r) \<Rightarrow> l # label_captures r
      | None \<Rightarrow> (case s of [] \<Rightarrow> [] | c # cs \<Rightarrow> label_captures cs))"
  by pat_completeness auto
termination
  by (relation "measure length") (auto dest: label_at_shrinks)

declare label_captures.simps [simp del]

definition extract_leading_labels :: "string \<Rightarrow> change_type set" where
  "extract_leading_labels path =
     (if label_at path = None then {}
      else set (List.map_filter from_label
        (label_captures (take (length path - length (drop_leading_labels path)) path))))"

definition strip_leading_labels :: "string \<Rightarrow> string" where
  "strip_leading_labels path = ascii_trim (drop_leading_labels path)"

section \<open>Recognising headers\<close>

definition is_likely_bare_file_header_path :: "string \<Rightarrow> bool" where
  "is_likely_bare_file_header_path raw_path =
     (let path = ascii_trim (strip_leading_labels raw_path) in
      if path = [] \<or> hd path = CHR 0x22 \<or> hd path = CHR 0x27 \<or>
         last path = CHR '','' \<or> last path = CHR '';''
      then False
      else list_ex (\<lambda>c. c = CHR ''/'' \<or> c = CHR 0x5C \<or> c = CHR ''.'') path)"

text \<open>\<open>HeaderPattern\<close>: the pieces of the format around the placeholder, at least two.\<close>

record header_pattern =
  segments :: "string list"

definition header_pattern_new :: "string \<Rightarrow> header_pattern option" where
  "header_pattern_new header_format =
     (let segs = split_str PLACEHOLDER header_format in
      if 2 \<le> length segs then Some \<lparr>segments = segs\<rparr> else None)"

text \<open>The loop over the inner segments: each is followed by the captured path again.\<close>

fun repeats_match :: "string list \<Rightarrow> string \<Rightarrow> string \<Rightarrow> bool" where
  "repeats_match [] path tail = (tail = [])"
| "repeats_match (seg # segs) path tail =
     (case strip_prefix seg tail of
        None \<Rightarrow> False
      | Some t1 \<Rightarrow> (case strip_prefix path t1 of
            None \<Rightarrow> False
          | Some t2 \<Rightarrow> repeats_match segs path t2))"

definition has_js_terminator :: "string \<Rightarrow> bool" where
  "has_js_terminator s = list_ex (\<lambda>c. c \<in> set js_line_terminators) (chars s)"

definition header_pattern_find :: "header_pattern \<Rightarrow> string \<Rightarrow> string option" where
  "header_pattern_find self line =
     (case segments self of
        [] \<Rightarrow> None
      | first # rest \<Rightarrow>
          if rest = [] then None
          else
            (let lastseg = last rest; inner = butlast rest in
             case strip_prefix first line of
               None \<Rightarrow> None
             | Some m1 \<Rightarrow> (case strip_suffix lastseg m1 of
                   None \<Rightarrow> None
                 | Some middle \<Rightarrow>
                     (let repeats = length inner + 1;
                          inner_len = sum_list (map length inner) in
                      if length middle < inner_len then None
                      else
                        (let path_len = length middle - inner_len in
                         if path_len = 0 \<or> path_len mod repeats \<noteq> 0 then None
                         else (case get_prefix middle (path_len div repeats) of
                             None \<Rightarrow> None
                           | Some path \<Rightarrow>
                               if has_js_terminator path then None
                               else if repeats_match inner path (drop (length path) middle)
                               then Some path else None))))))"

definition find_header_path :: "string \<Rightarrow> header_pattern option \<Rightarrow> string option" where
  "find_header_path line custom =
     (case Option.bind custom (\<lambda>c. header_pattern_find c line) of
        Some path \<Rightarrow> Some path
      | None \<Rightarrow> (case generic_file_header line of
            None \<Rightarrow> None
          | Some (marker, raw_path) \<Rightarrow>
              if marker = None \<and> \<not> is_likely_bare_file_header_path raw_path then None
              else Some raw_path))"

section \<open>Escaping\<close>

definition drop_cr :: "string \<Rightarrow> string" where
  "drop_cr line = (case strip_suffix [cr] line of Some l \<Rightarrow> l | None \<Rightarrow> line)"

definition needs_escape :: "string \<Rightarrow> header_pattern option \<Rightarrow> bool" where
  "needs_escape line custom =
     (if starts_with ESCAPE_MARKER line then True
      else if line = POST_TEXT_MARKER \<or> strip_suffix [cr] line = Some POST_TEXT_MARKER then True
      else
        (let as_parsed = drop_cr line in
         if find_header_path as_parsed custom = None then False
         else find_header_path (ESCAPE_MARKER @ as_parsed) custom = None))"

definition unescape_line :: "string \<Rightarrow> string" where
  "unescape_line line =
     (case strip_prefix ESCAPE_MARKER line of Some l \<Rightarrow> l | None \<Rightarrow> line)"

definition unescape_content :: "string \<Rightarrow> string" where
  "unescape_content text = join [nl] (map unescape_line (split_char nl text))"

section \<open>Writing a payload\<close>

text \<open>
  The writers are generic in \<open>fmt::Write\<close>: the sink's \<open>write_str\<close> is the first argument.  The
  two sinks of the program, a \<open>String\<close> and the \<open>CountingWriter\<close>, never fail.
\<close>

record 'w line_writer =
  sink :: 'w
  has_written_line :: bool

definition line_writer_new :: "'w \<Rightarrow> 'w line_writer" where
  "line_writer_new w = \<lparr>sink = w, has_written_line = False\<rparr>"

definition write_line :: "('w \<Rightarrow> string \<Rightarrow> 'w) \<Rightarrow> 'w line_writer \<Rightarrow> string \<Rightarrow> 'w line_writer" where
  "write_line write_str self line =
     (let w1 = (if has_written_line self then write_str (sink self) [nl] else sink self) in
      \<lparr>sink = write_str w1 line, has_written_line = True\<rparr>)"

definition write_escaped_line ::
  "('w \<Rightarrow> string \<Rightarrow> 'w) \<Rightarrow> header_pattern option \<Rightarrow> 'w \<Rightarrow> string \<Rightarrow> 'w" where
  "write_escaped_line write_str custom w line =
     (let w1 = (if needs_escape line custom then write_str w ESCAPE_MARKER else w) in
      write_str w1 line)"

definition write_escaped_content ::
  "('w \<Rightarrow> string \<Rightarrow> 'w) \<Rightarrow> 'w \<Rightarrow> string \<Rightarrow> header_pattern option \<Rightarrow> 'w" where
  "write_escaped_content write_str w text custom =
     (case split_char nl text of
        [] \<Rightarrow> w
      | first # rest \<Rightarrow>
          foldl (\<lambda>w line. write_escaped_line write_str custom (write_str w [nl]) line)
            (write_escaped_line write_str custom w first) rest)"

definition write_escaped ::
  "('w \<Rightarrow> string \<Rightarrow> 'w) \<Rightarrow> 'w line_writer \<Rightarrow> string \<Rightarrow> header_pattern option \<Rightarrow> 'w line_writer" where
  "write_escaped write_str self text custom =
     (let w1 = (if has_written_line self then write_str (sink self) [nl] else sink self) in
      \<lparr>sink = write_escaped_content write_str w1 text custom, has_written_line = True\<rparr>)"

definition format_header :: "string \<Rightarrow> string \<Rightarrow> change_type option \<Rightarrow> string" where
  "format_header header_format clipboard_path change_type =
     (let path_with_label =
        (case change_type of
           Some t \<Rightarrow> ''['' @ as_str t @ ''] '' @ clipboard_path
         | None \<Rightarrow> clipboard_path) in
      replace_str PLACEHOLDER path_with_label header_format)"

definition write_payload_envelope ::
  "('w \<Rightarrow> string \<Rightarrow> 'w) \<Rightarrow> 'w line_writer \<Rightarrow> borrowed_payload_options \<Rightarrow>
   header_pattern option \<Rightarrow> 'w line_writer" where
  "write_payload_envelope write_str writer opts custom =
     (let writer1 =
        (case b_source_root opts of
           None \<Rightarrow> writer
         | Some root \<Rightarrow>
             if root = [] then writer
             else
               (let meta = SOURCE_ROOT_MARKER @ root in
                if find_header_path meta custom = None then write_line write_str writer meta
                else writer)) in
      if b_include_empty_wrappers opts \<or> b_pre_text opts \<noteq> []
      then write_escaped write_str writer1 (b_pre_text opts) custom
      else writer1)"

definition payload_body :: "payload_file \<Rightarrow> string" where
  "payload_body file =
     (case file_skipped_reason file of
        Some reason \<Rightarrow>
          if reason \<noteq> [] then ''// File skipped: '' @ reason
          else (case file_content file of Some c \<Rightarrow> c | None \<Rightarrow> [])
      | None \<Rightarrow> (case file_content file of Some c \<Rightarrow> c | None \<Rightarrow> []))"

definition write_payload_file ::
  "('w \<Rightarrow> string \<Rightarrow> 'w) \<Rightarrow> 'w line_writer \<Rightarrow> payload_file \<Rightarrow> string \<Rightarrow> bool \<Rightarrow>
   header_pattern option \<Rightarrow> 'w line_writer" where
  "write_payload_file write_str writer file header_format add_extra_line_between_files custom =
     (let writer1 = write_line write_str writer
                      (format_header header_format (file_path file) (file_change_type file));
          writer2 = write_escaped write_str writer1 (payload_body file) custom in
      if add_extra_line_between_files then write_line write_str writer2 [] else writer2)"

definition write_payload_footer ::
  "('w \<Rightarrow> string \<Rightarrow> 'w) \<Rightarrow> 'w line_writer \<Rightarrow> borrowed_payload_options \<Rightarrow>
   header_pattern option \<Rightarrow> 'w line_writer" where
  "write_payload_footer write_str writer opts custom =
     (if b_include_empty_wrappers opts \<or> b_post_text opts \<noteq> []
      then
        (let writer1 =
           (if b_post_text opts \<noteq> [] \<and> find_header_path POST_TEXT_MARKER custom = None
            then write_line write_str writer POST_TEXT_MARKER else writer) in
         write_escaped write_str writer1 (b_post_text opts) custom)
      else writer)"

definition write_payload_borrowed ::
  "('w \<Rightarrow> string \<Rightarrow> 'w) \<Rightarrow> 'w \<Rightarrow> borrowed_payload_options \<Rightarrow> 'w" where
  "write_payload_borrowed write_str w opts =
     (let custom = header_pattern_new (b_header_format opts);
          writer1 = write_payload_envelope write_str (line_writer_new w) opts custom;
          writer2 = foldl (\<lambda>writer file. write_payload_file write_str writer file
                        (b_header_format opts) (b_add_extra_line_between_files opts) custom)
                      writer1 (b_files opts);
          writer3 = write_payload_footer write_str writer2 opts custom in
      sink writer3)"

text \<open>The \<open>fmt::Write\<close> of \<open>String\<close> and of \<open>CountingWriter\<close>.\<close>

definition string_write_str :: "string \<Rightarrow> string \<Rightarrow> string" where
  "string_write_str w s = w @ s"

definition counting_write_str :: "nat \<Rightarrow> string \<Rightarrow> nat" where
  "counting_write_str count s = count + length s"

definition build_payload_internal :: "build_payload_options \<Rightarrow> bool \<Rightarrow> string" where
  "build_payload_internal options include_empty_wrappers =
     write_payload_borrowed string_write_str []
       \<lparr>b_header_format = opt_header_format options,
        b_pre_text = opt_pre_text options,
        b_post_text = opt_post_text options,
        b_add_extra_line_between_files = opt_add_extra_line_between_files options,
        b_source_root = opt_source_root options,
        b_files = opt_files options,
        b_include_empty_wrappers = include_empty_wrappers\<rparr>"

definition build_payload :: "build_payload_options \<Rightarrow> string" where
  "build_payload options = build_payload_internal options True"

definition build_git_payload :: "build_payload_options \<Rightarrow> string" where
  "build_git_payload options = build_payload_internal options False"

section \<open>Parsing a payload\<close>

definition blank :: "string \<Rightarrow> bool" where
  "blank l = (ascii_trim l = [])"

text \<open>The slice between the first and the last line that is not blank.\<close>

definition join_content :: "string list \<Rightarrow> string" where
  "join_content lines = join [nl] (trim_matches blank lines)"

record parse_state =
  ps_entries :: "parsed_entry list"
  ps_current :: "(string \<times> change_type set) option"
  ps_body :: "string list"

definition flush :: "parse_state \<Rightarrow> parse_state" where
  "flush st =
     (case ps_current st of
        Some (path, change_types) \<Rightarrow>
          \<lparr>ps_entries = ps_entries st @
             [\<lparr>entry_path = path,
               entry_content = unescape_content (join_content (ps_body st)),
               entry_change_types = change_types\<rparr>],
           ps_current = None, ps_body = []\<rparr>
      | None \<Rightarrow> st\<lparr>ps_body := []\<rparr>)"

definition parse_line :: "header_pattern option \<Rightarrow> parse_state \<Rightarrow> string \<Rightarrow> parse_state" where
  "parse_line custom st line =
     (let raw_path = find_header_path line custom in
      if raw_path = None \<and> line = POST_TEXT_MARKER then flush st
      else (case raw_path of
          Some raw \<Rightarrow>
            (flush st)\<lparr>ps_current := Some (strip_leading_labels raw, extract_leading_labels raw)\<rparr>
        | None \<Rightarrow>
            if ps_current st \<noteq> None then st\<lparr>ps_body := ps_body st @ [line]\<rparr> else st))"

text \<open>\<open>split(/\r?\n/)\<close>: a \<open>\r\<close> goes only before a \<open>\n\<close>, so the last piece keeps its own.\<close>

definition payload_lines :: "string \<Rightarrow> string list" where
  "payload_lines content =
     (let lines = split_char nl content in map drop_cr (butlast lines) @ [last lines])"

definition parse_clipboard :: "string \<Rightarrow> string \<Rightarrow> parsed_entry list" where
  "parse_clipboard content header_format =
     (let custom = header_pattern_new header_format;
          lines = payload_lines content;
          lines1 = (if starts_with SOURCE_ROOT_MARKER (hd lines) then tl lines else lines) in
      ps_entries (flush (foldl (parse_line custom)
        \<lparr>ps_entries = [], ps_current = None, ps_body = []\<rparr> lines1)))"

end
