(* ===== verification/Format_Correct.thy ===== *)
theory Format_Correct
  imports Format
begin

text \<open>
  Correctness of the wire format: what a payload consists of whatever sink it is written to,
  that escaping is undone exactly, and that parsing a built payload gives the files back.
\<close>

section \<open>The lines of a payload, independent of the sink\<close>

definition escape_line :: "header_pattern option \<Rightarrow> string \<Rightarrow> string" where
  "escape_line custom line = (if needs_escape line custom then ESCAPE_MARKER @ line else line)"

definition escape_text :: "header_pattern option \<Rightarrow> string \<Rightarrow> string" where
  "escape_text custom text = join [nl] (map (escape_line custom) (split_char nl text))"

definition envelope_items :: "borrowed_payload_options \<Rightarrow> header_pattern option \<Rightarrow> string list" where
  "envelope_items opts custom =
     (case b_source_root opts of
        None \<Rightarrow> []
      | Some root \<Rightarrow>
          if root \<noteq> [] \<and> find_header_path (SOURCE_ROOT_MARKER @ root) custom = None
          then [SOURCE_ROOT_MARKER @ root] else []) @
     (if b_include_empty_wrappers opts \<or> b_pre_text opts \<noteq> []
      then [escape_text custom (b_pre_text opts)] else [])"

definition file_items :: "string \<Rightarrow> bool \<Rightarrow> header_pattern option \<Rightarrow> payload_file \<Rightarrow> string list" where
  "file_items header_format extra custom file =
     [format_header header_format (file_path file) (file_change_type file),
      escape_text custom (payload_body file)] @ (if extra then [[]] else [])"

definition footer_items :: "borrowed_payload_options \<Rightarrow> header_pattern option \<Rightarrow> string list" where
  "footer_items opts custom =
     (if b_include_empty_wrappers opts \<or> b_post_text opts \<noteq> []
      then
        (if b_post_text opts \<noteq> [] \<and> find_header_path POST_TEXT_MARKER custom = None
         then [POST_TEXT_MARKER] else []) @ [escape_text custom (b_post_text opts)]
      else [])"

definition payload_items :: "borrowed_payload_options \<Rightarrow> string list" where
  "payload_items opts =
     (let custom = header_pattern_new (b_header_format opts) in
      envelope_items opts custom @
      concat (map (file_items (b_header_format opts) (b_add_extra_line_between_files opts) custom)
        (b_files opts)) @
      footer_items opts custom)"

text \<open>
  The contract of \<open>fmt::Write\<close> the writers rely on: the sink is a view of the text written so
  far, and writing appends to it.
\<close>

locale fmt_sink =
  fixes write_str :: "'w \<Rightarrow> string \<Rightarrow> 'w"
    and view :: "string \<Rightarrow> 'w"
  assumes write_view: "write_str (view s) t = view (s @ t)"
begin

definition writer_at :: "string list \<Rightarrow> 'w line_writer" where
  "writer_at items = \<lparr>sink = view (join [nl] items), has_written_line = (items \<noteq> [])\<rparr>"

lemma join_snoc: "join [nl] (items @ [x]) = (if items = [] then x else join [nl] items @ [nl] @ x)"
  by (simp add: join_append)

lemma write_line_at: "write_line write_str (writer_at items) line = writer_at (items @ [line])"
  by (auto simp: write_line_def writer_at_def Let_def write_view join_snoc)

lemma write_escaped_line_at:
  "write_escaped_line write_str custom (view s) line = view (s @ escape_line custom line)"
  by (simp add: write_escaped_line_def escape_line_def Let_def write_view)

lemma write_rest:
  "foldl (\<lambda>w line. write_escaped_line write_str custom (write_str w [nl]) line) (view s) rest =
   view (s @ concat (map (\<lambda>line. nl # escape_line custom line) rest))"
  by (induction rest arbitrary: s) (simp_all add: write_view write_escaped_line_at)

lemma join_nl_Cons: "join [nl] (x # xs) = x @ concat (map (\<lambda>y. nl # y) xs)"
  by (induction xs arbitrary: x) simp_all

lemma write_escaped_content_at:
  "write_escaped_content write_str (view s) text custom = view (s @ escape_text custom text)"
  by (auto simp: write_escaped_content_def escape_text_def write_escaped_line_at write_rest
      join_nl_Cons comp_def split: list.split)

lemma write_escaped_at:
  "write_escaped write_str (writer_at items) text custom =
   writer_at (items @ [escape_text custom text])"
  by (auto simp: write_escaped_def writer_at_def Let_def write_view write_escaped_content_at
      join_snoc)

lemma write_envelope_at:
  "write_payload_envelope write_str (writer_at items) opts custom =
   writer_at (items @ envelope_items opts custom)"
  by (auto simp: write_payload_envelope_def envelope_items_def Let_def write_line_at
      write_escaped_at split: option.split)

lemma write_file_at:
  "write_payload_file write_str (writer_at items) file header_format extra custom =
   writer_at (items @ file_items header_format extra custom file)"
  by (simp add: write_payload_file_def file_items_def Let_def write_line_at write_escaped_at)

lemma write_files_at:
  "foldl (\<lambda>writer file. write_payload_file write_str writer file header_format extra custom)
     (writer_at items) files =
   writer_at (items @ concat (map (file_items header_format extra custom) files))"
  by (induction files arbitrary: items) (simp_all add: write_file_at)

lemma write_footer_at:
  "write_payload_footer write_str (writer_at items) opts custom =
   writer_at (items @ footer_items opts custom)"
  by (simp add: write_payload_footer_def footer_items_def Let_def write_line_at write_escaped_at)

lemma write_payload: "write_payload_borrowed write_str (view []) opts = view (join [nl] (payload_items opts))"
proof -
  have new: "line_writer_new (view []) = writer_at []"
    by (simp add: line_writer_new_def writer_at_def)
  show ?thesis
    by (simp add: write_payload_borrowed_def Let_def new write_envelope_at write_files_at
        write_footer_at payload_items_def) (simp add: writer_at_def)
qed

end

interpretation string_sink: fmt_sink string_write_str "\<lambda>s. s"
  by unfold_locales (simp add: string_write_str_def)

interpretation counting_sink: fmt_sink counting_write_str length
  by unfold_locales (simp add: counting_write_str_def)

lemma build_payload_items:
  "build_payload_internal options wrappers =
   join [nl] (payload_items
     \<lparr>b_header_format = opt_header_format options, b_pre_text = opt_pre_text options,
      b_post_text = opt_post_text options,
      b_add_extra_line_between_files = opt_add_extra_line_between_files options,
      b_source_root = opt_source_root options, b_files = opt_files options,
      b_include_empty_wrappers = wrappers\<rparr>)"
  by (simp add: build_payload_internal_def string_sink.write_payload)

text \<open>
  C1. The size of a payload can be computed without building it: writing to the
  \<open>CountingWriter\<close> counts exactly the bytes that writing to a \<open>String\<close> produces.
\<close>

theorem counting_writer_exact:
  "write_payload_borrowed counting_write_str 0 opts =
   length (write_payload_borrowed string_write_str [] opts)"
  using counting_sink.write_payload [of opts] string_sink.write_payload [of opts] by simp

section \<open>Escaping is undone line by line\<close>

text \<open>A codec on lines lifts to texts when it creates no line break.\<close>

locale line_codec =
  fixes enc dec :: "string \<Rightarrow> string"
  assumes dec_enc: "dec (enc l) = l"
    and enc_line: "nl \<notin> set l \<Longrightarrow> nl \<notin> set (enc l)"
begin

lemma split_enc: "split_char nl (join [nl] (map enc (split_char nl t))) = map enc (split_char nl t)"
  by (rule split_char_join) (auto dest: split_char_pieces enc_line)

lemma text_roundtrip:
  "join [nl] (map dec (split_char nl (join [nl] (map enc (split_char nl t))))) = t"
  by (simp add: split_enc comp_def dec_enc)

end

lemma nl_not_in_marker [simp]: "nl \<notin> set ESCAPE_MARKER"
  by (simp add: ESCAPE_MARKER_def nl_def)

lemma unescape_escape_line [simp]: "unescape_line (escape_line custom l) = l"
proof (cases "needs_escape l custom")
  case True
  then show ?thesis by (simp add: unescape_line_def escape_line_def)
next
  case False
  then have "strip_prefix ESCAPE_MARKER l = None"
    by (simp add: needs_escape_def starts_with_def split: if_splits)
  with False show ?thesis by (simp add: unescape_line_def escape_line_def)
qed

interpretation esc: line_codec "escape_line custom" unescape_line for custom
proof unfold_locales
  show "unescape_line (escape_line custom l) = l" for l
    by (rule unescape_escape_line)
  show "nl \<notin> set l \<Longrightarrow> nl \<notin> set (escape_line custom l)" for l
    by (simp add: escape_line_def)
qed

text \<open>
  C6. Unescaping is the exact inverse of escaping, for every text and every header format: no
  file content is changed by a trip through the escape markers.
\<close>

theorem unescape_escape:
  "unescape_content (write_escaped_content string_write_str [] text custom) = text"
  using string_sink.write_escaped_content_at [of "[]" "text" custom] esc.text_roundtrip
  by (simp add: unescape_content_def escape_text_def)

section \<open>Formats that can be escaped\<close>

text \<open>
  A header format is safe when its first piece has a visible character and neither it nor
  \<open>ESCAPE_MARKER\<close> is a prefix of the other: then no escaped line and no blank line looks like
  a header.  The default format is safe.
\<close>

definition safe_format :: "string \<Rightarrow> bool" where
  "safe_format header_format =
     (let s0 = hd (split_str PLACEHOLDER header_format) in
      \<not> blank s0 \<and> \<not> starts_with s0 ESCAPE_MARKER \<and> \<not> starts_with ESCAPE_MARKER s0)"

lemma ws_star_suffix: "r \<in> set (ws_star s) \<Longrightarrow> \<exists>w. s = w @ r \<and> (\<forall>c\<in>set w. is_ascii_ws c)"
proof (induction s arbitrary: r)
  case Nil
  then show ?case by simp
next
  case (Cons c s)
  show ?case
  proof (cases "is_ascii_ws c \<and> r \<in> set (ws_star s)")
    case True
    then obtain w where "s = w @ r" and "\<forall>x\<in>set w. is_ascii_ws x"
      using Cons.IH by blast
    with True show ?thesis by (intro exI [of _ "c # w"]) simp
  next
    case False
    with Cons.prems have "r = c # s" by (auto split: if_splits)
    then show ?thesis by simp
  qed
qed

lemma file_keyword_visible: "r \<in> set (file_keyword s) \<Longrightarrow> \<not> blank s"
  by (cases s rule: file_keyword.cases)
    (auto simp: blank_def ascii_trim_def trim_matches_Nil_iff is_ascii_ws_def split: if_splits)

lemma comment_marker_suffix: "(m, r) \<in> set (comment_marker s) \<Longrightarrow> \<exists>w. s = w @ r"
  by (auto simp: comment_marker_def strip_prefix_Some Some_strip_prefix split: option.splits dest!: ws_star_suffix)

lemma blank_iff: "blank l \<longleftrightarrow> (\<forall>c\<in>set l. is_ascii_ws c)"
  by (simp add: blank_def ascii_trim_def trim_matches_Nil_iff)

lemma blank_append [simp]: "blank (a @ b) \<longleftrightarrow> blank a \<and> blank b"
  by (auto simp: blank_iff)

lemma generic_file_header_Some:
  assumes "generic_file_header l = Some (m, p)"
  obtains s1 s2 s3 s4 s5 where "s1 \<in> set (ws_star l)" and "(m, s2) \<in> set (comment_marker s1)"
    and "s3 \<in> set (file_keyword s2)" and "s4 \<in> set (ws_star s3)" and "(p, s5) \<in> set (dot_plus_lazy s4)"
proof -
  from assms have "(m, p) \<in> set (generic_matches l)"
    by (auto simp: generic_file_header_def split: list.splits)
  then show thesis
    by (auto simp: generic_matches_def split: if_splits intro: that)
qed

lemma generic_keyword_suffix:
  assumes "generic_file_header l = Some (m, p)"
  shows "\<exists>w s. l = w @ s \<and> file_keyword s \<noteq> []"
proof -
  from assms obtain s1 s2 s3 where "s1 \<in> set (ws_star l)" and "(m, s2) \<in> set (comment_marker s1)"
    and "s3 \<in> set (file_keyword s2)"
    by (rule generic_file_header_Some)
  then show ?thesis
    by (metis append.assoc comment_marker_suffix empty_iff empty_set ws_star_suffix)
qed

lemma generic_blank: "blank l \<Longrightarrow> generic_file_header l = None"
proof (rule ccontr)
  assume "blank l" and "generic_file_header l \<noteq> None"
  then obtain w s where "blank s" and "file_keyword s \<noteq> []"
    using generic_keyword_suffix by fastforce
  then show False
    using file_keyword_visible [of "hd (file_keyword s)" s] by simp
qed

lemma generic_escaped: "generic_file_header (ESCAPE_MARKER @ l) = None"
  by (simp add: generic_file_header_def generic_matches_def ESCAPE_MARKER_def is_ascii_ws_def
      comment_marker_def)

lemma split_str_hd: "header_pattern_new hf = Some hp \<Longrightarrow> \<exists>rest. segments hp = hd (split_str PLACEHOLDER hf) # rest"
  by (cases "split_str PLACEHOLDER hf") (auto simp: header_pattern_new_def Let_def split: if_splits)

lemma header_pattern_find_prefix:
  assumes "header_pattern_new hf = Some hp" and "header_pattern_find hp l = Some p"
  shows "\<exists>r. l = hd (split_str PLACEHOLDER hf) @ r"
proof -
  from split_str_hd [OF assms(1)] obtain rest where "segments hp = hd (split_str PLACEHOLDER hf) # rest" ..
  with assms(2) show ?thesis
    by (auto simp: header_pattern_find_def Let_def strip_prefix_Some
        split: option.splits if_splits list.splits)
qed

lemma find_header_None:
  assumes "generic_file_header l = None"
    and "\<not> starts_with (hd (split_str PLACEHOLDER hf)) l"
  shows "find_header_path l (header_pattern_new hf) = None"
proof (cases "header_pattern_new hf")
  case None
  with assms(1) show ?thesis by (simp add: find_header_path_def)
next
  case (Some hp)
  with assms(2) have "header_pattern_find hp l = None"
    by (cases "header_pattern_find hp l") (auto simp: starts_with_iff dest: header_pattern_find_prefix)
  with assms(1) Some show ?thesis by (simp add: find_header_path_def)
qed

lemma find_header_escaped:
  assumes "safe_format hf"
  shows "find_header_path (ESCAPE_MARKER @ l) (header_pattern_new hf) = None"
proof (intro find_header_None generic_escaped)
  let ?s0 = "hd (split_str PLACEHOLDER hf)"
  show "\<not> starts_with ?s0 (ESCAPE_MARKER @ l)"
  proof
    assume "starts_with ?s0 (ESCAPE_MARKER @ l)"
    then obtain r where "ESCAPE_MARKER @ l = ?s0 @ r" by (auto simp: starts_with_iff)
    then have "(\<exists>u. ESCAPE_MARKER = ?s0 @ u) \<or> (\<exists>u. ?s0 = ESCAPE_MARKER @ u)"
      by (metis append_eq_append_conv2)
    with assms show False by (simp add: safe_format_def Let_def starts_with_iff)
  qed
qed

lemma find_header_blank:
  assumes "safe_format hf" and "blank l"
  shows "find_header_path l (header_pattern_new hf) = None"
  using assms
  by (intro find_header_None generic_blank) (auto simp: safe_format_def Let_def starts_with_iff)

section \<open>Reading the lines back\<close>

definition plain_line :: "header_pattern option \<Rightarrow> string \<Rightarrow> bool" where
  "plain_line custom l = (find_header_path l custom = None \<and> l \<noteq> POST_TEXT_MARKER)"

lemma drop_cr_id: "cr \<notin> set l \<Longrightarrow> drop_cr l = l"
  by (auto simp: drop_cr_def strip_suffix_Some split: option.split)

lemma escape_line_plain:
  assumes "safe_format hf" and "cr \<notin> set l"
  shows "plain_line (header_pattern_new hf) (escape_line (header_pattern_new hf) l)"
proof (cases "needs_escape l (header_pattern_new hf)")
  case True
  moreover have "ESCAPE_MARKER @ l \<noteq> POST_TEXT_MARKER"
    by (simp add: ESCAPE_MARKER_def POST_TEXT_MARKER_def)
  ultimately show ?thesis
    using find_header_escaped [OF assms(1)] by (simp add: plain_line_def escape_line_def)
next
  case False
  with find_header_escaped [OF assms(1), of l]
  have "find_header_path l (header_pattern_new hf) = None" and "l \<noteq> POST_TEXT_MARKER"
    by (simp_all add: needs_escape_def Let_def drop_cr_id [OF assms(2)] split: if_splits)
  with False show ?thesis by (simp add: plain_line_def escape_line_def)
qed

lemma marker_visible [simp]: "\<not> blank ESCAPE_MARKER" "\<not> blank POST_TEXT_MARKER"
  by (simp_all add: blank_iff ESCAPE_MARKER_def POST_TEXT_MARKER_def is_ascii_ws_def)

lemma blank_not_escaped:
  assumes "safe_format hf" and "blank l"
  shows "\<not> needs_escape l (header_pattern_new hf)"
proof -
  have "blank (drop_cr l)"
    using assms(2) by (auto simp: drop_cr_def strip_suffix_Some split: option.split)
  then have "find_header_path (drop_cr l) (header_pattern_new hf) = None"
    by (rule find_header_blank [OF assms(1)])
  moreover have "\<not> starts_with ESCAPE_MARKER l" and "l \<noteq> POST_TEXT_MARKER"
    and "l \<noteq> POST_TEXT_MARKER @ [cr]"
    using assms(2) by (auto simp: starts_with_iff)
  ultimately show ?thesis
    by (simp add: needs_escape_def Let_def strip_suffix_Some)
qed

lemma blank_escape_line:
  assumes "safe_format hf"
  shows "blank (escape_line (header_pattern_new hf) l) = blank l"
  using blank_not_escaped [OF assms, of l] by (auto simp: escape_line_def)

lemma blank_plain: "safe_format hf \<Longrightarrow> blank l \<Longrightarrow> plain_line (header_pattern_new hf) l"
  by (auto simp: plain_line_def find_header_blank)

lemma parse_plain_lines:
  "\<forall>l\<in>set ls. plain_line custom l \<Longrightarrow>
   foldl (parse_line custom) st ls =
     (if ps_current st = None then st else st\<lparr>ps_body := ps_body st @ ls\<rparr>)"
  by (induction ls arbitrary: st) (auto simp: parse_line_def plain_line_def Let_def)

lemma trim_matches_map: "trim_matches P (map f xs) = map f (trim_matches (\<lambda>x. P (f x)) xs)"
  by (simp add: trim_matches_def trim_end_def trim_start_def dropWhile_map rev_map comp_def)

lemma trim_matches_append:
  assumes "\<forall>y\<in>set ys. P y"
  shows "trim_matches P (xs @ ys) = trim_matches P xs"
proof (cases "\<forall>x\<in>set xs. P x")
  case True
  with assms have "trim_matches P (xs @ ys) = []" "trim_matches P xs = []"
    by (auto simp: trim_matches_Nil_iff)
  then show ?thesis by simp
next
  case False
  then have "trim_start P (xs @ ys) = trim_start P xs @ ys"
    by (auto simp: trim_start_def dropWhile_append1)
  moreover have "trim_end P (zs @ ys) = trim_end P zs" for zs
    using assms by (simp add: trim_end_def dropWhile_append)
  ultimately show ?thesis by (simp add: trim_matches_def)
qed

lemma join_content_append: "\<forall>l\<in>set bl. blank l \<Longrightarrow> join_content (ls @ bl) = join_content ls"
  by (simp add: join_content_def trim_matches_append)

lemma set_trim_matches_sub: "x \<in> set (trim_matches P xs) \<Longrightarrow> x \<in> set xs"
  using set_trim_matches by fast

text \<open>What a body of lines becomes: the escapes undone, blank lines at both ends gone.\<close>

lemma content_of_escaped:
  assumes safe: "safe_format hf" and lines: "\<forall>l\<in>set ls. nl \<notin> set l"
  shows "unescape_content (join_content (map (escape_line (header_pattern_new hf)) ls)) =
         join [nl] (trim_matches blank ls)"
proof -
  let ?e = "escape_line (header_pattern_new hf)" and ?z = "trim_matches blank ls"
  have j: "join_content (map ?e ls) = join [nl] (map ?e ?z)"
    by (simp add: join_content_def trim_matches_map blank_escape_line [OF safe])
  show ?thesis
  proof (cases "?z = []")
    case True
    then show ?thesis
      by (simp add: j unescape_content_def unescape_line_def ESCAPE_MARKER_def)
  next
    case False
    have "split_char nl (join [nl] (map ?e ?z)) = map ?e ?z"
      using False lines
      by (intro split_char_join) (auto dest!: set_trim_matches_sub dest: esc.enc_line)
    then show ?thesis
      by (simp add: j unescape_content_def comp_def)
  qed
qed

section \<open>The round trip\<close>

definition header_ok :: "string \<Rightarrow> payload_file \<Rightarrow> bool" where
  "header_ok hf f =
     (let h = format_header hf (file_path f) (file_change_type f) in
      nl \<notin> set h \<and> cr \<notin> set h \<and> \<not> starts_with SOURCE_ROOT_MARKER h \<and>
      (case find_header_path h (header_pattern_new hf) of
         None \<Rightarrow> False
       | Some raw \<Rightarrow>
           strip_leading_labels raw = file_path f \<and>
           extract_leading_labels raw =
             (case file_change_type f of None \<Rightarrow> {} | Some t \<Rightarrow> {t})))"

definition restored_entry :: "payload_file \<Rightarrow> parsed_entry" where
  "restored_entry f =
     \<lparr>entry_path = file_path f,
      entry_content = join [nl] (trim_matches blank (split_char nl (payload_body f))),
      entry_change_types = (case file_change_type f of None \<Rightarrow> {} | Some t \<Rightarrow> {t})\<rparr>"

definition file_lines :: "string \<Rightarrow> bool \<Rightarrow> payload_file \<Rightarrow> string list" where
  "file_lines hf extra f =
     format_header hf (file_path f) (file_change_type f) #
     map (escape_line (header_pattern_new hf)) (split_char nl (payload_body f)) @
     (if extra then [[]] else [])"

lemma blank_Nil [simp]: "blank []"
  by (simp add: blank_iff)

lemma flush_entries:
  "ps_entries (flush st) = ps_entries st @
     (case ps_current st of None \<Rightarrow> [] | Some (path, cts) \<Rightarrow>
        [\<lparr>entry_path = path, entry_content = unescape_content (join_content (ps_body st)),
          entry_change_types = cts\<rparr>])"
  "ps_current (flush st) = None" "ps_body (flush st) = []"
  by (simp_all add: flush_def split: option.split prod.split)

lemma flush_flush [simp]: "flush (flush st) = flush st"
  by (rule parse_state.equality) (simp_all add: flush_entries)

text \<open>One file block, read from any state, closes the entry before it and opens its own.\<close>

lemma parse_file_lines:
  assumes safe: "safe_format hf" and ok: "header_ok hf f" and nocr: "cr \<notin> set (payload_body f)"
  shows "\<exists>st'. foldl (parse_line (header_pattern_new hf)) st (file_lines hf extra f) = st' \<and>
    ps_current st' \<noteq> None \<and>
    ps_entries (flush st') = ps_entries (flush st) @ [restored_entry f]"
proof -
  let ?c = "header_pattern_new hf" and ?ls = "split_char nl (payload_body f)"
  let ?body = "map (escape_line ?c) ?ls @ (if extra then [[]] else [])"
  from ok obtain raw where raw: "find_header_path (format_header hf (file_path f) (file_change_type f)) ?c = Some raw"
    and labels: "strip_leading_labels raw = file_path f"
      "extract_leading_labels raw = (case file_change_type f of None \<Rightarrow> {} | Some t \<Rightarrow> {t})"
    by (auto simp: header_ok_def Let_def split: option.splits)
  let ?st1 = "(flush st)\<lparr>ps_current := Some (file_path f, case file_change_type f of None \<Rightarrow> {} | Some t \<Rightarrow> {t})\<rparr>"
  have "plain_line ?c (escape_line ?c l)" if "l \<in> set ?ls" for l
    using that nocr split_char_subset by (intro escape_line_plain [OF safe]) fast
  then have plain: "\<forall>l\<in>set ?body. plain_line ?c l"
    using blank_plain [OF safe, of "[]"] by auto
  have "foldl (parse_line ?c) st (file_lines hf extra f) = ?st1\<lparr>ps_body := ?body\<rparr>"
    using raw labels plain
    by (simp add: file_lines_def parse_line_def [of _ st] Let_def parse_plain_lines flush_entries
        del: foldl_append)
  moreover have "unescape_content (join_content ?body) = entry_content (restored_entry f)"
    using content_of_escaped [OF safe, of ?ls]
    by (auto simp: join_content_append restored_entry_def dest: split_char_pieces)
  ultimately show ?thesis
    by (simp add: flush_entries restored_entry_def)
qed

lemma parse_all_files:
  assumes safe: "safe_format hf" and ok: "\<forall>f\<in>set fs. header_ok hf f \<and> cr \<notin> set (payload_body f)"
  shows "ps_entries (flush (foldl (parse_line (header_pattern_new hf)) st
           (concat (map (file_lines hf extra) fs)))) =
         ps_entries (flush st) @ map restored_entry fs"
  using ok
proof (induction fs arbitrary: st)
  case Nil
  then show ?case by simp
next
  case (Cons f fs)
  with parse_file_lines [OF safe, of f st extra] show ?case by fastforce
qed

lemma flush_plain_blank:
  assumes "\<forall>l\<in>set ls. plain_line c l \<and> blank l"
  shows "ps_entries (flush (foldl (parse_line c) st ls)) = ps_entries (flush st)"
  using assms parse_plain_lines [of ls c st]
  by (auto simp: flush_entries join_content_append split: option.split)

lemma flush_end_marker:
  assumes "find_header_path POST_TEXT_MARKER c = None" and "\<forall>l\<in>set ls. plain_line c l"
  shows "ps_entries (flush (foldl (parse_line c) st (POST_TEXT_MARKER # ls))) = ps_entries (flush st)"
  using assms parse_plain_lines [of ls c "flush st"]
  by (simp add: parse_line_def Let_def flush_entries)

lemma split_char_join_items:
  "split_char nl (join [nl] items) = (if items = [] then [[]] else concat (map (split_char nl) items))"
proof (induction items)
  case Nil
  then show ?case by simp
next
  case (Cons x xs)
  then show ?case by (cases "xs = []") (simp_all add: join_Cons split_char_append)
qed

lemma set_join_item: "x \<in> set items \<Longrightarrow> set x \<subseteq> set (join sep items)"
  by (induction sep items rule: join.induct) auto

lemma split_escape_text:
  "split_char nl (escape_text c t) = map (escape_line c) (split_char nl t)"
  by (simp add: escape_text_def esc.split_enc)

lemma escape_text_cr: "cr \<notin> set t \<Longrightarrow> cr \<notin> set (escape_text c t)"
proof -
  assume a: "cr \<notin> set t"
  have "cr \<notin> set (escape_line c l)" if "l \<in> set (split_char nl t)" for l
    using a that split_char_subset [OF that]
    by (auto simp: escape_line_def ESCAPE_MARKER_def cr_def)
  then show ?thesis
    using set_join [of "[nl]" "map (escape_line c) (split_char nl t)"]
    by (auto simp: escape_text_def cr_def nl_def)
qed

lemma escape_text_plain:
  assumes "safe_format hf" and "cr \<notin> set t" and "l \<in> set (split_char nl (escape_text (header_pattern_new hf) t))"
  shows "plain_line (header_pattern_new hf) l"
  using assms split_char_subset [of _ nl t]
  by (auto simp: split_escape_text intro!: escape_line_plain)

lemma payload_lines_no_cr: "cr \<notin> set s \<Longrightarrow> payload_lines s = split_char nl s"
proof -
  assume a: "cr \<notin> set s"
  have "map drop_cr (butlast (split_char nl s)) = butlast (split_char nl s)"
    by (rule map_idI) (use a split_char_subset in \<open>fast dest: in_set_butlastD intro: drop_cr_id\<close>)
  then show ?thesis by (simp add: payload_lines_def Let_def)
qed

lemma envelope_plain:
  assumes safe: "safe_format (b_header_format opts)"
    and cr: "cr \<notin> set (b_pre_text opts)"
    and root: "\<forall>r. b_source_root opts = Some r \<longrightarrow> nl \<notin> set r"
    and l: "l \<in> set (concat (map (split_char nl)
      (envelope_items opts (header_pattern_new (b_header_format opts)))))"
  shows "plain_line (header_pattern_new (b_header_format opts)) l"
proof -
  let ?c = "header_pattern_new (b_header_format opts)"
  have meta: "split_char nl (SOURCE_ROOT_MARKER @ r) = [SOURCE_ROOT_MARKER @ r]"
    if "b_source_root opts = Some r" for r
    using root that by (intro split_char_free) (simp add: SOURCE_ROOT_MARKER_def nl_def)
  have marker: "SOURCE_ROOT_MARKER @ r \<noteq> POST_TEXT_MARKER" for r
    by (simp add: SOURCE_ROOT_MARKER_def POST_TEXT_MARKER_def)
  from l obtain x where x: "x \<in> set (envelope_items opts ?c)" "l \<in> set (split_char nl x)"
    by auto
  then have "(\<exists>r. b_source_root opts = Some r \<and> x = SOURCE_ROOT_MARKER @ r \<and>
      find_header_path (SOURCE_ROOT_MARKER @ r) ?c = None) \<or> x = escape_text ?c (b_pre_text opts)"
    by (auto simp: envelope_items_def split: option.splits if_splits)
  then show ?thesis
  proof
    assume "\<exists>r. b_source_root opts = Some r \<and> x = SOURCE_ROOT_MARKER @ r \<and>
      find_header_path (SOURCE_ROOT_MARKER @ r) ?c = None"
    with x meta marker show ?thesis by (auto simp: plain_line_def marker [symmetric])
  next
    assume e: "x = escape_text ?c (b_pre_text opts)"
    with cr x show ?thesis by (blast intro: escape_text_plain [OF safe])
  qed
qed

lemma footer_effect:
  assumes safe: "safe_format (b_header_format opts)"
    and cr: "cr \<notin> set (b_post_text opts)"
    and post: "b_post_text opts = [] \<or>
      find_header_path POST_TEXT_MARKER (header_pattern_new (b_header_format opts)) = None"
  shows "ps_entries (flush (foldl (parse_line (header_pattern_new (b_header_format opts))) st
      (concat (map (split_char nl) (footer_items opts (header_pattern_new (b_header_format opts))))))) =
    ps_entries (flush st)"
proof (cases "b_post_text opts = []")
  case True
  have "escape_text c [] = []" if "c = header_pattern_new (b_header_format opts)" for c
    using that blank_not_escaped [OF safe, of "[]"] by (simp add: escape_text_def escape_line_def)
  then show ?thesis
    using True flush_plain_blank [of "[[]]" "header_pattern_new (b_header_format opts)" st]
      blank_plain [OF safe, of "[]"]
    by (simp add: footer_items_def)
next
  case False
  with post have none: "find_header_path POST_TEXT_MARKER (header_pattern_new (b_header_format opts)) = None"
    by simp
  have "nl \<notin> set POST_TEXT_MARKER" by (simp add: POST_TEXT_MARKER_def nl_def)
  then show ?thesis
    using False none cr flush_end_marker [OF none] escape_text_plain [OF safe]
    by (simp add: footer_items_def split_char_free)
qed

lemma file_items_lines:
  assumes "header_ok hf f" and "safe_format hf"
  shows "concat (map (split_char nl) (file_items hf extra (header_pattern_new hf) f)) = file_lines hf extra f"
  using assms
  by (auto simp: file_items_def file_lines_def header_ok_def Let_def split_char_free split_escape_text)

lemma parse_lines_drop_root:
  assumes "\<forall>l\<in>set es. plain_line c l" and "es = [] \<Longrightarrow> \<not> starts_with SOURCE_ROOT_MARKER (hd (es @ ls))"
    and "es @ ls \<noteq> []"
  shows "foldl (parse_line c) \<lparr>ps_entries = [], ps_current = None, ps_body = []\<rparr>
      (if starts_with SOURCE_ROOT_MARKER (hd (es @ ls)) then tl (es @ ls) else es @ ls) =
    foldl (parse_line c) \<lparr>ps_entries = [], ps_current = None, ps_body = []\<rparr> ls"
  using assms parse_plain_lines [of es c "\<lparr>ps_entries = [], ps_current = None, ps_body = []\<rparr>"]
    parse_plain_lines [of "tl es" c "\<lparr>ps_entries = [], ps_current = None, ps_body = []\<rparr>"]
  by (cases es) auto

lemma not_root_marker [simp]: "\<not> starts_with SOURCE_ROOT_MARKER POST_TEXT_MARKER" "\<not> starts_with SOURCE_ROOT_MARKER []"
  by (simp_all add: starts_with_def SOURCE_ROOT_MARKER_def POST_TEXT_MARKER_def)

lemma header_ok_cr:
  "header_ok hf f \<Longrightarrow> cr \<notin> set (format_header hf (file_path f) (file_change_type f))"
  by (simp add: header_ok_def Let_def)

lemma items_no_cr:
  assumes x: "x \<in> set (payload_items opts)"
    and files: "\<forall>f\<in>set (b_files opts). header_ok (b_header_format opts) f \<and> cr \<notin> set (payload_body f)"
    and pre: "cr \<notin> set (b_pre_text opts)" and post: "cr \<notin> set (b_post_text opts)"
    and root: "\<forall>r. b_source_root opts = Some r \<longrightarrow> cr \<notin> set r"
  shows "cr \<notin> set x"
proof -
  let ?c = "header_pattern_new (b_header_format opts)"
  have markers: "cr \<notin> set SOURCE_ROOT_MARKER" "cr \<notin> set POST_TEXT_MARKER"
    by (simp_all add: SOURCE_ROOT_MARKER_def POST_TEXT_MARKER_def cr_def)
  from x consider "x \<in> set (envelope_items opts ?c)" | "x \<in> set (footer_items opts ?c)"
    | f where "f \<in> set (b_files opts)"
      and "x \<in> set (file_items (b_header_format opts) (b_add_extra_line_between_files opts) ?c f)"
    by (auto simp: payload_items_def Let_def)
  then show ?thesis
  proof cases
    case 1
    with root markers escape_text_cr [OF pre, of ?c] show ?thesis
      by (auto simp: envelope_items_def split: option.splits if_splits)
  next
    case 2
    with markers escape_text_cr [OF post, of ?c] show ?thesis
      by (auto simp: footer_items_def split: if_splits)
  next
    case 3
    with files header_ok_cr escape_text_cr [of "payload_body f" ?c] show ?thesis
      by (auto simp: file_items_def split: if_splits)
  qed
qed

lemma hd_footer:
  assumes "safe_format (b_header_format opts)"
    and "footer_items opts (header_pattern_new (b_header_format opts)) \<noteq> []"
    and "b_post_text opts = [] \<or>
      find_header_path POST_TEXT_MARKER (header_pattern_new (b_header_format opts)) = None"
  shows "\<not> starts_with SOURCE_ROOT_MARKER
    (hd (concat (map (split_char nl) (footer_items opts (header_pattern_new (b_header_format opts))))))"
proof (cases "b_post_text opts = []")
  case True
  then have "footer_items opts (header_pattern_new (b_header_format opts)) =
      [escape_text (header_pattern_new (b_header_format opts)) []]"
    using assms(2) by (simp add: footer_items_def split: if_splits)
  then show ?thesis
    using blank_not_escaped [OF assms(1), of "[]"] by (simp add: split_escape_text escape_line_def)
next
  case False
  have "nl \<notin> set POST_TEXT_MARKER" by (simp add: POST_TEXT_MARKER_def nl_def)
  with False assms(3) show ?thesis by (simp add: footer_items_def split_char_free)
qed


text \<open>A payload of two files, one of them holding a line that looks like a header.\<close>

definition sample_options :: build_payload_options where
  "sample_options =
     \<lparr>opt_header_format = ''// file: $FILE_PATH'', opt_pre_text = ''// file: a.ts'',
      opt_post_text = ''bye'', opt_add_extra_line_between_files = True,
      opt_files =
        [\<lparr>file_path = ''src/a.ts'', file_content = Some (''x'' @ [nl] @ ''// file: b.ts''),
          file_change_type = Some Moved, file_skipped_reason = None\<rparr>,
         \<lparr>file_path = ''c'', file_content = None, file_change_type = None,
          file_skipped_reason = Some ''size''\<rparr>],
      opt_source_root = Some ''proj''\<rparr>"

lemma sample_safe: "safe_format ''// file: $FILE_PATH''"
  by code_simp



section \<open>The default format\<close>

definition DEFAULT_HEADER_FORMAT :: string where
  "DEFAULT_HEADER_FORMAT = ''// file: $FILE_PATH''"

definition ordinary_path :: "string \<Rightarrow> bool" where
  "ordinary_path path \<longleftrightarrow>
     path \<noteq> [] \<and> nl \<notin> set path \<and> cr \<notin> set path \<and> \<not> has_js_terminator path \<and>
     \<not> is_ascii_ws (hd path) \<and> \<not> is_ascii_ws (last path) \<and> label_at path = None"

fun label_prefix :: "change_type option \<Rightarrow> string" where
  "label_prefix None = []"
| "label_prefix (Some t) = ''['' @ as_str t @ ''] ''"

lemma label_prefix_chars:
  "c \<in> set (label_prefix ct) \<Longrightarrow> bval c < 128 \<and> c \<noteq> nl \<and> c \<noteq> cr"
proof (cases ct)
  case (Some t)
  assume "c \<in> set (label_prefix ct)"
  with Some show ?thesis by (cases t) (auto simp: bval_def nl_def cr_def)
qed simp

lemma default_format_header:
  "format_header DEFAULT_HEADER_FORMAT path ct =
   ''// file: '' @ label_prefix ct @ path"
proof -
  have "split_str PLACEHOLDER DEFAULT_HEADER_FORMAT = [''// file: '', []]" by code_simp
  then show ?thesis by (simp add: format_header_def Let_def replace_str_def split: option.split)
qed

lemma default_header_pattern:
  "header_pattern_new DEFAULT_HEADER_FORMAT = Some \<lparr>segments = [''// file: '', []]\<rparr>"
  by code_simp

lemma chars_append_ascii: "\<forall>c\<in>set a. bval c < 128 \<Longrightarrow> chars (a @ s) = map (\<lambda>c. [c]) a @ chars s"
  by (induction a) (simp_all add: chars_ascii_Cons)

lemma has_js_terminator_label:
  "has_js_terminator (label_prefix ct @ path) =
   has_js_terminator path"
proof -
  have "[c] \<notin> set js_line_terminators"
    if "c \<in> set (label_prefix ct)" for c
    using label_prefix_chars [OF that] by (simp add: js_line_terminators_def nl_def cr_def)
  then show ?thesis
    by (auto simp: has_js_terminator_def chars_append_ascii label_prefix_chars list_ex_iff)
qed

lemma default_header_find:
  assumes "path \<noteq> []" and "\<not> has_js_terminator path"
  shows "find_header_path (format_header DEFAULT_HEADER_FORMAT path ct) (header_pattern_new DEFAULT_HEADER_FORMAT) =
    Some (label_prefix ct @ path)"
proof -
  let ?p = "label_prefix ct @ path"
  have "header_pattern_find \<lparr>segments = [''// file: '', []]\<rparr> (''// file: '' @ ?p) = Some ?p"
    using assms unfolding header_pattern_find_def Let_def
    by (simp del: append.simps add: get_prefix_def is_char_boundary_def has_js_terminator_label)
  then show ?thesis
    by (simp add: find_header_path_def default_header_pattern default_format_header del: append.simps)
qed

lemma label_at_label: "label_at (''['' @ as_str t @ '']'' @ s) = Some (as_str t, s)"
  by (cases t) (simp_all add: label_at_def)

lemma strip_default_label:
  assumes "ordinary_path path"
  shows "drop_leading_labels (label_prefix ct @ path) = path"
proof -
  from assms have p: "drop_leading_labels path = path"
    by (subst drop_leading_labels.simps) (simp add: ordinary_path_def)
  show ?thesis
  proof (cases ct)
    case None
    with p show ?thesis by simp
  next
    case (Some t)
    have "label_at (''['' @ as_str t @ ''] '' @ path) = Some (as_str t, '' '' @ path)"
      using label_at_label [of t "'' '' @ path"] by simp
    moreover have "dropWhile is_ascii_ws ('' '' @ path) = path"
      using assms by (cases path) (auto simp: ordinary_path_def is_ascii_ws_def)
    ultimately show ?thesis
      using p Some by (subst drop_leading_labels.simps) simp
  qed
qed

lemma label_prefix_captures: "label_captures (''['' @ as_str t @ ''] '') = [as_str t]"
proof (cases t)
  case New
  show ?thesis unfolding New by code_simp
next
  case Modified
  show ?thesis unfolding Modified by code_simp
next
  case Deleted
  show ?thesis unfolding Deleted by code_simp
next
  case Moved
  show ?thesis unfolding Moved by code_simp
qed

lemma take_front: "take (length (l @ p) - length p) (l @ p) = l"
  by simp

lemma extract_default_label:
  assumes "ordinary_path path"
  shows "extract_leading_labels (label_prefix ct @ path) =
    (case ct of None \<Rightarrow> {} | Some t \<Rightarrow> {t})"
proof (cases ct)
  case None
  with assms show ?thesis by (simp add: extract_leading_labels_def ordinary_path_def)
next
  case (Some t)
  let ?l = "''['' @ as_str t @ ''] ''"
  have "drop_leading_labels (?l @ path) = path"
    using strip_default_label [OF assms, of ct] Some by simp
  then have "take (length (?l @ path) - length (drop_leading_labels (?l @ path))) (?l @ path) = ?l"
    by (simp only: take_front)
  moreover have "label_at (?l @ path) \<noteq> None"
    using label_at_label [of t "'' '' @ path"] by simp
  moreover have "from_label (as_str t) = Some t" by (cases t) (simp_all add: from_label_def)
  ultimately have "extract_leading_labels (?l @ path) = {t}"
    unfolding extract_leading_labels_def label_prefix_captures [symmetric]
    by (simp add: label_prefix_captures List.map_filter_simps del: append.simps)
  with Some show ?thesis by simp
qed

text \<open>
  With the default header format every ordinary path (not empty, no line terminator, no
  ASCII white space at its ends, no leading change label) is written as a header that the
  parser recognises as exactly that path and change type.
\<close>

theorem default_header_recognised:
  assumes "ordinary_path (file_path f)"
  shows "header_ok DEFAULT_HEADER_FORMAT f"
proof -
  let ?ct = "file_change_type f" and ?p = "file_path f"
  let ?l = "label_prefix ?ct"
  have label_lines: "nl \<notin> set ?l" "cr \<notin> set ?l"
    using label_prefix_chars by blast+
  have strip: "strip_leading_labels (?l @ ?p) = ?p"
    using assms strip_default_label [OF assms, of ?ct]
    by (simp add: strip_leading_labels_def ascii_trim_def trim_matches_id ordinary_path_def)
  have root: "\<not> starts_with SOURCE_ROOT_MARKER (''// file: '' @ s)" for s
    by (simp add: starts_with_def SOURCE_ROOT_MARKER_def)
  have find: "find_header_path (format_header DEFAULT_HEADER_FORMAT ?p ?ct)
      (header_pattern_new DEFAULT_HEADER_FORMAT) = Some (?l @ ?p)"
    using assms by (intro default_header_find) (simp_all add: ordinary_path_def)
  show ?thesis
    using assms label_lines root [of "?l @ ?p"] find strip extract_default_label [OF assms]
    by (simp add: header_ok_def Let_def default_format_header ordinary_path_def nl_def cr_def)
qed

theorem default_header_recognised_witness:
  "ordinary_path ''src/main.rs'' \<and>
   header_ok DEFAULT_HEADER_FORMAT
     \<lparr>file_path = ''src/main.rs'', file_content = None, file_change_type = Some New,
      file_skipped_reason = None\<rparr>"
proof -
  have h: "ordinary_path (file_path \<lparr>file_path = ''src/main.rs'', file_content = None,
      file_change_type = Some New, file_skipped_reason = None\<rparr>)"
    by code_simp
  from h default_header_recognised [OF h] show ?thesis by simp
qed
end
