(* ===== verification/Float64.thy ===== *)
theory Float64
  imports Complex_Main Base
begin

text \<open>
  Rust's \<open>f64\<close>: a finite value is the rational number it denotes, infinities and NaN are one
  value.  Arithmetic on finite values is exact here: rounding is outside the model.
\<close>

datatype f64 = Fin rat | Not_Finite

fun f64_is_finite :: "f64 \<Rightarrow> bool" where
  "f64_is_finite (Fin _) = True"
| "f64_is_finite Not_Finite = False"

fun f64_positive :: "f64 \<Rightarrow> bool" where
  "f64_positive (Fin q) = (0 < q)"
| "f64_positive Not_Finite = False"

text \<open>The number of a value already checked to be finite.\<close>

fun f64_value :: "f64 \<Rightarrow> rat" where
  "f64_value (Fin q) = q"
| "f64_value Not_Finite = 0"

end
