(* ===== verification/Settings.thy ===== *)
theory Settings
  imports Float64 Utf8
begin

text \<open>
  User settings (\<open>crates/core/src/settings.rs\<close>).  \<open>serde_json::Value\<close> is the datatype
  \<open>json\<close>; the derived \<open>Deserialize\<close> of a filter rule is serde's code and a parameter of
  \<open>normalize\<close>.  The two limits are \<open>f64\<close>: a finite value is the rational it denotes.
\<close>

section \<open>Data\<close>

datatype filter_type = Path_Filter | Pattern_Filter

datatype filter_action = Include | Exclude

record filter_rule =
  rule_kind :: filter_type
  rule_action :: filter_action
  rule_value :: string
  rule_enabled :: bool

text \<open>\<open>n as f64\<close> for an unsigned integer: 53 significant bits, ties to even.\<close>

fun bit_length :: "nat \<Rightarrow> nat" where
  "bit_length n = (if n = 0 then 0 else Suc (bit_length (n div 2)))"

declare bit_length.simps [simp del]

definition uint_as_f64 :: "nat \<Rightarrow> rat" where
  "uint_as_f64 n =
     (let e = bit_length n - 53; unit = 2 ^ e; q = n div unit; r = n mod unit in
      of_nat ((if 2 * r < unit \<or> (2 * r = unit \<and> even q) then q else Suc q) * unit))"

datatype json =
    JNull
  | JBool bool
  | JNumber f64
  | JString string
  | JArray "json list"
  | JObject "(string \<times> json) list"

text \<open>\<open>Value::get\<close>, \<open>as_str\<close>, \<open>as_bool\<close>, \<open>as_f64\<close>, \<open>as_array\<close>.\<close>

fun json_get :: "json \<Rightarrow> string \<Rightarrow> json option" where
  "json_get (JObject kvs) key = map_of kvs key"
| "json_get _ key = None"

fun as_string :: "json \<Rightarrow> string option" where
  "as_string (JString s) = Some s"
| "as_string _ = None"

fun as_bool :: "json \<Rightarrow> bool option" where
  "as_bool (JBool b) = Some b"
| "as_bool _ = None"

fun as_f64 :: "json \<Rightarrow> f64 option" where
  "as_f64 (JNumber x) = Some x"
| "as_f64 _ = None"

fun as_array :: "json \<Rightarrow> json list option" where
  "as_array (JArray xs) = Some xs"
| "as_array _ = None"

record settings =
  header_format :: string
  pre_text :: string
  post_text :: string
  add_extra_line_between_files :: bool
  set_max_file_count :: bool
  file_count_limit :: f64
  max_file_size_kb :: f64
  show_copy_notification :: bool
  use_filters :: bool
  use_include_filters :: bool
  use_exclude_filters :: bool
  filter_rules :: "filter_rule list"

definition default_settings :: settings where
  "default_settings =
     \<lparr>header_format = ''// file: $FILE_PATH'',
      pre_text = [], post_text = [],
      add_extra_line_between_files = True,
      set_max_file_count = True,
      file_count_limit = Fin 30,
      max_file_size_kb = Fin 500,
      show_copy_notification = True,
      use_filters = False,
      use_include_filters = True,
      use_exclude_filters = True,
      filter_rules = []\<rparr>"

section \<open>Reading settings\<close>

text \<open>The three closures of \<open>normalize\<close>: a slot is replaced only by a value of its own shape.\<close>

definition string_slot :: "json \<Rightarrow> string \<Rightarrow> string \<Rightarrow> string" where
  "string_slot input key slot =
     (case Option.bind (json_get input key) as_string of Some v \<Rightarrow> v | None \<Rightarrow> slot)"

definition boolean_slot :: "json \<Rightarrow> string \<Rightarrow> bool \<Rightarrow> bool" where
  "boolean_slot input key slot =
     (case Option.bind (json_get input key) as_bool of Some v \<Rightarrow> v | None \<Rightarrow> slot)"

definition positive_slot :: "json \<Rightarrow> string \<Rightarrow> f64 \<Rightarrow> f64" where
  "positive_slot input key slot =
     (case Option.bind (json_get input key) as_f64 of
        Some v \<Rightarrow> if f64_is_finite v \<and> f64_positive v then v else slot
      | None \<Rightarrow> slot)"

definition normalize :: "(json \<Rightarrow> filter_rule option) \<Rightarrow> json \<Rightarrow> settings" where
  "normalize from_value input =
     (let s = default_settings in
      \<lparr>header_format = string_slot input ''headerFormat'' (header_format s),
       pre_text = string_slot input ''preText'' (pre_text s),
       post_text = string_slot input ''postText'' (post_text s),
       add_extra_line_between_files =
         boolean_slot input ''addExtraLineBetweenFiles'' (add_extra_line_between_files s),
       set_max_file_count = boolean_slot input ''setMaxFileCount'' (set_max_file_count s),
       file_count_limit = positive_slot input ''fileCountLimit'' (file_count_limit s),
       max_file_size_kb = positive_slot input ''maxFileSizeKB'' (max_file_size_kb s),
       show_copy_notification =
         boolean_slot input ''showCopyNotification'' (show_copy_notification s),
       use_filters = boolean_slot input ''useFilters'' (use_filters s),
       use_include_filters = boolean_slot input ''useIncludeFilters'' (use_include_filters s),
       use_exclude_filters = boolean_slot input ''useExcludeFilters'' (use_exclude_filters s),
       filter_rules =
         (case Option.bind (json_get input ''filterRules'') as_array of
            Some rules \<Rightarrow> List.map_filter from_value rules
          | None \<Rightarrow> filter_rules s)\<rparr>)"

text \<open>What \<open>Serialize\<close> writes (\<open>rename_all = camelCase\<close>, one explicit rename).\<close>

fun json_of_rule :: "filter_rule \<Rightarrow> json" where
  "json_of_rule r = JObject
     [(''type'', JString (case rule_kind r of Path_Filter \<Rightarrow> ''PATH'' | Pattern_Filter \<Rightarrow> ''PATTERN'')),
      (''action'', JString (case rule_action r of Include \<Rightarrow> ''INCLUDE'' | Exclude \<Rightarrow> ''EXCLUDE'')),
      (''value'', JString (rule_value r)),
      (''enabled'', JBool (rule_enabled r))]"

definition json_of_settings :: "settings \<Rightarrow> json" where
  "json_of_settings s = JObject
     [(''headerFormat'', JString (header_format s)),
      (''preText'', JString (pre_text s)),
      (''postText'', JString (post_text s)),
      (''addExtraLineBetweenFiles'', JBool (add_extra_line_between_files s)),
      (''setMaxFileCount'', JBool (set_max_file_count s)),
      (''fileCountLimit'', JNumber (file_count_limit s)),
      (''maxFileSizeKB'', JNumber (max_file_size_kb s)),
      (''showCopyNotification'', JBool (show_copy_notification s)),
      (''useFilters'', JBool (use_filters s)),
      (''useIncludeFilters'', JBool (use_include_filters s)),
      (''useExcludeFilters'', JBool (use_exclude_filters s)),
      (''filterRules'', JArray (map json_of_rule (filter_rules s)))]"

section \<open>Properties\<close>

definition wf_settings :: "settings \<Rightarrow> bool" where
  "wf_settings s \<longleftrightarrow> f64_positive (file_count_limit s) \<and> f64_positive (max_file_size_kb s)"

lemma positive_slot_positive: "f64_positive slot \<Longrightarrow> f64_positive (positive_slot input key slot)"
  by (auto simp: positive_slot_def split: option.split)

lemma wf_normalize [simp]: "wf_settings (normalize from_value input)"
  by (simp add: wf_settings_def normalize_def Let_def positive_slot_positive default_settings_def)

lemma f64_positive_finite: "f64_positive x \<Longrightarrow> f64_is_finite x"
  by (cases x) simp_all

lemma map_filter_inverse: "(\<And>x. f (g x) = Some x) \<Longrightarrow> List.map_filter f (map g xs) = xs"
  by (induction xs) (simp_all add: List.map_filter_simps)


text \<open>A concrete reader of rules for the witness: the object shape only.\<close>

definition sample_from_value :: "json \<Rightarrow> filter_rule option" where
  "sample_from_value v =
     (case (Option.bind (json_get v ''type'') as_string, Option.bind (json_get v ''action'') as_string,
            Option.bind (json_get v ''value'') as_string, Option.bind (json_get v ''enabled'') as_bool) of
        (Some k, Some a, Some x, Some e) \<Rightarrow>
          if (k = ''PATH'' \<or> k = ''PATTERN'') \<and> (a = ''INCLUDE'' \<or> a = ''EXCLUDE'')
          then Some \<lparr>rule_kind = (if k = ''PATH'' then Path_Filter else Pattern_Filter),
                     rule_action = (if a = ''INCLUDE'' then Include else Exclude),
                     rule_value = x, rule_enabled = e\<rparr>
          else None
      | _ \<Rightarrow> None)"

lemma sample_from_value_rule: "sample_from_value (json_of_rule r) = Some r"
  by (cases "rule_kind r"; cases "rule_action r") (simp_all add: sample_from_value_def)


lemma uint_as_f64_exact:
  assumes "bit_length n \<le> 53"
  shows "uint_as_f64 n = of_nat n"
  using assms by (simp add: uint_as_f64_def Let_def)

end
