(* ===== verification/Filters.thy ===== *)
theory Filters
  imports Settings
begin

text \<open>
  Ignore rules (\<open>crates/core/src/filter.rs\<close>).  The \<open>regex\<close> crate is a parameter:
  \<open>rx pattern\<close> is \<open>None\<close> when the pattern does not compile and otherwise the match predicate.
\<close>

section \<open>Paths as the filters see them\<close>

text \<open>JavaScript's trim set: Unicode \<open>White_Space\<close> without U+0085, with U+FEFF.\<close>

definition js_trim_chars :: "string list" where
  "js_trim_chars =
     [[CHR 0x09], [CHR 0x0A], [CHR 0x0B], [CHR 0x0C], [CHR 0x0D], [CHR 0x20],
      [CHR 0xC2, CHR 0xA0], [CHR 0xE1, CHR 0x9A, CHR 0x80],
      [CHR 0xE2, CHR 0x80, CHR 0x80], [CHR 0xE2, CHR 0x80, CHR 0x81],
      [CHR 0xE2, CHR 0x80, CHR 0x82], [CHR 0xE2, CHR 0x80, CHR 0x83],
      [CHR 0xE2, CHR 0x80, CHR 0x84], [CHR 0xE2, CHR 0x80, CHR 0x85],
      [CHR 0xE2, CHR 0x80, CHR 0x86], [CHR 0xE2, CHR 0x80, CHR 0x87],
      [CHR 0xE2, CHR 0x80, CHR 0x88], [CHR 0xE2, CHR 0x80, CHR 0x89],
      [CHR 0xE2, CHR 0x80, CHR 0x8A], [CHR 0xE2, CHR 0x80, CHR 0xA8],
      [CHR 0xE2, CHR 0x80, CHR 0xA9], [CHR 0xE2, CHR 0x80, CHR 0xAF],
      [CHR 0xE2, CHR 0x81, CHR 0x9F], [CHR 0xE3, CHR 0x80, CHR 0x80],
      [CHR 0xEF, CHR 0xBB, CHR 0xBF]]"

definition is_js_trim :: "string \<Rightarrow> bool" where
  "is_js_trim c \<longleftrightarrow> c \<in> set js_trim_chars"

definition normalize_path :: "string \<Rightarrow> string" where
  "normalize_path value =
     trim_matches (\<lambda>c. c = CHR ''/'')
       (concat (trim_matches is_js_trim (chars (collapse_from False value))))"

definition is_same_or_child :: "string \<Rightarrow> string \<Rightarrow> bool" where
  "is_same_or_child candidate parent =
     (if parent = [] then True
      else if candidate = [] then False
      else candidate = parent \<or>
        (case strip_prefix parent candidate of
           Some rest \<Rightarrow> starts_with ''/'' rest
         | None \<Rightarrow> False))"

definition is_slash :: "char \<Rightarrow> bool" where
  "is_slash c \<longleftrightarrow> c = CHR ''/'' \<or> c = CHR 0x5C"

fun is_absolute_path :: "string \<Rightarrow> bool" where
  "is_absolute_path [] = False"
| "is_absolute_path (b0 # b1 # b2 # s) =
     (is_slash b0 \<or> (is_ascii_alphabetic b0 \<and> b1 = CHR '':'' \<and> is_slash b2))"
| "is_absolute_path (b0 # s) = is_slash b0"

definition matches_path :: "string \<Rightarrow> string \<Rightarrow> bool" where
  "matches_path candidate_path rule_path =
     is_same_or_child (normalize_path candidate_path) (normalize_path rule_path)"

definition overlaps_directory :: "string \<Rightarrow> string \<Rightarrow> bool" where
  "overlaps_directory directory_path rule_path =
     (let directory = normalize_path directory_path; rule = normalize_path rule_path in
      if directory = [] then True
      else is_same_or_child directory rule \<or> is_same_or_child rule directory)"

definition file_name :: "string \<Rightarrow> string" where
  "file_name relative_path = last (split_char (CHR ''/'') (normalize_path relative_path))"

section \<open>Rules\<close>

definition JS_DOT :: string where
  "JS_DOT = ''[^'' @ [CHR 0x5C] @ ''n'' @ [CHR 0x5C] @ ''r'' @ [CHR 0x5C] @ ''u{2028}'' @
     [CHR 0x5C] @ ''u{2029}]''"

definition pattern_regex :: "string \<Rightarrow> string" where
  "pattern_regex pattern =
     (if CHR ''*'' \<in> set pattern \<or> CHR ''?'' \<in> set pattern
      then replace_str ''?'' JS_DOT
             (replace_str ''*'' (JS_DOT @ ''*'')
               (replace_str ''.'' [CHR 0x5C, CHR ''.''] pattern))
      else pattern)"

text \<open>\<open>str::contains\<close> with a string.\<close>

definition contains :: "string \<Rightarrow> string \<Rightarrow> bool" where
  "contains s pattern = (pattern = [] \<or> 2 \<le> length (split_str pattern s))"

definition matches_pattern :: "(string \<Rightarrow> (string \<Rightarrow> bool) option) \<Rightarrow> string \<Rightarrow> string \<Rightarrow> bool" where
  "matches_pattern rx name pattern =
     (case rx (''^(?:'' @ pattern_regex pattern @ '')$'') of
        Some is_match \<Rightarrow> is_match name
      | None \<Rightarrow> contains name pattern)"

definition matches_rule ::
  "(string \<Rightarrow> (string \<Rightarrow> bool) option) \<Rightarrow> string \<Rightarrow> filter_rule \<Rightarrow> string option \<Rightarrow> bool" where
  "matches_rule rx relative_path rule absolute_path =
     (if rule_kind rule = Pattern_Filter
      then matches_pattern rx (file_name relative_path) (rule_value rule)
      else
        (case absolute_path of
           Some absolute \<Rightarrow>
             if absolute \<noteq> [] \<and> is_absolute_path (rule_value rule)
             then matches_path absolute (rule_value rule)
             else if is_absolute_path relative_path then False
             else matches_path relative_path (rule_value rule)
         | None \<Rightarrow>
             if is_absolute_path relative_path then False
             else matches_path relative_path (rule_value rule)))"

definition file_matches_filters ::
  "(string \<Rightarrow> (string \<Rightarrow> bool) option) \<Rightarrow> string \<Rightarrow> filter_rule list \<Rightarrow> bool \<Rightarrow> bool \<Rightarrow>
   string option \<Rightarrow> bool" where
  "file_matches_filters rx relative_path rules use_includes use_excludes absolute_path =
     (let enabled = filter rule_enabled rules;
          excludes = filter (\<lambda>r. rule_action r = Exclude) enabled;
          includes = filter (\<lambda>r. rule_action r = Include) enabled in
      if use_excludes \<and>
         list_ex (\<lambda>r. matches_rule rx relative_path r absolute_path) excludes
      then False
      else if use_includes \<and> includes \<noteq> []
      then list_ex (\<lambda>r. matches_rule rx relative_path r absolute_path) includes
      else True)"

definition directory_excluded ::
  "(string \<Rightarrow> (string \<Rightarrow> bool) option) \<Rightarrow> string \<Rightarrow> filter_rule list \<Rightarrow> string option \<Rightarrow> bool" where
  "directory_excluded rx relative_path rules absolute_path =
     list_ex (\<lambda>r. rule_enabled r \<and> rule_action r = Exclude \<and> rule_kind r = Path_Filter \<and>
        matches_rule rx relative_path r absolute_path) rules"

section \<open>Same or child\<close>

lemma is_same_or_child_iff:
  "is_same_or_child c p \<longleftrightarrow> p = [] \<or> c = p \<and> c \<noteq> [] \<or> (\<exists>r. c = p @ CHR ''/'' # r)"
  by (auto simp: is_same_or_child_def starts_with_iff strip_prefix_Some split: option.splits)

text \<open>The relation the filters are built on, as a contract of the hierarchy of paths.\<close>

locale path_hierarchy =
  fixes below :: "'a \<Rightarrow> 'a \<Rightarrow> bool"
  assumes below_refl: "below p p"
    and below_trans: "below a b \<Longrightarrow> below b c \<Longrightarrow> below a c"
begin

text \<open>A rule that catches a directory catches everything below it.\<close>

lemma any_below: "below file dir \<Longrightarrow> \<exists>r\<in>set rules. below dir r \<Longrightarrow> \<exists>r\<in>set rules. below file r"
  by (blast intro: below_trans)

end

interpretation children: path_hierarchy is_same_or_child
proof unfold_locales
  show "is_same_or_child p p" for p
    by (auto simp: is_same_or_child_iff)
  show "is_same_or_child a b \<Longrightarrow> is_same_or_child b c \<Longrightarrow> is_same_or_child a c" for a b c
    by (auto simp: is_same_or_child_iff)
qed

section \<open>Normalized directories and what is below them\<close>

lemma collapse_append:
  "collapse_from b (s @ t) =
     collapse_from b s @
     collapse_from (if s = [] then b else is_slash (last s)) t"
proof (induction s arbitrary: b)
  case Nil
  then show ?case by simp
next
  case (Cons c s)
  show ?case
    by (cases "s = []") (auto simp: Let_def is_slash_def Cons.IH)
qed

lemma collapse_slash_front: "\<exists>r. collapse_from b (CHR ''/'' # t) = (if b then r else CHR ''/'' # r)"
  by simp

lemma trim_end_append:
  "trim_end P (xs @ ys) = (if \<forall>y\<in>set ys. P y then trim_end P xs else xs @ trim_end P ys)"
  by (simp add: trim_end_def dropWhile_append)

lemma trim_matches_below:
  assumes "xs \<noteq> []" and "\<not> P (hd xs)" and "\<not> P (last xs)"
  shows "\<exists>zs us. trim_matches P (xs @ ys) = xs @ zs \<and> ys = zs @ us"
proof -
  have "trim_start P (xs @ ys) = xs @ ys" and "trim_end P xs = xs"
    using assms by (cases xs; simp add: trim_start_def trim_end_id)+
  then show ?thesis
    using trim_end_prefix [of ys P] by (auto simp: trim_matches_def trim_end_append)
qed

lemma trim_matches_fixed:
  assumes "trim_matches P xs = xs" and "xs \<noteq> []"
  shows "\<not> P (hd xs)" "\<not> P (last xs)"
  using assms trim_matches_ends [of P xs] by simp_all

lemma length_collapse: "length (collapse_from b s) \<le> length s"
  by (induction b s rule: collapse_from.induct) (auto simp: Let_def le_SucI)

lemma length_trim_matches: "length (trim_matches P s) \<le> length s"
  by (simp add: trim_matches_def trim_end_def trim_start_def)
    (metis length_dropWhile_le length_rev le_trans)

lemma length_concat_trim: "length (concat (trim_matches P xs)) \<le> length (concat xs)"
proof -
  obtain u v where "xs = u @ trim_matches P xs @ v"
    by (metis trim_end_prefix trim_matches_def trim_start_suffix append.assoc)
  then have "concat xs = concat u @ concat (trim_matches P xs) @ concat v"
    by (metis concat_append)
  then show ?thesis by simp
qed

lemma middle_same_length: "length m = length s \<Longrightarrow> s = u @ m @ v \<Longrightarrow> m = s"
  by simp

text \<open>A normalized path is unchanged by each of the three steps.\<close>

lemma normalize_path_fixed:
  assumes "normalize_path d = d"
  shows "collapse_from False d = d" and "concat (trim_matches is_js_trim (chars d)) = d"
    and "trim_matches (\<lambda>c. c = CHR ''/'') d = d"
proof -
  let ?c = "collapse_from False d"
  let ?t = "concat (trim_matches is_js_trim (chars ?c))"
  have lens: "length ?c \<le> length d" "length ?t \<le> length ?c" "length (normalize_path d) \<le> length ?t"
    using length_collapse length_concat_trim [of is_js_trim "chars ?c"] length_trim_matches
    by (auto simp: normalize_path_def)
  with assms have eqlen: "length ?t = length ?c" "length (normalize_path d) = length ?t" by simp_all
  obtain u v where "chars ?c = u @ trim_matches is_js_trim (chars ?c) @ v"
    by (metis trim_end_prefix trim_matches_def trim_start_suffix append.assoc)
  then have "?c = concat u @ ?t @ concat v"
    by (metis concat_append concat_chars)
  with eqlen(1) have c: "?t = ?c" by (rule middle_same_length)
  obtain x y where "?t = x @ normalize_path d @ y"
    by (metis normalize_path_def trim_end_prefix trim_matches_def trim_start_suffix append.assoc)
  with eqlen(2) have t: "normalize_path d = ?t" by (rule middle_same_length)
  from c t assms show "?c = d" by simp
  with c t assms show "concat (trim_matches is_js_trim (chars d)) = d" by simp
  with t \<open>?c = d\<close> show "trim_matches (\<lambda>c. c = CHR ''/'') d = d" by (simp add: normalize_path_def)
qed

lemma no_backslash: "CHR 0x5C \<notin> set (collapse_from b s)"
  by (induction b s rule: collapse_from.induct) (auto simp: Let_def)

lemma concat_Nil: "concat u = [] \<Longrightarrow> [] \<notin> set u \<Longrightarrow> u = []"
  by (cases u) auto

lemma concat_fixed_trim:
  assumes "concat (trim_matches P (chars d)) = d"
  shows "trim_matches P (chars d) = chars d"
proof -
  obtain u v where uv: "chars d = u @ trim_matches P (chars d) @ v"
    by (metis trim_end_prefix trim_matches_def trim_start_suffix append.assoc)
  then have "concat (chars d) = concat u @ concat (trim_matches P (chars d)) @ concat v"
    by (metis concat_append)
  then have "length (concat (chars d)) =
      length (concat u) + length (concat (trim_matches P (chars d))) + length (concat v)"
    by (metis add.assoc length_append)
  then have "length (concat u) + length (concat v) = 0" unfolding assms concat_chars by simp
  then have "concat u = []" and "concat v = []" by simp_all
  moreover have "[] \<notin> set u" and "[] \<notin> set v"
    using uv chars_not_Nil [of d] by (metis Un_iff set_append)+
  ultimately have "u = []" and "v = []" by (blast intro: concat_Nil)+
  with uv show ?thesis by simp
qed

lemma normalized_shape:
  assumes "normalize_path d = d" and "d \<noteq> []"
  shows "\<not> is_slash (hd d)" and "\<not> is_slash (last d)" and "collapse_from False d = d"
    and "chars d \<noteq> []" and "\<not> is_js_trim (hd (chars d))" and "\<not> is_js_trim (last (chars d))"
proof -
  note fixed = normalize_path_fixed [OF assms(1)]
  from fixed show col: "collapse_from False d = d" by simp
  have "hd d \<noteq> CHR ''/''" "last d \<noteq> CHR ''/''"
    using trim_matches_fixed [OF fixed(3) assms(2)] by simp_all
  moreover have "hd d \<noteq> CHR 0x5C" "last d \<noteq> CHR 0x5C"
    using no_backslash [of False d] assms(2) by (metis col hd_in_set last_in_set)+
  ultimately show "\<not> is_slash (hd d)" "\<not> is_slash (last d)" by (simp_all add: is_slash_def)
  show ne: "chars d \<noteq> []" using assms(2) by (metis concat.simps(1) concat_chars)
  show "\<not> is_js_trim (hd (chars d))" "\<not> is_js_trim (last (chars d))"
    using trim_matches_fixed [OF concat_fixed_trim [OF fixed(2)] ne] by simp_all
qed

lemma collapse_below:
  assumes "normalize_path d = d" and "d \<noteq> []"
  shows "\<exists>r. collapse_from False (d @ CHR ''/'' # f) = d @ CHR ''/'' # r"
  using normalized_shape [OF assms] assms(2) by (simp add: collapse_append Let_def)

lemma normalize_path_below:
  assumes "normalize_path d = d" and "d \<noteq> []" and "valid_utf8 d"
  shows "\<exists>z. normalize_path (d @ CHR ''/'' # f) = d @ z \<and> (z = [] \<or> hd z = CHR ''/'')"
proof -
  let ?P = "\<lambda>c. c = CHR ''/''"
  note shape = normalized_shape [OF assms(1,2)]
  obtain r where col: "collapse_from False (d @ CHR ''/'' # f) = d @ CHR ''/'' # r"
    using collapse_below [OF assms(1,2)] by blast
  have chars: "chars (d @ CHR ''/'' # r) = chars d @ chars (CHR ''/'' # r)"
    by (rule chars_append [OF assms(3)])
  obtain zs us where zs: "trim_matches is_js_trim (chars d @ chars (CHR ''/'' # r)) = chars d @ zs"
    "chars (CHR ''/'' # r) = zs @ us"
    using trim_matches_below [OF shape(4,5,6)] by blast
  have head: "concat zs = [] \<or> hd (concat zs) = CHR ''/''"
    using zs(2) by (cases zs) (auto simp: chars_ascii_Cons bval_def)
  obtain z vs where z: "trim_matches ?P (d @ concat zs) = d @ z" "concat zs = z @ vs"
    using trim_matches_below [of d ?P "concat zs"] shape(1,2) assms(2) by (auto simp: is_slash_def)
  then have "normalize_path (d @ CHR ''/'' # f) = d @ z"
    by (simp add: normalize_path_def col chars zs(1))
  moreover have "z = [] \<or> hd z = CHR ''/''" using head z(2) by (cases z) auto
  ultimately show ?thesis by blast
qed

text \<open>A single leading slash of an absolute path is trimmed away.\<close>

lemma normalize_path_lead_slash:
  assumes "normalize_path d = d" and "d \<noteq> []" and "valid_utf8 d" and "t = [] \<or> hd t = CHR ''/''"
  shows "normalize_path (CHR ''/'' # d @ t) = normalize_path (d @ t)"
proof -
  let ?P = "\<lambda>c. c = CHR ''/''"
  note shape = normalized_shape [OF assms(1,2)]
  have true_col: "collapse_from True (c # s) = collapse_from False (c # s)" if "\<not> is_slash c" for c s
    using that by (simp add: Let_def is_slash_def)
  obtain r where r: "collapse_from False (d @ t) = d @ r"
    using shape(3) assms(2) by (auto simp: collapse_append)
  have col: "collapse_from False (CHR ''/'' # d @ t) = CHR ''/'' # d @ r"
  proof -
    obtain c s where d: "d = c # s" using assms(2) by (cases d) simp_all
    with shape(1) have "collapse_from True (d @ t) = collapse_from False (d @ t)"
      using true_col [of c "s @ t"] by simp
    then have "collapse_from False (CHR ''/'' # d @ t) = CHR ''/'' # collapse_from False (d @ t)"
      by (simp only: collapse_from.simps Let_def) simp
    with r show ?thesis by simp
  qed
  let ?Y = "chars d @ chars r"
  have chars2: "chars (d @ r) = ?Y" by (rule chars_append [OF assms(3)])
  have chars: "chars (CHR ''/'' # d @ r) = [CHR ''/''] # ?Y"
    unfolding chars2 [symmetric] by (rule chars_ascii_Cons) (simp add: bval_def)
  have slash_js: "\<not> is_js_trim [CHR ''/'']"
    by (simp add: is_js_trim_def js_trim_chars_def)
  obtain zs where zs: "trim_matches is_js_trim ?Y = chars d @ zs"
    using trim_matches_below [OF shape(4,5,6)] by blast
  have "trim_start is_js_trim ([CHR ''/''] # ?Y) = [CHR ''/''] # ?Y"
    and start: "trim_start is_js_trim ?Y = ?Y"
    using slash_js shape(4,5) by (simp_all add: trim_start_id)
  moreover have "trim_end is_js_trim ([[CHR ''/'']] @ ?Y) = [[CHR ''/'']] @ trim_end is_js_trim ?Y"
    unfolding trim_end_append using shape(4,6) last_in_set by auto
  ultimately have js: "trim_matches is_js_trim ([CHR ''/''] # ?Y) = [CHR ''/''] # chars d @ zs"
    using zs by (simp add: trim_matches_def)
  have "trim_start ?P (CHR ''/'' # d @ concat zs) = trim_start ?P (d @ concat zs)"
    by (simp add: trim_start_def)
  then show ?thesis
    unfolding normalize_path_def col r chars chars2 js zs by (simp add: trim_matches_def)
qed

lemma below_normalized:
  assumes "normalize_path d = d" and "d \<noteq> []" and "valid_utf8 d"
  shows "is_same_or_child (normalize_path (d @ CHR ''/'' # f)) (normalize_path d)"
proof -
  obtain z where z: "normalize_path (d @ CHR ''/'' # f) = d @ z" "z = [] \<or> hd z = CHR ''/''"
    using normalize_path_below [OF assms] by blast
  show ?thesis
    using z assms by (cases z) (auto simp: is_same_or_child_iff)
qed


definition sample_rule :: "string \<Rightarrow> filter_rule" where
  "sample_rule v = \<lparr>rule_kind = Path_Filter, rule_action = Exclude, rule_value = v, rule_enabled = True\<rparr>"


text \<open>
  The normalization hypothesis is needed: a directory whose name ends in a space is pruned by a
  rule for the name without it, although its files pass the filters.
\<close>

lemma pruning_drops_passing_files:
  "directory_excluded (\<lambda>_. None) ''gen '' [sample_rule ''gen''] (Some ''/w/gen '') \<and>
   file_matches_filters (\<lambda>_. None) ''gen /a.rs'' [sample_rule ''gen''] True True (Some ''/w/gen /a.rs'')"
  by code_simp

text \<open>
  What the filters decide: a file is refused by an enabled exclude rule that matches it, and
  otherwise, when include rules are in use and one is enabled, it needs one that matches.
\<close>

theorem file_matches_filters_iff:
  "file_matches_filters rx p rules inc exc a \<longleftrightarrow>
     \<not> (exc \<and> (\<exists>r\<in>set rules. rule_enabled r \<and> rule_action r = Exclude \<and> matches_rule rx p r a)) \<and>
     (inc \<and> (\<exists>r\<in>set rules. rule_enabled r \<and> rule_action r = Include) \<longrightarrow>
       (\<exists>r\<in>set rules. rule_enabled r \<and> rule_action r = Include \<and> matches_rule rx p r a))"
  by (auto simp: file_matches_filters_def Let_def list_ex_iff filter_empty_conv)

theorem file_matches_filters_iff_witness:
  "file_matches_filters (\<lambda>_. None) ''src/a.rs'' [sample_rule ''src/gen''] True True None"
  unfolding file_matches_filters_iff by code_simp

end
