(* ===== verification/Stats.thy ===== *)
theory Stats
  imports Format
begin

text \<open>
  Text statistics (\<open>crates/core/src/stats.rs\<close>) and the mode of a clipboard text
  (\<open>detect_mode\<close> of \<open>crates/core/src/clip.rs\<close>).
\<close>

record payload_stats =
  stat_chars :: nat
  stat_lines :: nat
  stat_words :: nat
  stat_tokens :: nat

text \<open>The variables of the scan: \<open>words\<close>, \<open>punctuation\<close>, \<open>newlines\<close>, \<open>in_word\<close>.\<close>

record scan_state =
  sc_words :: nat
  sc_punctuation :: nat
  sc_newlines :: nat
  sc_in_word :: bool

definition is_separator :: "char \<Rightarrow> bool" where
  "is_separator b \<longleftrightarrow> b = CHR 0x20 \<or> (9 \<le> bval b \<and> bval b \<le> 13)"

definition is_punctuation :: "char \<Rightarrow> bool" where
  "is_punctuation b \<longleftrightarrow> b \<in> set '';,(){}[]''"

definition scan_byte :: "scan_state \<Rightarrow> char \<Rightarrow> scan_state" where
  "scan_byte st b =
     (let st1 = (if b = nl then st\<lparr>sc_newlines := sc_newlines st + 1\<rparr> else st) in
      if is_separator b then st1\<lparr>sc_in_word := False\<rparr>
      else
        (let st2 = (if \<not> sc_in_word st1
                    then st1\<lparr>sc_in_word := True, sc_words := sc_words st1 + 1\<rparr> else st1) in
         if is_punctuation b then st2\<lparr>sc_punctuation := sc_punctuation st2 + 1\<rparr> else st2))"

definition payload_stats :: "string \<Rightarrow> payload_stats" where
  "payload_stats text =
     (let st = foldl scan_byte
        \<lparr>sc_words = 0, sc_punctuation = 0, sc_newlines = 0, sc_in_word = False\<rparr> text in
      \<lparr>stat_chars = utf16_len text,
       stat_lines = (if text = [] then 0 else sc_newlines st + 1),
       stat_words = sc_words st,
       stat_tokens = sc_words st + sc_punctuation st\<rparr>)"

definition estimate_tokens :: "string \<Rightarrow> nat" where
  "estimate_tokens text = stat_tokens (payload_stats text)"

section \<open>The counters against their specification\<close>

text \<open>The maximal runs of bytes that are no separators.\<close>

function word_runs :: "string \<Rightarrow> string list" where
  "word_runs [] = []"
| "word_runs (b # s) =
     (if is_separator b then word_runs s
      else (b # takeWhile (\<lambda>c. \<not> is_separator c) s) #
           word_runs (dropWhile (\<lambda>c. \<not> is_separator c) s))"
  by pat_completeness auto
termination
  by (relation "measure length") (auto simp: less_Suc_eq_le length_dropWhile_le)

lemma scan_counts:
  "sc_newlines (foldl scan_byte st s) = sc_newlines st + count_list s nl"
  "sc_punctuation (foldl scan_byte st s) = sc_punctuation st + length (filter is_punctuation s)"
  "sc_words (foldl scan_byte st s) = sc_words st +
     length (word_runs (if sc_in_word st then dropWhile (\<lambda>c. \<not> is_separator c) s else s))"
proof (induction s arbitrary: st)
  case Nil
  { case 1 then show ?case by simp }
  { case 2 then show ?case by simp }
  { case 3 then show ?case by simp }
next
  case (Cons b s)
  have punct_word: "is_punctuation b \<Longrightarrow> \<not> is_separator b"
    by (auto simp: is_punctuation_def is_separator_def bval_def)
  { case 1 show ?case by (simp add: Cons.IH) (auto simp: scan_byte_def Let_def) }
  { case 2 show ?case using punct_word by (simp add: Cons.IH) (auto simp: scan_byte_def Let_def) }
  { case 3 show ?case by (simp add: Cons.IH) (auto simp: scan_byte_def Let_def) }
qed

lemma count_newlines: "length (split_char c s) = Suc (count_list s c)"
  by (induction s) auto

text \<open>
  The one-pass scan computes its specification: lines are the pieces between line feeds
  (none for an empty text), words the maximal runs of non-separators, and tokens the words
  plus the punctuation bytes.
\<close>

theorem payload_stats_spec:
  "payload_stats text =
     \<lparr>stat_chars = utf16_len text,
      stat_lines = (if text = [] then 0 else length (split_char nl text)),
      stat_words = length (word_runs text),
      stat_tokens = length (word_runs text) + length (filter is_punctuation text)\<rparr>"
  by (simp add: payload_stats_def Let_def scan_counts count_newlines)

section \<open>Which mode a clipboard text is in\<close>

definition COMMIT_MARKER :: string where
  "COMMIT_MARKER = ''// snip-sync commits v1''"

datatype mode = Commits | Files

definition detect_mode :: "string \<Rightarrow> mode" where
  "detect_mode text =
     (let first = hd (split_char nl text) in
      if trim_end (\<lambda>c. c = cr) first = COMMIT_MARKER then Commits else Files)"

lemma detect_mode_crlf: "detect_mode (COMMIT_MARKER @ cr # nl # rest) = Commits"
proof -
  have "nl \<notin> set (COMMIT_MARKER @ [cr])" by (simp add: COMMIT_MARKER_def nl_def cr_def)
  then have "split_char nl ((COMMIT_MARKER @ [cr]) @ nl # rest) = (COMMIT_MARKER @ [cr]) # split_char nl rest"
    using split_char_append [of nl "COMMIT_MARKER @ [cr]" rest] split_char_free by fastforce
  then have "hd (split_char nl (COMMIT_MARKER @ cr # nl # rest)) = COMMIT_MARKER @ [cr]" by simp
  moreover have "trim_end (\<lambda>c. c = cr) (COMMIT_MARKER @ [cr]) = COMMIT_MARKER"
    by (simp add: trim_end_def COMMIT_MARKER_def cr_def)
  ultimately show ?thesis by (simp add: detect_mode_def Let_def)
qed

end
