(* ===== verification/Host.thy ===== *)
theory Host
  imports Format
begin

text \<open>
  The machine the program runs on, as far as the modelled code looks at it: native paths, a
  POSIX file system and the two library functions whose tables are not written out here.

  A native path is given by what \<open>Path::components\<close> yields for it (\<open>PathBuf\<close>'s equality
  compares exactly that): whether it is absolute, and the list of names, where \<open>..\<close> stays and
  \<open>.\<close> only survives at the front of a relative path.  A file system maps absolute lists of names
  to nodes.  The code modelled is the one compiled where \<open>cfg(windows)\<close> is false.
\<close>

section \<open>Native paths\<close>

record native_path =
  np_absolute :: bool
  np_names :: "string list"

definition slash :: char where "slash = CHR ''/''"

definition dot :: string where "dot = ''.''"

definition dotdot :: string where "dotdot = ''..''"

text \<open>\<open>Path::new(p).components()\<close>\<close>

definition components :: "string \<Rightarrow> native_path" where
  "components p =
     (let pieces = split_char slash p; absolute = starts_with ''/'' p in
      \<lparr>np_absolute = absolute,
       np_names = (if \<not> absolute \<and> hd pieces = dot then [dot] else []) @
         filter (\<lambda>s. s \<noteq> [] \<and> s \<noteq> dot) pieces\<rparr>)"

text \<open>The text of a path that was collected from components.\<close>

definition path_string :: "native_path \<Rightarrow> string" where
  "path_string p =
     (if np_absolute p then slash # join [slash] (np_names p) else join [slash] (np_names p))"

text \<open>\<open>Path::join\<close> and \<open>Path::parent\<close> on component lists.\<close>

definition path_join :: "native_path \<Rightarrow> native_path \<Rightarrow> native_path" where
  "path_join p q =
     (if np_absolute q then q
      else if \<not> np_absolute p \<and> np_names p = [] then q
      else p\<lparr>np_names := np_names p @ filter (\<lambda>s. s \<noteq> dot) (np_names q)\<rparr>)"

definition path_parent :: "native_path \<Rightarrow> native_path option" where
  "path_parent p =
     (if np_names p = [] then None else Some (p\<lparr>np_names := butlast (np_names p)\<rparr>))"

definition abs_path :: "string list \<Rightarrow> native_path" where
  "abs_path names = \<lparr>np_absolute = True, np_names = names\<rparr>"

section \<open>The file system\<close>

datatype node =
    Regular string
  | Directory
  | Symlink string
  | Special

datatype io_error =
    NotFound | AlreadyExists | PermissionDenied | NotADirectory | TooManyLinks | OtherError

text \<open>
  \<open>host_listing\<close> is what \<open>read_dir\<close> returns for a directory, in the system's order.
  \<open>host_temp_name\<close> is the name \<open>tempfile\<close> picks for a new file in a directory.
  \<open>host_denied\<close> are the nodes whose content the process may not read: a file's bytes or a
  directory's listing.  \<open>host_unwritable\<close> are the directories it may not change.
  \<open>to_lowercase\<close> is Unicode's lower-case mapping.
\<close>

record host =
  node_at :: "string list \<Rightarrow> node option"
  host_listing :: "string list \<Rightarrow> string list"
  host_temp_name :: "string list \<Rightarrow> string"
  host_denied :: "string list \<Rightarrow> bool"
  host_unwritable :: "string list \<Rightarrow> bool"
  host_cwd :: "string list option"
  host_max_links :: nat
  host_to_lowercase :: "string \<Rightarrow> string"

definition lookup_node :: "host \<Rightarrow> string list \<Rightarrow> node option" where
  "lookup_node h p = (if p = [] then Some Directory else node_at h p)"

text \<open>
  Path resolution: the names still to walk from a directory, a symbolic link replaced by its
  target, at most \<open>links\<close> of them.
\<close>

function walk :: "host \<Rightarrow> nat \<Rightarrow> string list \<Rightarrow> string list \<Rightarrow> io_error + string list" where
  "walk h links cur [] = Inr cur"
| "walk h links cur (c # cs) =
     (if c = [] \<or> c = dot then walk h links cur cs
      else if c = dotdot then walk h links (butlast cur) cs
      else case lookup_node h (cur @ [c]) of
        None \<Rightarrow> Inl NotFound
      | Some Directory \<Rightarrow> walk h links (cur @ [c]) cs
      | Some (Symlink t) \<Rightarrow>
          if links = 0 then Inl TooManyLinks
          else if np_absolute (components t)
            then walk h (links - 1) [] (np_names (components t) @ cs)
            else walk h (links - 1) cur (np_names (components t) @ cs)
      | Some _ \<Rightarrow> if cs = [] then Inr (cur @ [c]) else Inl NotADirectory)"
  by pat_completeness auto
termination
  by (relation "measures [\<lambda>(h, links, cur, todo). links, \<lambda>(h, links, cur, todo). length todo]") auto

text \<open>The absolute list of names a path stands for, before any link is followed.\<close>

definition absolute_names :: "host \<Rightarrow> native_path \<Rightarrow> io_error + string list" where
  "absolute_names h p =
     (if np_absolute p then Inr (np_names p)
      else if np_names p = [] then Inl NotFound
      else case host_cwd h of None \<Rightarrow> Inl NotFound | Some cwd \<Rightarrow> Inr (cwd @ np_names p))"

definition canonicalize :: "host \<Rightarrow> native_path \<Rightarrow> io_error + string list" where
  "canonicalize h p =
     (case absolute_names h p of
        Inl e \<Rightarrow> Inl e
      | Inr names \<Rightarrow> walk h (host_max_links h) [] names)"

text \<open>\<open>fs::metadata\<close>: the node behind every link.\<close>

definition metadata :: "host \<Rightarrow> native_path \<Rightarrow> io_error + node" where
  "metadata h p =
     (case canonicalize h p of
        Inl e \<Rightarrow> Inl e
      | Inr real \<Rightarrow> (case lookup_node h real of None \<Rightarrow> Inl NotFound | Some n \<Rightarrow> Inr n))"

definition plain_name :: "string \<Rightarrow> bool" where
  "plain_name c \<longleftrightarrow> c \<noteq> [] \<and> c \<noteq> dot \<and> c \<noteq> dotdot"

text \<open>The directory entry a path names: its directory is resolved, the last name is not.\<close>

definition entry_of :: "host \<Rightarrow> native_path \<Rightarrow> io_error + string list" where
  "entry_of h p =
     (case absolute_names h p of
        Inl e \<Rightarrow> Inl e
      | Inr names \<Rightarrow>
          if names = [] \<or> \<not> plain_name (last names)
          then walk h (host_max_links h) [] names
          else (case walk h (host_max_links h) [] (butlast names) of
              Inl e \<Rightarrow> Inl e
            | Inr dir \<Rightarrow> if lookup_node h dir = Some Directory then Inr (dir @ [last names])
                else Inl NotADirectory))"

definition symlink_metadata :: "host \<Rightarrow> native_path \<Rightarrow> io_error + node" where
  "symlink_metadata h p =
     (case entry_of h p of
        Inl e \<Rightarrow> Inl e
      | Inr entry \<Rightarrow> (case lookup_node h entry of None \<Rightarrow> Inl NotFound | Some n \<Rightarrow> Inr n))"

definition read_link :: "host \<Rightarrow> native_path \<Rightarrow> io_error + string" where
  "read_link h p =
     (case symlink_metadata h p of
        Inl e \<Rightarrow> Inl e
      | Inr (Symlink t) \<Rightarrow> Inr t
      | Inr _ \<Rightarrow> Inl OtherError)"

definition read_bytes :: "host \<Rightarrow> native_path \<Rightarrow> io_error + string" where
  "read_bytes h p =
     (case canonicalize h p of
        Inl e \<Rightarrow> Inl e
      | Inr real \<Rightarrow>
          (case lookup_node h real of
             Some (Regular bytes) \<Rightarrow> if host_denied h real then Inl PermissionDenied else Inr bytes
           | _ \<Rightarrow> Inl OtherError))"

definition path_exists :: "host \<Rightarrow> native_path \<Rightarrow> bool" where
  "path_exists h p = (case metadata h p of Inl _ \<Rightarrow> False | Inr _ \<Rightarrow> True)"

definition path_is_file :: "host \<Rightarrow> native_path \<Rightarrow> bool" where
  "path_is_file h p = (case metadata h p of Inr (Regular _) \<Rightarrow> True | _ \<Rightarrow> False)"

definition path_is_dir :: "host \<Rightarrow> native_path \<Rightarrow> bool" where
  "path_is_dir h p = (case metadata h p of Inr Directory \<Rightarrow> True | _ \<Rightarrow> False)"

section \<open>Resolved paths\<close>

text \<open>A real path: plain names, and every proper prefix a directory, no link anywhere.\<close>

definition real_path :: "host \<Rightarrow> string list \<Rightarrow> bool" where
  "real_path h p \<longleftrightarrow>
     (\<forall>c\<in>set p. plain_name c) \<and>
     (\<forall>k<length p. lookup_node h (take k p) = Some Directory) \<and>
     (\<exists>n. lookup_node h p = Some n \<and> (\<forall>t. n \<noteq> Symlink t))"

definition real_dir :: "host \<Rightarrow> string list \<Rightarrow> bool" where
  "real_dir h p \<longleftrightarrow> real_path h p \<and> lookup_node h p = Some Directory"

lemma real_dir_Nil [simp]: "real_dir h []"
  by (simp add: real_dir_def real_path_def lookup_node_def)

lemma real_path_snoc:
  "real_path h (p @ [c]) \<longleftrightarrow>
     real_dir h p \<and> plain_name c \<and> (\<exists>n. lookup_node h (p @ [c]) = Some n \<and> (\<forall>t. n \<noteq> Symlink t))"
proof
  assume r: "real_path h (p @ [c])"
  have d: "lookup_node h (take k p) = Some Directory" if "k \<le> length p" for k
    using r that unfolding real_path_def by (auto dest: spec [of _ k])
  from r d [of "length p"] d show "real_dir h p \<and> plain_name c \<and>
      (\<exists>n. lookup_node h (p @ [c]) = Some n \<and> (\<forall>t. n \<noteq> Symlink t))"
    by (auto simp: real_path_def real_dir_def)
next
  assume r: "real_dir h p \<and> plain_name c \<and>
      (\<exists>n. lookup_node h (p @ [c]) = Some n \<and> (\<forall>t. n \<noteq> Symlink t))"
  then have "lookup_node h (take k (p @ [c])) = Some Directory" if "k < length (p @ [c])" for k
    using that by (cases "k = length p") (auto simp: real_dir_def real_path_def)
  with r show "real_path h (p @ [c])"
    by (auto simp: real_path_def real_dir_def)
qed

lemma real_dir_butlast: "real_dir h p \<Longrightarrow> real_dir h (butlast p)"
  by (cases p rule: rev_cases) (auto simp: real_dir_def [of h "_ @ [_]"] real_path_snoc)

lemma walk_real: "walk h links cur todo = Inr p \<Longrightarrow> real_dir h cur \<Longrightarrow> real_path h p"
proof (induction h links cur todo rule: walk.induct)
  case (1 h links cur)
  then show ?case by (simp add: real_dir_def)
next
  case (2 h links cur c cs)
  show ?case
  proof (cases "c = [] \<or> c = dot \<or> c = dotdot")
    case True
    with 2 show ?thesis by (auto split: if_splits dest: real_dir_butlast)
  next
    case False
    then have plain: "plain_name c" by (simp add: plain_name_def)
    with "2.prems" have snoc: "real_path h (cur @ [c])"
      if "lookup_node h (cur @ [c]) = Some n" and "\<And>t. n \<noteq> Symlink t" for n
      using that by (auto simp: real_path_snoc)
    from False "2.prems" "2.IH" snoc show ?thesis
      by (auto split: option.splits node.splits if_splits simp: real_dir_def [of h "cur @ [c]"])
  qed
qed

lemma canonicalize_real: "canonicalize h p = Inr real \<Longrightarrow> real_path h real"
  by (auto simp: canonicalize_def split: sum.splits dest: walk_real)

text \<open>Walking a real path stays on it.\<close>

lemma walk_append_real: "real_path h (cur @ ps) \<Longrightarrow> walk h links cur ps = Inr (cur @ ps)"
proof (induction ps arbitrary: cur)
  case Nil
  then show ?case by simp
next
  case (Cons c ps)
  have r: "real_path h ((cur @ [c]) @ ps)" using Cons.prems by simp
  from Cons.prems have plain: "plain_name c" by (simp add: real_path_def)
  show ?case
  proof (cases ps)
    case Nil
    with Cons.prems plain show ?thesis
      by (auto simp: real_path_snoc plain_name_def split: node.splits)
  next
    case (Cons d ds)
    with r have "lookup_node h (take (length (cur @ [c])) ((cur @ [c]) @ ps)) = Some Directory"
      unfolding real_path_def by (metis length_append less_add_same_cancel1 length_greater_0_conv list.discI)
    then have "lookup_node h (cur @ [c]) = Some Directory" by simp
    with Cons.IH [OF r] plain show ?thesis by (simp add: plain_name_def)
  qed
qed

lemma canonicalize_real_path:
  "real_path h p \<Longrightarrow> canonicalize h (abs_path p) = Inr p"
  using walk_append_real [of h "[]" p] by (simp add: canonicalize_def absolute_names_def abs_path_def)

declare walk.simps(2) [simp del]

end
