(* ===== verification/Paths.thy ===== *)
theory Paths
  imports Host
begin

text \<open>
  Clipboard paths and the roots they resolve to (\<open>crates/core/src/paths.rs\<close>).  Roots and
  clipboard paths are strings; only the resolved target and the containment check look at native
  paths and at the file system, which is the argument \<open>h\<close> of every definition that reads it.
\<close>

section \<open>Results\<close>

datatype reject_reason = UnsafePath | OutsideWorkspace | AmbiguousPath | MissingPath

fun reason_as_str :: "reject_reason \<Rightarrow> string" where
  "reason_as_str UnsafePath = ''unsafe path''"
| "reason_as_str OutsideWorkspace = ''outside workspace''"
| "reason_as_str AmbiguousPath = ''ambiguous path''"
| "reason_as_str MissingPath = ''missing path''"

record rejected_target =
  rj_reason :: reject_reason
  rj_relative_path :: "string option"
  rj_candidates :: "string list option"

record resolved_target =
  rt_relative_path :: string
  rt_absolute_path :: native_path
  rt_root_path :: native_path
  rt_existed :: bool

type_synonym resolution = "rejected_target + resolved_target"

section \<open>Path text\<close>

definition backslash :: char where "backslash = CHR 0x5C"

definition lossy :: "string \<Rightarrow> string" where
  "lossy p = from_utf8_lossy p"

definition ascii_lowercase :: "char \<Rightarrow> char" where
  "ascii_lowercase c =
     (if 65 \<le> bval c \<and> bval c \<le> 90 then char_of (bval c + 32) else c)"

definition eq_ignore_ascii_case :: "string \<Rightarrow> string \<Rightarrow> bool" where
  "eq_ignore_ascii_case a b \<longleftrightarrow> map ascii_lowercase a = map ascii_lowercase b"

text \<open>\<open>path.split(['/', '\\'])\<close>\<close>

definition split_slashes :: "string \<Rightarrow> string list" where
  "split_slashes p = split_char slash (map (\<lambda>c. if c = backslash then slash else c) p)"

definition has_git_segment :: "string \<Rightarrow> bool" where
  "has_git_segment path =
     list_ex (\<lambda>seg. eq_ignore_ascii_case (trim_end (\<lambda>c. c = CHR ''.'' \<or> c = CHR '' '') seg) ''.git'')
       (split_slashes path)"

definition collapse_slashes :: "string \<Rightarrow> string" where
  "collapse_slashes s = collapse_from False s"

fun has_drive :: "string \<Rightarrow> bool" where
  "has_drive (a # b # s) = (is_ascii_alphabetic a \<and> b = CHR '':'')"
| "has_drive s = False"

definition has_drive_slash :: "string \<Rightarrow> bool" where
  "has_drive_slash s = (has_drive s \<and> starts_with ''/'' (drop 2 s))"

definition is_drive_root :: "string \<Rightarrow> bool" where
  "is_drive_root s = (has_drive_slash s \<and> length s = 3)"

definition is_absolute :: "string \<Rightarrow> bool" where
  "is_absolute s = (starts_with ''/'' s \<or> has_drive_slash s)"

definition is_windows_style_path :: "string \<Rightarrow> bool" where
  "is_windows_style_path s = (has_drive s \<and> (length s = 2 \<or> starts_with ''/'' (drop 2 s)))"

definition bad_char :: "char \<Rightarrow> bool" where
  "bad_char c \<longleftrightarrow> c \<in> set ''<>:|?*'' \<or> c = CHR 0x22 \<or> bval c \<le> 31"

definition bad_segment :: "string \<Rightarrow> bool" where
  "bad_segment s \<longleftrightarrow> s = dotdot \<or> list_ex bad_char s"

definition sanitize_relative_path :: "string \<Rightarrow> string option" where
  "sanitize_relative_path value =
     (let normalized = trim_start (\<lambda>c. c = slash) (collapse_slashes (ascii_trim value)) in
      if normalized = [] \<or> is_absolute normalized then None
      else
        (let segments = filter (\<lambda>s. s \<noteq> [] \<and> s \<noteq> dot) (split_char slash normalized) in
         if segments = [] then None
         else if list_ex bad_segment segments then None
         else Some (join [slash] segments)))"

definition is_exportable_relative_path :: "string \<Rightarrow> bool" where
  "is_exportable_relative_path value = (sanitize_relative_path value = Some value)"

definition normalize_system_path :: "string \<Rightarrow> string" where
  "normalize_system_path value =
     (let s = collapse_slashes (ascii_trim value) in
      if s \<noteq> ''/'' \<and> \<not> is_drive_root s then trim_end (\<lambda>c. c = slash) s else s)"

definition path_key :: "host \<Rightarrow> string \<Rightarrow> string" where
  "path_key h value =
     (let normalized = normalize_system_path value in
      if is_windows_style_path normalized then host_to_lowercase h normalized else normalized)"

definition segments_match :: "host \<Rightarrow> string \<Rightarrow> string \<Rightarrow> bool \<Rightarrow> bool" where
  "segments_match h left right windows =
     (if windows then host_to_lowercase h left = host_to_lowercase h right else left = right)"

text \<open>The characters from the first one at or after \<open>n\<close> UTF-16 units.\<close>

fun skip_units :: "nat \<Rightarrow> string list \<Rightarrow> string list" where
  "skip_units n [] = []"
| "skip_units n (c # cs) = (if n = 0 then c # cs else skip_units (n - utf16_units c) cs)"

definition relativize_path :: "host \<Rightarrow> string \<Rightarrow> string \<Rightarrow> string option" where
  "relativize_path h absolute_path root_path =
     (let ab = normalize_system_path absolute_path;
          root = normalize_system_path root_path;
          abs_key = path_key h ab;
          root_key = path_key h root in
      if abs_key = root_key then Some []
      else if \<not> starts_with (root_key @ ''/'') abs_key then None
      else sanitize_relative_path (concat (skip_units (utf16_len root + 1) (chars ab))))"

definition same_path :: "host \<Rightarrow> string \<Rightarrow> string \<Rightarrow> bool" where
  "same_path h left right \<longleftrightarrow> path_key h left = path_key h right"

definition is_under_root :: "host \<Rightarrow> string \<Rightarrow> string \<Rightarrow> bool" where
  "is_under_root h value root \<longleftrightarrow>
     path_key h value \<noteq> path_key h root \<and> starts_with (path_key h root @ ''/'') (path_key h value)"

definition basename :: "string \<Rightarrow> string" where
  "basename p =
     (if is_drive_root p then []
      else last (split_char slash (trim_end (\<lambda>c. c = slash) p)))"

definition join_str :: "string \<Rightarrow> string \<Rightarrow> string" where
  "join_str root rel =
     (if rel = [] then root
      else if ends_with ''/'' root then root @ rel
      else root @ ''/'' @ rel)"

definition native :: "string \<Rightarrow> native_path" where
  "native p = components p"

definition is_existing_file :: "host \<Rightarrow> string \<Rightarrow> bool" where
  "is_existing_file h target = path_is_file h (native target)"

definition distinct_by :: "('a \<Rightarrow> string) \<Rightarrow> 'a list \<Rightarrow> 'a list" where
  "distinct_by key values = distinct_by_from {} key values"

text \<open>The \<open>// clipcode-root:\<close> value.\<close>

definition source_root_name :: "string list \<Rightarrow> string option" where
  "source_root_name roots =
     (if length roots \<noteq> 1 then None
      else case filter (\<lambda>s. s \<noteq> []) (split_char slash (normalize_system_path (lossy (hd roots)))) of
        [] \<Rightarrow> None
      | names \<Rightarrow> Some (last names))"

section \<open>Containment\<close>

text \<open>\<open>path.resolve(p)\<close>: absolute and lexically normalized.\<close>

definition push_component :: "string list \<Rightarrow> string \<Rightarrow> string list" where
  "push_component out c =
     (if c = dot then out else if c = dotdot then butlast out else out @ [c])"

definition absolutize :: "host \<Rightarrow> native_path \<Rightarrow> native_path" where
  "absolutize h p =
     (let ab = (case absolute_names h p of Inr names \<Rightarrow> abs_path names | Inl _ \<Rightarrow> p) in
      \<lparr>np_absolute = np_absolute ab, np_names = foldl push_component [] (np_names ab)\<rparr>)"

definition is_contained :: "native_path \<Rightarrow> native_path \<Rightarrow> bool" where
  "is_contained real_target real_root \<longleftrightarrow>
     (np_absolute real_target = np_absolute real_root \<or>
        \<not> np_absolute real_root \<and> np_names real_root = []) \<and>
     starts_with (np_names real_root) (np_names real_target)"

text \<open>
  The proper ancestors of a path from the deepest: the first that can be canonicalized, with the
  number of names it has.
\<close>

primrec existing_ancestor :: "host \<Rightarrow> native_path \<Rightarrow> nat \<Rightarrow> (nat \<times> string list) option" where
  "existing_ancestor h target 0 = None"
| "existing_ancestor h target (Suc k) =
     (case canonicalize h (target\<lparr>np_names := take k (np_names target)\<rparr>) of
        Inr real \<Rightarrow> Some (k, real)
      | Inl _ \<Rightarrow> existing_ancestor h target k)"

function containment_target :: "host \<Rightarrow> native_path \<Rightarrow> nat \<Rightarrow> native_path option" where
  "containment_target h target_path hops =
     (let target = absolutize h target_path in
      case canonicalize h target of
        Inr real \<Rightarrow> Some (abs_path real)
      | Inl _ \<Rightarrow>
          if 40 < hops then None
          else
            (case existing_ancestor h target (length (np_names target)) of
               None \<Rightarrow> Some target
             | Some (k, real) \<Rightarrow>
                 (let rest = drop k (np_names target); first = real @ [hd rest] in
                  case symlink_metadata h (abs_path first) of
                    Inr (Symlink _) \<Rightarrow>
                      (case read_link h (abs_path first) of
                         Inr link \<Rightarrow>
                           containment_target h
                             (path_join (path_join (abs_path real) (components link))
                               \<lparr>np_absolute = False, np_names = tl rest\<rparr>)
                             (hops + 1)
                       | Inl _ \<Rightarrow> Some (abs_path (real @ rest)))
                  | _ \<Rightarrow> Some (abs_path (real @ rest)))))"
  by pat_completeness auto
termination
  by (relation "measure (\<lambda>(h, target, hops). 41 - hops)") auto

declare containment_target.simps [simp del]

definition real_or_self :: "host \<Rightarrow> native_path \<Rightarrow> native_path" where
  "real_or_self h p =
     (case containment_target h p 0 of Some real \<Rightarrow> real | None \<Rightarrow> absolutize h p)"

definition escapes_all_roots :: "host \<Rightarrow> native_path list \<Rightarrow> native_path \<Rightarrow> bool" where
  "escapes_all_roots h roots target_path =
     (case containment_target h target_path 0 of
        None \<Rightarrow> True
      | Some real \<Rightarrow> \<not> list_ex (\<lambda>root. is_contained real root) (map (real_or_self h) roots))"

definition is_git_dir :: "host \<Rightarrow> native_path \<Rightarrow> bool" where
  "is_git_dir h dir =
     (path_is_file h (path_join dir (components ''HEAD'')) \<and>
      path_is_dir h (path_join dir (components ''objects'')) \<and>
      path_is_dir h (path_join dir (components ''refs'')))"

text \<open>\<open>Path::ancestors\<close>, the path itself first.\<close>

definition ancestors :: "native_path \<Rightarrow> native_path list" where
  "ancestors p =
     map (\<lambda>k. p\<lparr>np_names := take k (np_names p)\<rparr>) (rev [0..<Suc (length (np_names p))])"

definition lands_in_git_dir :: "host \<Rightarrow> native_path \<Rightarrow> bool" where
  "lands_in_git_dir h target =
     (case containment_target h target 0 of
        None \<Rightarrow> True
      | Some real \<Rightarrow> list_ex (is_git_dir h) (ancestors real))"

section \<open>The resolver\<close>

record root_entry =
  re_path :: string
  re_is_primary :: bool
  re_clipboard_label :: "string option"
  re_has_ambiguous_label :: bool

record target_candidate =
  tc_root :: nat
  tc_target :: string
  tc_root_relative_path :: string

record path_resolver =
  pr_ordered_roots :: "root_entry list"
  pr_primary_root :: "nat option"
  pr_primary_reserved_labels :: "string set"

definition reject :: "reject_reason \<Rightarrow> string option \<Rightarrow> rejected_target" where
  "reject reason relative_path =
     \<lparr>rj_reason = reason, rj_relative_path = relative_path, rj_candidates = None\<rparr>"

definition unsafe_path :: "string option \<Rightarrow> rejected_target" where
  "unsafe_path relative_path = reject UnsafePath relative_path"

definition first_position :: "('a \<Rightarrow> bool) \<Rightarrow> 'a list \<Rightarrow> nat option" where
  "first_position P xs =
     (if list_ex P xs then Some (length (takeWhile (\<lambda>x. \<not> P x) xs)) else None)"

definition non_empty :: "string option \<Rightarrow> string option" where
  "non_empty s = (if s = Some [] then None else s)"

text \<open>The normalized roots and the normalized primary root of \<open>PathResolver::new\<close>.\<close>

definition normalized_roots :: "host \<Rightarrow> string list \<Rightarrow> string list" where
  "normalized_roots h roots =
     distinct_by (path_key h)
       (filter (\<lambda>r. r \<noteq> []) (map (\<lambda>r. normalize_system_path (lossy r)) roots))"

definition normalized_primary :: "host \<Rightarrow> string list \<Rightarrow> string option \<Rightarrow> string option" where
  "normalized_primary h roots primary =
     (let raw_primary =
            (case primary of
               Some p \<Rightarrow> Some (lossy p)
             | None \<Rightarrow> (case roots of [] \<Rightarrow> None | r # _ \<Rightarrow> Some (lossy r)));
          first_root = (case normalized_roots h roots of [] \<Rightarrow> None | r # _ \<Rightarrow> Some r) in
      non_empty
        (case raw_primary of
           Some p \<Rightarrow> if p \<noteq> [] then Some (normalize_system_path p) else first_root
         | None \<Rightarrow> first_root))"

definition all_root_paths :: "host \<Rightarrow> string list \<Rightarrow> string option \<Rightarrow> string list" where
  "all_root_paths h roots primary =
     distinct_by (path_key h)
       ((case normalized_primary h roots primary of None \<Rightarrow> [] | Some np \<Rightarrow> [np]) @
        normalized_roots h roots)"

definition external_labels :: "host \<Rightarrow> string list \<Rightarrow> string option \<Rightarrow> string list" where
  "external_labels h roots primary =
     (case normalized_primary h roots primary of
        Some np \<Rightarrow>
          filter (\<lambda>l. l \<noteq> [])
            (map basename
              (filter (\<lambda>r. \<not> same_path h r np \<and> \<not> is_under_root h r np)
                (all_root_paths h roots primary)))
      | None \<Rightarrow> [])"

definition reserved_labels :: "host \<Rightarrow> string list \<Rightarrow> string option \<Rightarrow> string set" where
  "reserved_labels h roots primary =
     (case normalized_primary h roots primary of
        None \<Rightarrow> {}
      | Some np \<Rightarrow>
          set (List.map_filter
            (\<lambda>root.
               if \<not> same_path h root np \<and> is_under_root h root np
               then non_empty (map_option (\<lambda>r. hd (split_char slash r)) (relativize_path h root np))
               else None)
            (all_root_paths h roots primary)) \<union>
          set (filter (\<lambda>label. path_exists h (native (join_str np label)))
            (external_labels h roots primary)))"

definition root_entry_of :: "host \<Rightarrow> string list \<Rightarrow> string option \<Rightarrow> string \<Rightarrow> root_entry" where
  "root_entry_of h roots primary root =
     (let np = normalized_primary h roots primary;
          is_primary = (case np of Some p \<Rightarrow> same_path h root p | None \<Rightarrow> False);
          is_external = (\<not> is_primary \<and> (case np of Some p \<Rightarrow> \<not> is_under_root h root p | None \<Rightarrow> True));
          label = (if is_external then non_empty (Some (basename root)) else None) in
      \<lparr>re_path = root,
       re_is_primary = is_primary,
       re_clipboard_label = label,
       re_has_ambiguous_label =
         (case label of
            None \<Rightarrow> False
          | Some l \<Rightarrow> count_list (external_labels h roots primary) l \<noteq> 1 \<or>
              l \<in> reserved_labels h roots primary)\<rparr>)"

definition resolver_new :: "host \<Rightarrow> string list \<Rightarrow> string option \<Rightarrow> path_resolver" where
  "resolver_new h roots primary =
     (let ordered = sort_key (\<lambda>r. - int (utf16_len (re_path r)))
            (map (root_entry_of h roots primary) (all_root_paths h roots primary)) in
      \<lparr>pr_ordered_roots = ordered,
       pr_primary_root =
         (case first_position re_is_primary ordered of
            Some i \<Rightarrow> Some i
          | None \<Rightarrow> if ordered \<noteq> [] then Some 0 else None),
       pr_primary_reserved_labels = reserved_labels h roots primary\<rparr>)"

definition root_at :: "path_resolver \<Rightarrow> nat \<Rightarrow> root_entry" where
  "root_at r i = pr_ordered_roots r ! i"

text \<open>\<open>ordered_roots.iter().enumerate()\<close>, all and without the primary.\<close>

definition enumerated :: "path_resolver \<Rightarrow> (nat \<times> root_entry) list" where
  "enumerated r = zip [0..<length (pr_ordered_roots r)] (pr_ordered_roots r)"

definition others :: "path_resolver \<Rightarrow> (nat \<times> root_entry) list" where
  "others r = filter (\<lambda>(i, _). Some i \<noteq> pr_primary_root r) (enumerated r)"

definition primary_entry :: "path_resolver \<Rightarrow> root_entry option" where
  "primary_entry r = map_option (root_at r) (pr_primary_root r)"

definition candidate :: "path_resolver \<Rightarrow> nat \<Rightarrow> string \<Rightarrow> target_candidate" where
  "candidate r root rel =
     \<lparr>tc_root = root,
      tc_target = join_str (re_path (root_at r root)) rel,
      tc_root_relative_path = rel\<rparr>"

text \<open>\<open>Iterator::find_map\<close>\<close>

fun find_map :: "('a \<Rightarrow> 'b option) \<Rightarrow> 'a list \<Rightarrow> 'b option" where
  "find_map f [] = None"
| "find_map f (x # xs) = (case f x of Some y \<Rightarrow> Some y | None \<Rightarrow> find_map f xs)"

text \<open>What a root outside the primary one shows of a path below it.\<close>

definition labelled :: "root_entry \<Rightarrow> string \<Rightarrow> string option" where
  "labelled root rel =
     (case re_clipboard_label root of
        Some label \<Rightarrow>
          if \<not> re_has_ambiguous_label root then
            Some (if rel = [] then label else label @ ''/'' @ rel)
          else None
      | None \<Rightarrow> None)"

definition to_clipboard_path :: "host \<Rightarrow> path_resolver \<Rightarrow> string \<Rightarrow> string" where
  "to_clipboard_path h r absolute_path =
     (let normalized = normalize_system_path absolute_path;
          below_primary =
            (case primary_entry r of
               Some p \<Rightarrow> relativize_path h normalized (re_path p)
             | None \<Rightarrow> None) in
      case below_primary of
        Some rel \<Rightarrow> rel
      | None \<Rightarrow>
          (case find_map
              (\<lambda>(_, root).
                 (case relativize_path h normalized (re_path root) of
                    None \<Rightarrow> None
                  | Some rel \<Rightarrow>
                      Some (case labelled root rel of Some path \<Rightarrow> path | None \<Rightarrow> normalized)))
              (others r) of
             Some path \<Rightarrow> path
           | None \<Rightarrow> normalized))"

definition to_clipboard_path_from_roots ::
  "host \<Rightarrow> string list \<Rightarrow> string \<Rightarrow> string option \<Rightarrow> string" where
  "to_clipboard_path_from_roots h workspace_roots absolute_path primary_root =
     to_clipboard_path h (resolver_new h workspace_roots primary_root) (lossy absolute_path)"

section \<open>Candidates\<close>

definition absolute_root_candidate :: "host \<Rightarrow> path_resolver \<Rightarrow> string \<Rightarrow> target_candidate option" where
  "absolute_root_candidate h r raw_path =
     (let normalized = normalize_system_path raw_path in
      if \<not> is_absolute normalized then None
      else find_map
        (\<lambda>(i, root). map_option (candidate r i) (relativize_path h normalized (re_path root)))
        (enumerated r))"

definition literal_absolute_candidate :: "path_resolver \<Rightarrow> string \<Rightarrow> target_candidate option" where
  "literal_absolute_candidate r raw_path =
     (let normalized = normalize_system_path raw_path in
      case pr_primary_root r of
        None \<Rightarrow> None
      | Some primary \<Rightarrow>
          if \<not> is_absolute normalized \<or> is_drive_root normalized then None
          else
            map_option (candidate r primary)
              (sanitize_relative_path
                (if has_drive_slash normalized then take 1 normalized @ drop 2 normalized
                 else normalized)))"

definition suffix_candidates ::
  "host \<Rightarrow> path_resolver \<Rightarrow> string list \<Rightarrow> bool \<Rightarrow> target_candidate list" where
  "suffix_candidates h r segs windows =
     concat (map
       (\<lambda>(i, root).
          let root_name = basename (re_path root) in
          if root_name = [] then []
          else
            List.map_filter
              (\<lambda>index.
                 if \<not> segments_match h (segs ! index) root_name windows then None
                 else map_option (candidate r i)
                   (sanitize_relative_path (join [slash] (drop (index + 1) segs))))
              [0..<length segs - 1])
       (enumerated r))"

definition cross_machine_suffix_candidate ::
  "host \<Rightarrow> path_resolver \<Rightarrow> string \<Rightarrow> target_candidate option" where
  "cross_machine_suffix_candidate h r raw_path =
     (let absolute = normalize_system_path raw_path in
      if absolute = [] \<or> \<not> is_absolute absolute then None
      else
        (let without_drive = (if has_drive_slash absolute then drop 3 absolute else absolute);
             segs = filter (\<lambda>s. s \<noteq> [])
               (split_char slash (trim_start (\<lambda>c. c = slash) without_drive));
             windows = (is_windows_style_path absolute \<or>
               list_ex (\<lambda>root. is_windows_style_path (re_path root)) (pr_ordered_roots r));
             candidates = suffix_candidates h r segs windows in
         if length (remdups (map (\<lambda>c. path_key h (tc_target c)) candidates)) \<noteq> 1 then None
         else
           Some (case find (\<lambda>c. re_is_primary (root_at r (tc_root c))) candidates of
               Some c \<Rightarrow> c
             | None \<Rightarrow> hd candidates)))"

definition cross_machine_suffix_relative_path :: "host \<Rightarrow> path_resolver \<Rightarrow> string \<Rightarrow> string option" where
  "cross_machine_suffix_relative_path h r absolute_path =
     (case cross_machine_suffix_candidate h r absolute_path of
        None \<Rightarrow> None
      | Some winner \<Rightarrow>
          (let root = root_at r (tc_root winner) in
           case re_clipboard_label root of
             Some label \<Rightarrow>
               if \<not> re_is_primary root \<and> \<not> re_has_ambiguous_label root
               then Some (label @ ''/'' @ tc_root_relative_path winner)
               else Some (tc_root_relative_path winner)
           | None \<Rightarrow> Some (tc_root_relative_path winner)))"

definition explicit_root_label_candidates ::
  "host \<Rightarrow> path_resolver \<Rightarrow> string \<Rightarrow> target_candidate list" where
  "explicit_root_label_candidates h r relative_path =
     (case split_once slash relative_path of
        None \<Rightarrow> []
      | Some (first, rest) \<Rightarrow>
          if first = [] \<or> rest = [] then []
          else
            distinct_by (\<lambda>c. path_key h (tc_target c))
              ((if first \<in> pr_primary_reserved_labels r
                then (case pr_primary_root r of
                        Some p \<Rightarrow> [candidate r p relative_path]
                      | None \<Rightarrow> [])
                else []) @
               map (\<lambda>(i, _). candidate r i rest)
                 (filter (\<lambda>(i, root). re_clipboard_label root = Some first) (enumerated r))))"

definition legacy_target_candidates ::
  "host \<Rightarrow> path_resolver \<Rightarrow> string \<Rightarrow> target_candidate list" where
  "legacy_target_candidates h r relative_path =
     distinct_by (\<lambda>c. path_key h (tc_target c))
       (map (\<lambda>i. candidate r i relative_path)
         ((case pr_primary_root r of Some p \<Rightarrow> [p] | None \<Rightarrow> []) @ map fst (others r)))"

definition has_nested_root_prefix :: "host \<Rightarrow> path_resolver \<Rightarrow> string \<Rightarrow> bool" where
  "has_nested_root_prefix h r relative_path =
     (let first = hd (split_char slash relative_path) in
      if first = [] then False
      else list_ex
        (\<lambda>(_, root). segments_match h (basename (re_path root)) first
           (is_windows_style_path relative_path))
        (others r))"

definition to_relative_project_path :: "host \<Rightarrow> path_resolver \<Rightarrow> string \<Rightarrow> string option" where
  "to_relative_project_path h r raw_path =
     (let normalized = normalize_system_path raw_path in
      if normalized = [] then None
      else if \<not> is_absolute normalized then sanitize_relative_path normalized
      else
        (let below_primary =
               (case primary_entry r of
                  Some p \<Rightarrow> non_empty (relativize_path h normalized (re_path p))
                | None \<Rightarrow> None) in
         case below_primary of
           Some rel \<Rightarrow> Some rel
         | None \<Rightarrow>
             (case find_map
                 (\<lambda>(_, root).
                    (case non_empty (relativize_path h normalized (re_path root)) of
                       None \<Rightarrow> None
                     | Some rel \<Rightarrow>
                         Some (case labelled root rel of Some path \<Rightarrow> path | None \<Rightarrow> rel)))
                 (others r) of
                Some rel \<Rightarrow> Some rel
              | None \<Rightarrow> cross_machine_suffix_relative_path h r normalized)))"

section \<open>Targets\<close>

definition escapes :: "host \<Rightarrow> path_resolver \<Rightarrow> string \<Rightarrow> bool" where
  "escapes h r target =
     escapes_all_roots h (map (\<lambda>root. native (re_path root)) (pr_ordered_roots r)) (native target)"

definition resolved :: "host \<Rightarrow> path_resolver \<Rightarrow> target_candidate \<Rightarrow> string \<Rightarrow> bool \<Rightarrow> resolved_target" where
  "resolved h r c relative_path existed =
     \<lparr>rt_relative_path = relative_path,
      rt_absolute_path = absolutize h (native (tc_target c)),
      rt_root_path = absolutize h (native (re_path (root_at r (tc_root c)))),
      rt_existed = existed\<rparr>"

definition ambiguous :: "host \<Rightarrow> string \<Rightarrow> target_candidate list \<Rightarrow> rejected_target" where
  "ambiguous h relative_path candidates =
     \<lparr>rj_reason = AmbiguousPath,
      rj_relative_path = Some relative_path,
      rj_candidates = Some (distinct_by (path_key h)
        (map (\<lambda>c. normalize_system_path (tc_target c)) candidates))\<rparr>"

definition resolve_write_candidate ::
  "host \<Rightarrow> path_resolver \<Rightarrow> target_candidate \<Rightarrow> string \<Rightarrow> bool option \<Rightarrow> resolution" where
  "resolve_write_candidate h r c relative_path existed =
     (if escapes h r (tc_target c) \<or> has_git_segment relative_path \<or>
         has_git_segment (tc_root_relative_path c)
      then Inl (unsafe_path (Some relative_path))
      else Inr (resolved h r c relative_path
        (case existed of Some e \<Rightarrow> e | None \<Rightarrow> is_existing_file h (tc_target c))))"

definition or_else :: "'a option \<Rightarrow> 'a option \<Rightarrow> 'a option" where
  "or_else a b = (case a of Some x \<Rightarrow> Some x | None \<Rightarrow> b)"

definition resolve_write_target :: "host \<Rightarrow> path_resolver \<Rightarrow> string \<Rightarrow> resolution" where
  "resolve_write_target h r raw_path =
     (if has_git_segment raw_path then Inl (unsafe_path None)
      else case or_else (absolute_root_candidate h r raw_path)
          (or_else (cross_machine_suffix_candidate h r raw_path)
            (literal_absolute_candidate r raw_path)) of
        Some c \<Rightarrow> resolve_write_candidate h r c (tc_root_relative_path c) None
      | None \<Rightarrow>
          (case to_relative_project_path h r raw_path of
             None \<Rightarrow> Inl (unsafe_path None)
           | Some relative_path \<Rightarrow>
               (let explicit = explicit_root_label_candidates h r relative_path;
                    targets = legacy_target_candidates h r relative_path;
                    existing = filter (\<lambda>c. is_existing_file h (tc_target c)) targets;
                    primary_existing = find (\<lambda>c. re_is_primary (root_at r (tc_root c))) existing;
                    other_existing =
                      filter (\<lambda>c. \<not> re_is_primary (root_at r (tc_root c))) existing in
                if 1 < length explicit then Inl (ambiguous h relative_path explicit)
                else if explicit \<noteq> []
                then resolve_write_candidate h r (last explicit)
                  (tc_root_relative_path (last explicit)) None
                else if targets = [] then Inl (reject OutsideWorkspace (Some relative_path))
                else case primary_existing of
                  Some p \<Rightarrow>
                    if other_existing \<noteq> [] \<and> \<not> has_nested_root_prefix h r relative_path
                    then Inl (ambiguous h relative_path (p # other_existing))
                    else resolve_write_candidate h r p relative_path None
                | None \<Rightarrow>
                    if 1 < length other_existing
                    then Inl (ambiguous h relative_path other_existing)
                    else if other_existing \<noteq> []
                    then resolve_write_candidate h r (last other_existing) relative_path None
                    else (case pr_primary_root r of
                        None \<Rightarrow> Inl (reject OutsideWorkspace (Some relative_path))
                      | Some primary \<Rightarrow>
                          resolve_write_candidate h r (candidate r primary relative_path)
                            relative_path (Some False)))))"

definition resolve_delete_candidate ::
  "host \<Rightarrow> path_resolver \<Rightarrow> target_candidate \<Rightarrow> string \<Rightarrow> resolution" where
  "resolve_delete_candidate h r c relative_path =
     (if escapes h r (tc_target c) \<or> has_git_segment relative_path \<or>
         has_git_segment (tc_root_relative_path c)
      then Inl (unsafe_path (Some relative_path))
      else Inr (resolved h r c relative_path True))"

definition delete_existing :: "host \<Rightarrow> path_resolver \<Rightarrow> target_candidate \<Rightarrow> resolution" where
  "delete_existing h r c =
     (let rel = tc_root_relative_path c in
      if has_git_segment rel then Inl (unsafe_path (Some rel))
      else if is_existing_file h (tc_target c) then resolve_delete_candidate h r c rel
      else Inl (reject MissingPath (Some rel)))"

definition resolve_delete_target :: "host \<Rightarrow> path_resolver \<Rightarrow> string \<Rightarrow> resolution" where
  "resolve_delete_target h r raw_path =
     (if has_git_segment raw_path then Inl (unsafe_path None)
      else case absolute_root_candidate h r raw_path of
        Some c \<Rightarrow> delete_existing h r c
      | None \<Rightarrow>
          (case cross_machine_suffix_candidate h r raw_path of
             Some c \<Rightarrow> delete_existing h r c
           | None \<Rightarrow>
               (case to_relative_project_path h r raw_path of
                  None \<Rightarrow> Inl (unsafe_path None)
                | Some relative_path \<Rightarrow>
                    (let explicit = explicit_root_label_candidates h r relative_path;
                         existing = filter (\<lambda>c. is_existing_file h (tc_target c))
                           (legacy_target_candidates h r relative_path) in
                     if 1 < length explicit then Inl (ambiguous h relative_path explicit)
                     else if explicit \<noteq> [] then delete_existing h r (last explicit)
                     else if 1 < length existing then Inl (ambiguous h relative_path existing)
                     else if existing \<noteq> []
                     then resolve_delete_candidate h r (last existing) relative_path
                     else Inl (reject MissingPath (Some relative_path))))))"

section \<open>Imports by absolute path\<close>

primrec deepest_existing :: "host \<Rightarrow> native_path \<Rightarrow> nat \<Rightarrow> nat option" where
  "deepest_existing h p 0 = (if path_exists h (p\<lparr>np_names := []\<rparr>) then Some 0 else None)"
| "deepest_existing h p (Suc k) =
     (if path_exists h (p\<lparr>np_names := take (Suc k) (np_names p)\<rparr>) then Some (Suc k)
      else deepest_existing h p k)"

definition canonicalize_existing_prefix :: "host \<Rightarrow> string \<Rightarrow> string option" where
  "canonicalize_existing_prefix h normalized =
     (if list_ex (\<lambda>s. s = dotdot \<or> s = dot) (split_char slash normalized) then None
      else
        (let path = native normalized in
         case deepest_existing h path (length (np_names path)) of
           None \<Rightarrow> None
         | Some k \<Rightarrow>
             (case canonicalize h (path\<lparr>np_names := take k (np_names path)\<rparr>) of
                Inl _ \<Rightarrow> None
              | Inr real \<Rightarrow>
                  Some (normalize_system_path
                    (lossy (path_string (abs_path (real @ drop k (np_names path)))))))))"

definition resolve_absolute_import_candidate ::
  "host \<Rightarrow> string list \<Rightarrow> string option \<Rightarrow> string \<Rightarrow> (string \<times> string) option" where
  "resolve_absolute_import_candidate h dest_roots primary_root raw_path =
     (let normalized = normalize_system_path raw_path;
          r = resolver_new h dest_roots primary_root;
          answer = (\<lambda>c. (re_path (root_at r (tc_root c)), tc_root_relative_path c)) in
      if \<not> is_absolute normalized then None
      else
        or_else (map_option answer (absolute_root_candidate h r normalized))
          (or_else
            (case canonicalize_existing_prefix h normalized of
               Some canonicalized \<Rightarrow>
                 if canonicalized \<noteq> normalized
                 then map_option answer (absolute_root_candidate h r canonicalized)
                 else None
             | None \<Rightarrow> None)
            (map_option answer (cross_machine_suffix_candidate h r normalized))))"

end
