(* ===== verification/Paths_Correct.thy ===== *)
theory Paths_Correct
  imports Paths
begin

text \<open>
  Facts about \<open>Paths\<close>: what a sanitized path is, what a target of the resolver is, and where a
  write through it lands.
\<close>

named_theorems path_simps \<open>the constants of path text unfolded\<close>

lemmas path_consts [path_simps] = slash_def dot_def dotdot_def backslash_def

lemma distinct_slash [simp]: "slash \<noteq> backslash" "backslash \<noteq> slash"
  by (simp_all add: path_simps)

section \<open>Collapsing slashes\<close>

lemma collapse_no_backslash: "backslash \<notin> set (collapse_from b s)"
  by (induction b s rule: collapse_from.induct) (auto simp: path_simps Let_def)

lemma collapse_free:
  "slash \<notin> set x \<Longrightarrow> backslash \<notin> set x \<Longrightarrow> x \<noteq> [] \<Longrightarrow>
   collapse_from b (x @ rest) = x @ collapse_from False rest"
proof (induction x arbitrary: b)
  case Nil
  then show ?case by simp
next
  case (Cons c x)
  then show ?case by (cases x) (auto simp: path_simps Let_def)
qed

declare collapse_from.simps(2) [simp del]

lemma collapse_slash [simp]:
  "collapse_from False (slash # s) = slash # collapse_from True s"
  "collapse_from True (slash # s) = collapse_from True s"
  by (simp_all add: path_simps collapse_from.simps(2))

definition clean_segments :: "string list \<Rightarrow> bool" where
  "clean_segments xs \<longleftrightarrow> (\<forall>x\<in>set xs. x \<noteq> [] \<and> slash \<notin> set x \<and> backslash \<notin> set x)"

lemma collapse_join: "clean_segments xs \<Longrightarrow> collapse_from b (join [slash] xs) = join [slash] xs"
proof (induction xs arbitrary: b)
  case Nil
  then show ?case by simp
next
  case (Cons x xs)
  then have x: "slash \<notin> set x" "backslash \<notin> set x" "x \<noteq> []" and xs: "clean_segments xs"
    by (auto simp: clean_segments_def)
  show ?case
  proof (cases xs)
    case Nil
    with x collapse_free [of x b "[]"] show ?thesis by simp
  next
    case (Cons y ys)
    then have "join [slash] (x # xs) = x @ slash # join [slash] xs"
      by (simp add: join_Cons)
    with Cons.IH [OF xs, of True] collapse_free [OF x] show ?thesis by simp
  qed
qed

section \<open>Sanitized relative paths\<close>

definition clean_rel :: "string \<Rightarrow> bool" where
  "clean_rel rel \<longleftrightarrow> rel \<noteq> [] \<and>
     (\<forall>s\<in>set (split_char slash rel). s \<noteq> [] \<and> s \<noteq> dot \<and> \<not> bad_segment s \<and> backslash \<notin> set s)"

lemma clean_rel_segments: "clean_rel rel \<Longrightarrow> clean_segments (split_char slash rel)"
  by (auto simp: clean_rel_def clean_segments_def dest: split_char_pieces)

lemma clean_rel_join:
  assumes "xs \<noteq> []" and "\<And>x. x \<in> set xs \<Longrightarrow> slash \<notin> set x"
    and "\<And>x. x \<in> set xs \<Longrightarrow> x \<noteq> [] \<and> x \<noteq> dot \<and> \<not> bad_segment x \<and> backslash \<notin> set x"
  shows "clean_rel (join [slash] xs)"
proof -
  have "split_char slash (join [slash] xs) = xs"
    using assms(1,2) by (rule split_char_join)
  moreover have "join [slash] xs \<noteq> []"
    using assms(1,3) by (cases xs; cases "tl xs") auto
  ultimately show ?thesis
    using assms(3) by (simp add: clean_rel_def)
qed

lemma sanitize_clean: "sanitize_relative_path v = Some r \<Longrightarrow> clean_rel r"
proof -
  assume s: "sanitize_relative_path v = Some r"
  let ?n = "trim_start (\<lambda>c. c = slash) (collapse_slashes (ascii_trim v))"
  let ?segs = "filter (\<lambda>s. s \<noteq> [] \<and> s \<noteq> dot) (split_char slash ?n)"
  from s have r: "join [slash] ?segs = r" and ne: "?segs \<noteq> []"
    and ok: "\<And>x. x \<in> set ?segs \<Longrightarrow> \<not> bad_segment x"
    by (auto simp: sanitize_relative_path_def Let_def list_ex_iff split: if_splits)
  have nb: "backslash \<notin> set ?n"
    using set_trim_start collapse_no_backslash by (fastforce simp: collapse_slashes_def)
  show "clean_rel r"
    unfolding r [symmetric]
  proof (rule clean_rel_join)
    show "?segs \<noteq> []" by (rule ne)
    show "slash \<notin> set x" if "x \<in> set ?segs" for x
      using that by (auto dest: split_char_pieces)
    show "x \<noteq> [] \<and> x \<noteq> dot \<and> \<not> bad_segment x \<and> backslash \<notin> set x" if "x \<in> set ?segs" for x
      using that ok [OF that] nb split_char_subset [of x slash ?n] by auto
  qed
qed

lemma clean_rel_hd: "clean_rel r \<Longrightarrow> hd r \<noteq> slash"
  by (cases r) (auto simp: clean_rel_def)

lemma bad_char_colon: "bad_char CHR '':''"
  by (simp add: bad_char_def)

lemma clean_rel_no_bad: "clean_rel r \<Longrightarrow> c \<in> set r \<Longrightarrow> \<not> bad_char c"
proof
  assume clean: "clean_rel r" and c: "c \<in> set r" and bad: "bad_char c"
  have "c \<in> (\<Union>x\<in>set (split_char slash r). set x) \<union> {slash}"
    using c set_join [of "[slash]" "split_char slash r"] by auto
  moreover have "c \<noteq> slash" using bad by (auto simp: bad_char_def slash_def bval_def)
  ultimately obtain x where "x \<in> set (split_char slash r)" "c \<in> set x" by auto
  with clean bad show False by (auto simp: clean_rel_def bad_segment_def list_ex_iff)
qed

lemma clean_rel_not_absolute: "clean_rel r \<Longrightarrow> \<not> is_absolute r"
proof -
  assume r: "clean_rel r"
  have "\<not> has_drive r"
    using clean_rel_no_bad [OF r, of "CHR '':''"] bad_char_colon
    by (cases r rule: has_drive.cases) auto
  with clean_rel_hd [OF r] show ?thesis
    by (auto simp: is_absolute_def has_drive_slash_def slash_def)
qed

lemma length_join_filter: "length (join [c] (filter P xs)) \<le> length (join [c] xs)"
proof (induction xs)
  case Nil
  then show ?case by simp
next
  case (Cons x xs)
  then show ?case
    by (cases "filter P xs = []"; cases "xs = []") (auto simp: join_Cons)
qed

lemma length_collapse_slashes: "length (collapse_from b s) \<le> length s"
  by (induction b s rule: collapse_from.induct) (auto simp: Let_def collapse_from.simps(2))

lemma length_trim_start: "length (trim_start P s) \<le> length s"
  by (simp add: trim_start_def length_dropWhile_le)

lemma length_trim_end: "length (trim_end P s) \<le> length s"
  by (simp add: trim_end_def) (metis length_dropWhile_le length_rev)

lemma trim_matches_same_length:
  assumes "length s \<le> length (trim_matches P s)"
  shows "trim_matches P s = s"
proof -
  obtain a where a: "s = a @ trim_start P s" using trim_start_suffix [of s P] by auto
  obtain b where b: "trim_start P s = trim_end P (trim_start P s) @ b"
    using trim_end_prefix [of "trim_start P s" P] by auto
  have "length s = length a + length (trim_start P s)" using a by (metis length_append)
  moreover have "length (trim_start P s) = length (trim_matches P s) + length b"
    using b by (metis length_append trim_matches_def)
  ultimately have "a = []" "b = []" using assms by auto
  with a b show ?thesis by (metis append_Nil append_Nil2 trim_matches_def)
qed

lemma sanitize_length:
  "sanitize_relative_path v = Some r \<Longrightarrow> length r \<le> length (ascii_trim v)"
proof -
  assume s: "sanitize_relative_path v = Some r"
  let ?n = "trim_start (\<lambda>c. c = slash) (collapse_slashes (ascii_trim v))"
  from s have "r = join [slash] (filter (\<lambda>s. s \<noteq> [] \<and> s \<noteq> dot) (split_char slash ?n))"
    by (auto simp: sanitize_relative_path_def Let_def split: if_splits)
  then have "length r \<le> length (join [slash] (split_char slash ?n))"
    by (metis length_join_filter)
  also have "\<dots> \<le> length (collapse_slashes (ascii_trim v))"
    by (simp add: length_trim_start)
  also have "\<dots> \<le> length (ascii_trim v)"
    by (simp add: collapse_slashes_def length_collapse_slashes)
  finally show ?thesis .
qed

lemma exportable_iff:
  "is_exportable_relative_path value \<longleftrightarrow> clean_rel value \<and> ascii_trim value = value"
proof
  assume e: "is_exportable_relative_path value"
  then have s: "sanitize_relative_path value = Some value"
    by (simp add: is_exportable_relative_path_def)
  then have clean: "clean_rel value" by (rule sanitize_clean)
  from sanitize_length [OF s] have "ascii_trim value = value"
    by (simp add: ascii_trim_def trim_matches_same_length)
  with clean show "clean_rel value \<and> ascii_trim value = value" by simp
next
  assume a: "clean_rel value \<and> ascii_trim value = value"
  then have clean: "clean_rel value" by simp
  have c: "collapse_slashes value = value"
    using collapse_join [OF clean_rel_segments [OF clean], of False]
    by (simp add: collapse_slashes_def)
  have t: "trim_start (\<lambda>c. c = slash) value = value"
    using clean_rel_hd [OF clean] by (simp add: trim_start_id)
  have f: "filter (\<lambda>s. s \<noteq> [] \<and> s \<noteq> dot) (split_char slash value) = split_char slash value"
    using clean by (simp add: clean_rel_def filter_id_conv)
  have b: "\<not> list_ex bad_segment (split_char slash value)"
    using clean by (auto simp: clean_rel_def list_ex_iff)
  have "value \<noteq> []" using clean by (simp add: clean_rel_def)
  with a c t f b clean_rel_not_absolute [OF clean] show "is_exportable_relative_path value"
    by (simp add: is_exportable_relative_path_def sanitize_relative_path_def)
qed

section \<open>Native paths of joined paths\<close>

definition below :: "native_path \<Rightarrow> string list \<Rightarrow> native_path" where
  "below p segs = p\<lparr>np_names := np_names p @ segs\<rparr>"

lemma below_Nil [simp]: "below p [] = p"
  by (simp add: below_def)

text \<open>The names a relative path of a candidate stands for.\<close>

definition rel_names :: "string \<Rightarrow> string list" where
  "rel_names rel = (if rel = [] then [] else split_char slash rel)"

definition plain_names :: "string list \<Rightarrow> bool" where
  "plain_names names \<longleftrightarrow> (\<forall>c\<in>set names. c \<noteq> dot \<and> c \<noteq> dotdot)"

lemma clean_rel_plain: "clean_rel rel \<Longrightarrow> plain_names (rel_names rel)"
  by (auto simp: clean_rel_def plain_names_def rel_names_def bad_segment_def)

lemma clean_rel_filter:
  "clean_rel rel \<Longrightarrow> filter (\<lambda>s. s \<noteq> [] \<and> s \<noteq> dot) (split_char slash rel) = split_char slash rel"
  by (simp add: clean_rel_def filter_id_conv)

lemma components_join_slash:
  assumes "root \<noteq> []" and "clean_rel rel"
  shows "components (root @ slash # rel) = below (components root) (rel_names rel)"
proof -
  have "starts_with ''/'' (root @ slash # rel) = starts_with ''/'' root"
    using assms(1) by (cases root) auto
  moreover have "hd (split_char slash (root @ slash # rel)) = hd (split_char slash root)"
    by (simp add: split_char_append)
  ultimately show ?thesis
    using assms(2)
    by (simp add: components_def Let_def below_def split_char_append clean_rel_filter
        rel_names_def clean_rel_def [of rel] del: starts_with_single)
qed

lemma components_trailing_slash: "root \<noteq> [] \<Longrightarrow> components (root @ [slash]) = components root"
proof -
  assume "root \<noteq> []"
  then have "starts_with ''/'' (root @ [slash]) = starts_with ''/'' root"
    by (cases root) auto
  moreover have "split_char slash (root @ [slash]) = split_char slash root @ [[]]"
    using split_char_append [of slash root "[]"] by simp
  ultimately show ?thesis
    by (simp add: components_def Let_def del: starts_with_single)
qed

lemma components_slash: "components [slash] = abs_path []"
  by (simp add: components_def abs_path_def slash_def)

lemma components_absolute_Cons: "clean_rel rel \<Longrightarrow> components (slash # rel) = abs_path (rel_names rel)"
  by (simp add: components_def abs_path_def rel_names_def clean_rel_filter Let_def clean_rel_def [of rel])
    (simp add: slash_def)

lemma native_join:
  assumes "root \<noteq> []" and "rel = [] \<or> clean_rel rel"
  shows "native (join_str root rel) = below (native root) (rel_names rel)"
proof (cases "rel = []")
  case True
  then show ?thesis by (simp add: join_str_def rel_names_def)
next
  case False
  with assms have clean: "clean_rel rel" by simp
  show ?thesis
  proof (cases "ends_with ''/'' root")
    case True
    then obtain r where r: "root = r @ [slash]"
      by (auto simp: ends_with_iff slash_def)
    show ?thesis
    proof (cases "r = []")
      case True
      with r clean False show ?thesis
        by (simp add: join_str_def native_def components_absolute_Cons components_slash below_def
            abs_path_def del: ends_with_single) (simp add: slash_def)
    next
      case False
      with r clean \<open>rel \<noteq> []\<close> True show ?thesis
        by (simp add: join_str_def native_def components_join_slash components_trailing_slash
            del: ends_with_single)
    qed
  next
    case False
    then have "join_str root rel = root @ slash # rel"
      using \<open>rel \<noteq> []\<close> by (simp add: join_str_def slash_def)
    then show ?thesis
      by (simp add: native_def components_join_slash [OF assms(1) clean])
  qed
qed

lemma native_not_empty: "root \<noteq> [] \<Longrightarrow> np_absolute (native root) \<or> np_names (native root) \<noteq> []"
proof (cases root)
  case (Cons c cs)
  then show ?thesis
    by (auto simp: native_def components_def Let_def slash_def)
qed simp

lemma fold_push_plain:
  "plain_names names \<Longrightarrow> foldl push_component out names = out @ names"
  by (induction names arbitrary: out) (auto simp: plain_names_def push_component_def)

lemma plain_push: "plain_names out \<Longrightarrow> plain_names (push_component out c)"
  by (auto simp: plain_names_def push_component_def dest: in_set_butlastD)

lemma plain_fold_push: "plain_names out \<Longrightarrow> plain_names (foldl push_component out names)"
  by (induction names arbitrary: out) (auto intro: plain_push)

lemma absolutize_plain: "plain_names (np_names (absolutize h p))"
  by (simp add: absolutize_def Let_def plain_fold_push plain_names_def [of "[]"])

lemma absolutize_below:
  assumes "np_absolute p \<or> np_names p \<noteq> []" and "plain_names segs"
  shows "absolutize h (below p segs) = below (absolutize h p) segs"
  using assms
  by (auto simp: absolutize_def absolute_names_def below_def Let_def abs_path_def fold_push_plain
      split: option.splits)

lemma absolutize_join:
  assumes "root \<noteq> []" and "rel = [] \<or> clean_rel rel"
  shows "absolutize h (native (join_str root rel)) =
    below (absolutize h (native root)) (rel_names rel)"
proof -
  have "plain_names (rel_names rel)"
    using assms(2) by (auto simp: clean_rel_plain) (simp add: rel_names_def plain_names_def)
  then show ?thesis
    by (simp add: native_join [OF assms] absolutize_below [OF native_not_empty [OF assms(1)]])
qed

lemma absolutize_absolute:
  "np_absolute p \<Longrightarrow> plain_names (np_names p) \<Longrightarrow> absolutize h p = p"
  by (simp add: absolutize_def absolute_names_def abs_path_def fold_push_plain)

lemma absolutize_idem [simp]: "absolutize h (absolutize h p) = absolutize h p"
proof (cases "np_absolute (absolutize h p)")
  case True
  then show ?thesis by (rule absolutize_absolute [OF _ absolutize_plain])
next
  case False
  let ?q = "absolutize h p"
  from False have q: "np_names ?q = [] \<or> host_cwd h = None"
    by (auto simp: absolutize_def absolute_names_def Let_def abs_path_def split: option.splits)
  have "absolutize h ?q = \<lparr>np_absolute = np_absolute ?q, np_names = foldl push_component [] (np_names ?q)\<rparr>"
    using False q by (auto simp: absolutize_def [of h ?q] absolute_names_def Let_def)
  then show ?thesis
    by (simp add: fold_push_plain [OF absolutize_plain])
qed

lemma containment_target_absolutize:
  "containment_target h (absolutize h p) n = containment_target h p n"
  by (subst (1 2) containment_target.simps) simp

lemma escapes_absolutize:
  "escapes_all_roots h roots (absolutize h p) = escapes_all_roots h roots p"
  by (simp add: escapes_all_roots_def containment_target_absolutize)

section \<open>Where a checked path lands\<close>

lemma walk_snoc:
  assumes "walk h links cur ps = Inr d" and "lookup_node h d = Some Directory" and "plain_name c"
    and "\<And>t. lookup_node h (d @ [c]) \<noteq> Some (Symlink t)"
  shows "walk h links cur (ps @ [c]) =
    (if lookup_node h (d @ [c]) = None then Inl NotFound else Inr (d @ [c]))"
  using assms
proof (induction h links cur ps rule: walk.induct)
  case (1 h links cur)
  show ?case
  proof (cases "lookup_node h (d @ [c])")
    case None
    with "1.prems" show ?thesis by (simp add: plain_name_def walk.simps)
  next
    case (Some n)
    with "1.prems" show ?thesis by (cases n) (auto simp: plain_name_def walk.simps)
  qed
next
  case (2 h links cur x xs)
  note prems = "2.prems"
  consider "x = [] \<or> x = dot" | "x = dotdot" | "plain_name x"
    by (auto simp: plain_name_def)
  then show ?case
  proof cases
    case 1
    have s: "walk h links cur (x # ys) = walk h links cur ys" for ys
      using 1 by (simp only: walk.simps if_True)
    from prems(1) have w: "walk h links cur xs = Inr d" by (simp only: s)
    from "2.IH"(1) [OF 1 w prems(2-4)] show ?thesis by (simp only: s append_Cons)
  next
    case 2
    then have n: "\<not> (x = [] \<or> x = dot)" by (simp add: dot_def dotdot_def)
    have s: "walk h links cur (x # ys) = walk h links (butlast cur) ys" for ys
      using 2 n by (simp only: walk.simps if_True if_False simp_thms)
    from prems(1) have w: "walk h links (butlast cur) xs = Inr d" by (simp only: s)
    from "2.IH"(2) [OF n 2 w prems(2-4)] show ?thesis by (simp only: s append_Cons)
  next
    case 3
    then have n: "\<not> (x = [] \<or> x = dot)" "x \<noteq> dotdot" by (simp_all add: plain_name_def)
    have s: "walk h links cur (x # ys) = (case lookup_node h (cur @ [x]) of
        None \<Rightarrow> Inl NotFound
      | Some Directory \<Rightarrow> walk h links (cur @ [x]) ys
      | Some (Symlink t) \<Rightarrow>
          if links = 0 then Inl TooManyLinks
          else if np_absolute (components t)
            then walk h (links - 1) [] (np_names (components t) @ ys)
            else walk h (links - 1) cur (np_names (components t) @ ys)
      | Some _ \<Rightarrow> if ys = [] then Inr (cur @ [x]) else Inl NotADirectory)" for ys
      using n by (simp only: walk.simps if_False)
    show ?thesis
    proof (cases "lookup_node h (cur @ [x])")
      case None
      with prems(1) show ?thesis by (simp add: s)
    next
      case (Some m)
      show ?thesis
      proof (cases m)
        case Directory
        with Some have l: "lookup_node h (cur @ [x]) = Some Directory" by simp
        from prems have w: "walk h links (cur @ [x]) xs = Inr d" by (simp add: s l)
        from "2.IH"(3) [OF n l refl w prems(2-4)] show ?thesis
          by (simp only: s l append_Cons option.case node.case)
      next
        case (Symlink t)
        with Some have l: "lookup_node h (cur @ [x]) = Some (Symlink t)" by simp
        from prems(1) have z: "links \<noteq> 0" by (auto simp: s l split: if_splits)
        show ?thesis
        proof (cases "np_absolute (components t)")
          case True
          from prems(1) z True have w: "walk h (links - 1) [] (np_names (components t) @ xs) = Inr d"
            by (simp add: s l)
          from "2.IH"(4) [OF n l refl z True w prems(2-4)] z True show ?thesis
            by (simp add: s l)
        next
          case False
          from prems(1) z False have w: "walk h (links - 1) cur (np_names (components t) @ xs) = Inr d"
            by (simp add: s l)
          from "2.IH"(5) [OF n l refl z False w prems(2-4)] z False show ?thesis
            by (simp add: s l)
        qed
      qed (use prems(1,2) Some in \<open>auto simp: s split: if_splits\<close>)
    qed
  qed
qed

lemma walk_real_self: "walk h links cur ps = Inr d \<Longrightarrow> real_dir h cur \<Longrightarrow> walk h n [] d = Inr d"
  using walk_append_real [of h "[]" d n] walk_real [of h links cur ps d] by simp

lemma symlink_metadata_real:
  assumes "walk h n [] d = Inr d" and "lookup_node h d = Some Directory" and "plain_name c"
    and "n = host_max_links h"
  shows "symlink_metadata h (abs_path (d @ [c])) =
    (case lookup_node h (d @ [c]) of None \<Rightarrow> Inl NotFound | Some m \<Rightarrow> Inr m)"
  using assms by (simp add: symlink_metadata_def entry_of_def absolute_names_def abs_path_def)

lemma entry_of_absolutized:
  "entry_of h (absolutize h p) = Inr e \<Longrightarrow> np_absolute (absolutize h p)"
  by (auto simp: entry_of_def absolute_names_def absolutize_def Let_def abs_path_def
      split: option.splits if_splits)

text \<open>
  The containment check looks at the very directory entry a path names, unless that entry is a
  symbolic link.
\<close>

lemma containment_target_entry:
  assumes entry: "entry_of h (absolutize h p) = Inr e"
    and link: "\<And>t. lookup_node h e \<noteq> Some (Symlink t)"
  shows "containment_target h p 0 = Some (abs_path e)"
proof -
  define t where "t = absolutize h p"
  define ns where "ns = np_names t"
  have ab: "np_absolute t" using entry_of_absolutized [OF entry] by (simp add: t_def)
  then have t: "t = abs_path ns" by (simp add: ns_def abs_path_def)
  have cu: "containment_target h p 0 = containment_target h t 0"
    by (simp add: t_def containment_target_absolutize)
  have self: "absolutize h t = t" by (simp add: t_def)
  have canon: "canonicalize h t = walk h (host_max_links h) [] ns"
    by (simp add: canonicalize_def absolute_names_def t abs_path_def)
  show ?thesis
  proof (cases "ns = [] \<or> \<not> plain_name (last ns)")
    case True
    with entry canon have "canonicalize h t = Inr e"
      by (simp add: entry_of_def absolute_names_def t_def [symmetric] t abs_path_def)
    with self show ?thesis
      unfolding cu by (subst containment_target.simps) simp
  next
    case False
    with entry obtain d where d: "walk h (host_max_links h) [] (butlast ns) = Inr d"
      and dir: "lookup_node h d = Some Directory" and e: "e = d @ [last ns]"
      unfolding t_def [symmetric] t
      by (auto simp: entry_of_def absolute_names_def abs_path_def split: sum.splits if_splits)
    have plain: "plain_name (last ns)" and snoc: "ns = butlast ns @ [last ns]"
      using False by auto
    show ?thesis
    proof (cases "lookup_node h e")
      case (Some n)
      have "canonicalize h t = Inr e"
        using walk_snoc [OF d dir plain] Some link canon snoc e by (metis option.distinct(1))
      with self show ?thesis
        unfolding cu by (subst containment_target.simps) simp
    next
      case None
      have miss: "canonicalize h t = Inl NotFound"
        using walk_snoc [OF d dir plain] None link canon snoc e by metis
      obtain k where k: "length ns = Suc k" and tk: "take k ns = butlast ns" and dk: "drop k ns = [last ns]"
        using False by (cases ns rule: rev_cases) auto
      have anc: "existing_ancestor h t (length (np_names t)) = Some (k, d)"
        using d by (simp add: t abs_path_def k tk canonicalize_def absolute_names_def)
      have sm: "symlink_metadata h (abs_path (d @ [last ns])) = Inl NotFound"
        using symlink_metadata_real [OF walk_real_self [OF d real_dir_Nil] dir plain refl] None e
        by simp
      show ?thesis
        unfolding cu using self miss anc sm
        by (subst containment_target.simps) (simp add: dk e t abs_path_def Let_def)
    qed
  qed
qed

lemma not_escaping_contained:
  assumes "\<not> escapes_all_roots h roots (absolutize h p)"
    and "entry_of h (absolutize h p) = Inr e"
    and "\<And>t. lookup_node h e \<noteq> Some (Symlink t)"
  shows "\<exists>root\<in>set roots. is_contained (abs_path e) (real_or_self h root)"
proof -
  from containment_target_entry [OF assms(2,3)] have "containment_target h p 0 = Some (abs_path e)" .
  with assms(1) show ?thesis
    unfolding escapes_all_roots_def containment_target_absolutize by (auto simp: list_ex_iff)
qed

section \<open>The resolver\<close>

lemma distinct_by_subset: "set (distinct_by key xs) \<subseteq> set xs"
  by (simp add: distinct_by_def set_distinct_by_from)

lemma non_empty_Some [simp]: "non_empty s = Some x \<longleftrightarrow> s = Some x \<and> x \<noteq> []"
  by (auto simp: non_empty_def)

lemma all_root_paths_not_empty:
  assumes "p \<in> set (all_root_paths h roots primary)"
  shows "p \<noteq> []"
proof -
  have n: "q \<noteq> []" if "q \<in> set (normalized_roots h roots)" for q
  proof -
    from that have "q \<in> set (filter (\<lambda>r. r \<noteq> []) (map (\<lambda>r. normalize_system_path (lossy r)) roots))"
      unfolding normalized_roots_def by (rule subsetD [OF distinct_by_subset])
    then show ?thesis by (simp only: set_filter mem_Collect_eq simp_thms)
  qed
  have np: "q \<noteq> []" if "normalized_primary h roots primary = Some q" for q
    using that by (simp only: normalized_primary_def Let_def non_empty_Some) simp
  from assms have "p \<in> set ((case normalized_primary h roots primary of None \<Rightarrow> [] | Some q \<Rightarrow> [q]) @
      normalized_roots h roots)"
    unfolding all_root_paths_def by (rule subsetD [OF distinct_by_subset])
  then show ?thesis
    using n np by (cases "normalized_primary h roots primary") auto
qed

text \<open>What every resolver satisfies.\<close>

definition root_ok :: "path_resolver \<Rightarrow> root_entry \<Rightarrow> bool" where
  "root_ok r e \<longleftrightarrow> re_path e \<noteq> [] \<and>
     (\<forall>l. re_clipboard_label e = Some l \<longrightarrow> l \<noteq> [] \<and> slash \<notin> set l \<and> \<not> re_is_primary e \<and>
        (\<not> re_has_ambiguous_label e \<longrightarrow> l \<notin> pr_primary_reserved_labels r))"

definition resolver_ok :: "path_resolver \<Rightarrow> bool" where
  "resolver_ok r \<longleftrightarrow> (\<forall>e\<in>set (pr_ordered_roots r). root_ok r e) \<and>
     (\<forall>i. pr_primary_root r = Some i \<longrightarrow> i < length (pr_ordered_roots r))"

lemma basename_no_slash: "slash \<notin> set (basename p)"
proof -
  have "slash \<notin> set (last (split_char slash s))" for s
    by (rule split_char_pieces [OF last_in_set [OF split_char_not_Nil]])
  then show ?thesis by (simp add: basename_def)
qed

lemma first_position_less: "first_position P xs = Some i \<Longrightarrow> i < length xs"
proof (induction xs arbitrary: i)
  case Nil
  then show ?case by (simp add: first_position_def)
next
  case (Cons x xs)
  then show ?case by (cases "P x") (auto simp: first_position_def split: if_splits)
qed

lemma resolver_new_ok: "resolver_ok (resolver_new h roots primary)"
proof -
  have "root_ok (resolver_new h roots primary) e"
    if "e \<in> set (pr_ordered_roots (resolver_new h roots primary))" for e
  proof -
    from that obtain p where p: "p \<in> set (all_root_paths h roots primary)"
      and e: "e = root_entry_of h roots primary p"
      by (auto simp: resolver_new_def Let_def)
    from all_root_paths_not_empty [OF p] basename_no_slash show ?thesis
      by (auto simp: e root_ok_def root_entry_of_def resolver_new_def Let_def split: if_splits)
  qed
  then show ?thesis
    by (auto simp: resolver_ok_def resolver_new_def Let_def
        split: option.splits if_splits dest: first_position_less)
qed

lemma distinct_by_Nil [simp]: "distinct_by key xs = [] \<longleftrightarrow> xs = []"
  by (cases xs) (simp_all add: distinct_by_def)

text \<open>A candidate names one of the roots and a sanitized path below it.\<close>

definition cand_ok :: "path_resolver \<Rightarrow> target_candidate \<Rightarrow> bool" where
  "cand_ok r c \<longleftrightarrow> tc_root c < length (pr_ordered_roots r) \<and>
     tc_target c = join_str (re_path (root_at r (tc_root c))) (tc_root_relative_path c) \<and>
     (tc_root_relative_path c = [] \<or> clean_rel (tc_root_relative_path c))"

lemma candidate_ok:
  "i < length (pr_ordered_roots r) \<Longrightarrow> rel = [] \<or> clean_rel rel \<Longrightarrow> cand_ok r (candidate r i rel)"
  by (simp add: cand_ok_def candidate_def)

lemma tc_rel_candidate [simp]: "tc_root_relative_path (candidate r i rel) = rel"
  by (simp add: candidate_def)

lemma in_enumerated: "(i, e) \<in> set (enumerated r) \<longleftrightarrow>
    i < length (pr_ordered_roots r) \<and> e = root_at r i"
  by (auto simp: enumerated_def set_zip root_at_def intro!: exI [of _ i])

lemma in_others: "(i, e) \<in> set (others r) \<longleftrightarrow>
    i < length (pr_ordered_roots r) \<and> e = root_at r i \<and> Some i \<noteq> pr_primary_root r"
  by (auto simp: others_def in_enumerated)

lemma find_map_Some: "find_map f xs = Some y \<Longrightarrow> \<exists>x\<in>set xs. f x = Some y"
  by (induction xs) (auto split: option.splits)

lemma relativize_clean: "relativize_path h p root = Some rel \<Longrightarrow> rel = [] \<or> clean_rel rel"
  by (auto simp: relativize_path_def Let_def split: if_splits dest: sanitize_clean)

lemma absolute_root_candidate_ok: "absolute_root_candidate h r raw = Some c \<Longrightarrow> cand_ok r c"
  by (auto simp: absolute_root_candidate_def Let_def in_enumerated
      split: if_splits dest!: find_map_Some intro!: candidate_ok relativize_clean)

lemma literal_absolute_candidate_ok:
  "resolver_ok r \<Longrightarrow> literal_absolute_candidate r raw = Some c \<Longrightarrow> cand_ok r c"
  by (auto simp: literal_absolute_candidate_def Let_def resolver_ok_def
      split: if_splits option.splits intro!: candidate_ok dest: sanitize_clean)

lemma suffix_candidates_ok: "c \<in> set (suffix_candidates h r segs windows) \<Longrightarrow> cand_ok r c"
  by (auto simp: suffix_candidates_def in_enumerated map_filter_def Let_def
      split: if_splits intro!: candidate_ok dest: sanitize_clean)

lemma suffix_candidate_sanitized:
  "c \<in> set (suffix_candidates h r segs windows) \<Longrightarrow> clean_rel (tc_root_relative_path c)"
  by (auto simp: suffix_candidates_def map_filter_def Let_def
      split: if_splits dest: sanitize_clean)

lemma cross_machine_suffix_candidate_in:
  assumes "cross_machine_suffix_candidate h r raw = Some c"
  shows "\<exists>segs windows. c \<in> set (suffix_candidates h r segs windows)"
proof -
  from assms obtain segs windows where
    one: "length (remdups (map (\<lambda>c. path_key h (tc_target c)) (suffix_candidates h r segs windows))) = 1"
    and c: "c = (case find (\<lambda>c. re_is_primary (root_at r (tc_root c))) (suffix_candidates h r segs windows) of
        Some c \<Rightarrow> c | None \<Rightarrow> hd (suffix_candidates h r segs windows))"
    unfolding cross_machine_suffix_candidate_def Let_def
    by (metis (no_types, lifting) option.distinct(1) option.inject)
  from one have "suffix_candidates h r segs windows \<noteq> []" by auto
  then have "c \<in> set (suffix_candidates h r segs windows)"
    unfolding c by (auto split: option.split dest: find_Some_iff [THEN iffD1])
  then show ?thesis by auto
qed

lemma cross_machine_suffix_candidate_ok:
  "cross_machine_suffix_candidate h r raw = Some c \<Longrightarrow> cand_ok r c"
  by (metis cross_machine_suffix_candidate_in suffix_candidates_ok)

text \<open>The relative path of a foreign path may carry a root's label.\<close>

definition labelled_rel :: "path_resolver \<Rightarrow> string \<Rightarrow> bool" where
  "labelled_rel r rp \<longleftrightarrow> (\<exists>i label rest. i < length (pr_ordered_roots r) \<and>
     re_clipboard_label (root_at r i) = Some label \<and> \<not> re_has_ambiguous_label (root_at r i) \<and>
     rp = label @ slash # rest \<and> clean_rel rest)"

lemma labelled_rel_intro:
  "i < length (pr_ordered_roots r) \<Longrightarrow> rel \<noteq> [] \<Longrightarrow> clean_rel rel \<Longrightarrow>
   labelled (root_at r i) rel = Some p \<Longrightarrow> labelled_rel r p"
  by (auto simp: labelled_def labelled_rel_def slash_def split: option.splits if_splits)

lemma cross_machine_suffix_relative_path_shape:
  assumes "cross_machine_suffix_relative_path h r p = Some rp"
  shows "clean_rel rp \<or> labelled_rel r rp"
proof -
  from assms obtain w where w: "cross_machine_suffix_candidate h r p = Some w"
    by (auto simp: cross_machine_suffix_relative_path_def split: option.splits)
  then have ok: "tc_root w < length (pr_ordered_roots r)" and clean: "clean_rel (tc_root_relative_path w)"
    using cross_machine_suffix_candidate_ok cross_machine_suffix_candidate_in suffix_candidate_sanitized
    by (auto simp: cand_ok_def) blast
  show ?thesis
    using assms w ok clean
    by (fastforce simp: cross_machine_suffix_relative_path_def labelled_rel_def slash_def Let_def
        split: option.splits if_splits)
qed

lemma to_relative_shape:
  assumes "to_relative_project_path h r raw = Some rp"
  shows "clean_rel rp \<or> labelled_rel r rp"
proof -
  have other: "clean_rel rp \<or> labelled_rel r rp"
    if "find_map (\<lambda>(_, root).
          (case non_empty (relativize_path h n (re_path root)) of
             None \<Rightarrow> None
           | Some rel \<Rightarrow> Some (case labelled root rel of Some path \<Rightarrow> path | None \<Rightarrow> rel)))
        (others r) = Some rp" for n
    using find_map_Some [OF that]
    by (auto simp: in_others split: option.splits dest!: relativize_clean intro: labelled_rel_intro)
  from assms show ?thesis
    unfolding to_relative_project_path_def Let_def
    by (auto split: if_splits option.splits simp del: non_empty_Some
        dest: sanitize_clean other cross_machine_suffix_relative_path_shape)
      (auto dest: relativize_clean)
qed

lemma clean_rel_rest:
  assumes "clean_rel (first @ slash # rest)" and "rest \<noteq> []"
  shows "clean_rel rest"
  using assms by (simp add: clean_rel_def split_char_append)

lemma explicit_ok:
  assumes r: "resolver_ok r" and shape: "clean_rel rp \<or> labelled_rel r rp"
    and c: "c \<in> set (explicit_root_label_candidates h r rp)"
  shows "cand_ok r c"
proof -
  from c obtain first rest where s: "split_once slash rp = Some (first, rest)" and ne: "rest \<noteq> []"
    by (cases "split_once slash rp")
      (auto simp: explicit_root_label_candidates_def split: if_splits)
  from s have rp: "rp = first @ slash # rest" and free: "slash \<notin> set first"
    by (simp_all add: split_once_Some)
  have unique: "label = first" "rest' = rest"
    if "rp = label @ slash # rest'" "slash \<notin> set label" for label rest'
  proof -
    from that have "split_once slash rp = Some (label, rest')"
      by (simp add: split_once_Some)
    with s show "label = first" "rest' = rest" by simp_all
  qed
  have clean: "clean_rel rest" and reserved: "first \<in> pr_primary_reserved_labels r \<Longrightarrow> clean_rel rp"
  proof -
    have "clean_rel rest \<and> (first \<in> pr_primary_reserved_labels r \<longrightarrow> clean_rel rp)"
    proof (cases "clean_rel rp")
      case True
      with rp ne clean_rel_rest show ?thesis by auto
    next
      case False
      with shape obtain i label rest' where i: "i < length (pr_ordered_roots r)"
        and l: "re_clipboard_label (root_at r i) = Some label" "\<not> re_has_ambiguous_label (root_at r i)"
        and rp': "rp = label @ slash # rest'" "clean_rel rest'"
        by (auto simp: labelled_rel_def)
      from r i have "root_ok r (root_at r i)" by (simp add: resolver_ok_def root_at_def)
      with l have "slash \<notin> set label" "label \<notin> pr_primary_reserved_labels r"
        by (simp_all add: root_ok_def)
      with unique [OF rp'(1)] rp'(2) show ?thesis by simp
    qed
    then show "clean_rel rest" "first \<in> pr_primary_reserved_labels r \<Longrightarrow> clean_rel rp"
      by simp_all
  qed
  let ?cs = "(if first \<in> pr_primary_reserved_labels r
      then (case pr_primary_root r of Some p \<Rightarrow> [candidate r p rp] | None \<Rightarrow> []) else []) @
      map (\<lambda>(i, _). candidate r i rest)
        (filter (\<lambda>(i, root). re_clipboard_label root = Some first) (enumerated r))"
  from c s have "c \<in> set (distinct_by (\<lambda>c. path_key h (tc_target c)) ?cs)"
    by (simp add: explicit_root_label_candidates_def split: if_splits)
  then have "c \<in> set ?cs" by (rule subsetD [OF distinct_by_subset])
  then consider p where "first \<in> pr_primary_reserved_labels r" "pr_primary_root r = Some p"
      "c = candidate r p rp"
    | i where "i < length (pr_ordered_roots r)" "c = candidate r i rest"
    by (cases "first \<in> pr_primary_reserved_labels r"; cases "pr_primary_root r")
      (auto simp: in_enumerated)
  then show ?thesis
    using clean reserved r by cases (simp_all add: candidate_ok resolver_ok_def)
qed

lemma explicit_empty_clean:
  assumes r: "resolver_ok r" and shape: "clean_rel rp \<or> labelled_rel r rp"
    and none: "explicit_root_label_candidates h r rp = []"
  shows "clean_rel rp"
proof (rule ccontr)
  assume "\<not> clean_rel rp"
  with shape obtain i label rest where i: "i < length (pr_ordered_roots r)"
    and l: "re_clipboard_label (root_at r i) = Some label"
    and rp: "rp = label @ slash # rest" "clean_rel rest"
    by (auto simp: labelled_rel_def)
  from r i have "root_ok r (root_at r i)" by (simp add: resolver_ok_def root_at_def)
  with l have free: "slash \<notin> set label" "label \<noteq> []" by (simp_all add: root_ok_def)
  from rp free have s: "split_once slash rp = Some (label, rest)" by (simp add: split_once_Some)
  have "(i, root_at r i) \<in> set (filter (\<lambda>(i, root). re_clipboard_label root = Some label) (enumerated r))"
    using i l by (simp add: in_enumerated)
  then have "filter (\<lambda>(i, root). re_clipboard_label root = Some label) (enumerated r) \<noteq> []"
    by (metis empty_iff empty_set)
  with none s free rp(2) show False
    by (simp add: explicit_root_label_candidates_def clean_rel_def split: if_splits)
qed

lemma legacy_ok:
  assumes "resolver_ok r" and "clean_rel rp" and c: "c \<in> set (legacy_target_candidates h r rp)"
  shows "cand_ok r c \<and> tc_root_relative_path c = rp"
proof -
  from c have "c \<in> set (map (\<lambda>i. candidate r i rp)
      ((case pr_primary_root r of Some p \<Rightarrow> [p] | None \<Rightarrow> []) @ map fst (others r)))"
    unfolding legacy_target_candidates_def by (rule subsetD [OF distinct_by_subset])
  with assms(1,2) show ?thesis
    by (auto simp: in_others resolver_ok_def split: option.splits intro!: candidate_ok)
qed

text \<open>What a resolved target promises.\<close>

definition target_ok :: "host \<Rightarrow> path_resolver \<Rightarrow> resolved_target \<Rightarrow> bool" where
  "target_ok h r t \<longleftrightarrow>
     (\<exists>root\<in>set (pr_ordered_roots r).
        (rt_relative_path t = [] \<or> clean_rel (rt_relative_path t)) \<and>
        \<not> has_git_segment (rt_relative_path t) \<and>
        rt_root_path t = absolutize h (native (re_path root)) \<and>
        rt_absolute_path t = below (rt_root_path t) (rel_names (rt_relative_path t)) \<and>
        \<not> escapes_all_roots h (map (\<lambda>e. native (re_path e)) (pr_ordered_roots r))
          (rt_absolute_path t))"

lemma resolved_ok:
  assumes r: "resolver_ok r" and c: "cand_ok r c" and "\<not> escapes h r (tc_target c)"
    and "\<not> has_git_segment (tc_root_relative_path c)"
  shows "target_ok h r (resolved h r c (tc_root_relative_path c) e)"
proof -
  let ?root = "root_at r (tc_root c)"
  from c have root: "?root \<in> set (pr_ordered_roots r)" by (simp add: cand_ok_def root_at_def)
  with r have ne: "re_path ?root \<noteq> []" by (auto simp: resolver_ok_def root_ok_def)
  from c have rel: "tc_root_relative_path c = [] \<or> clean_rel (tc_root_relative_path c)"
    and t: "tc_target c = join_str (re_path ?root) (tc_root_relative_path c)"
    by (auto simp: cand_ok_def)
  have "absolutize h (native (tc_target c)) =
      below (absolutize h (native (re_path ?root))) (rel_names (tc_root_relative_path c))"
    unfolding t by (rule absolutize_join [OF ne rel])
  moreover have "\<not> escapes_all_roots h (map (\<lambda>e. native (re_path e)) (pr_ordered_roots r))
      (absolutize h (native (tc_target c)))"
    using assms(3) by (simp add: escapes_absolutize escapes_def)
  ultimately show ?thesis
    unfolding target_ok_def resolved_def using assms(4) rel
    by (intro bexI [OF _ root]) simp
qed

lemma write_candidate_ok:
  "resolver_ok r \<Longrightarrow> cand_ok r c \<Longrightarrow>
   resolve_write_candidate h r c (tc_root_relative_path c) e = Inr t \<Longrightarrow> target_ok h r t"
  by (auto simp: resolve_write_candidate_def split: if_splits intro: resolved_ok)

lemma delete_candidate_ok:
  "resolver_ok r \<Longrightarrow> cand_ok r c \<Longrightarrow>
   resolve_delete_candidate h r c (tc_root_relative_path c) = Inr t \<Longrightarrow>
   target_ok h r t \<and> rt_existed t"
  by (auto simp: resolve_delete_candidate_def split: if_splits intro: resolved_ok)
    (auto simp: resolved_def)

lemma find_in: "find P xs = Some x \<Longrightarrow> x \<in> set xs"
  by (auto simp: find_Some_iff)

lemma write_target_ok:
  assumes r: "resolver_ok r" and w: "resolve_write_target h r raw = Inr t"
  shows "target_ok h r t \<and> \<not> has_git_segment raw"
proof -
  let ?abs = "or_else (absolute_root_candidate h r raw)
    (or_else (cross_machine_suffix_candidate h r raw) (literal_absolute_candidate r raw))"
  from w have git: "\<not> has_git_segment raw" by (auto simp: resolve_write_target_def split: if_splits)
  have "target_ok h r t"
  proof (cases ?abs)
    case (Some c)
    then have "cand_ok r c"
      by (auto simp: or_else_def split: option.splits
          intro: absolute_root_candidate_ok cross_machine_suffix_candidate_ok
            literal_absolute_candidate_ok [OF r])
    with Some w git r show ?thesis
      by (auto simp: resolve_write_target_def intro: write_candidate_ok)
  next
    case None
    with w git obtain rp where rp: "to_relative_project_path h r raw = Some rp"
      by (auto simp: resolve_write_target_def split: option.splits)
    let ?explicit = "explicit_root_label_candidates h r rp"
    let ?existing = "filter (\<lambda>c. is_existing_file h (tc_target c)) (legacy_target_candidates h r rp)"
    note shape = to_relative_shape [OF rp]
    show ?thesis
    proof (cases "?explicit = []")
      case False
      then have "cand_ok r (last ?explicit)"
        by (intro explicit_ok [OF r shape, where h = h] last_in_set)
      with False w git None rp r show ?thesis
        by (auto simp: resolve_write_target_def Let_def split: if_splits intro: write_candidate_ok)
    next
      case True
      have clean: "clean_rel rp" by (rule explicit_empty_clean [OF r shape True])
      have ok: "cand_ok r c \<and> tc_root_relative_path c = rp" if "c \<in> set ?existing" for c
        using that legacy_ok [OF r clean, of c h] by simp
      have last_ok: "cand_ok r (last cs) \<and> tc_root_relative_path (last cs) = rp"
        if "cs = filter Q ?existing" "cs \<noteq> []" for cs Q
        using that ok last_in_set [of cs] by auto
      from w git None rp True obtain c e where c: "resolve_write_candidate h r c rp e = Inr t"
        and cok: "cand_ok r c \<and> tc_root_relative_path c = rp"
        by (simp add: resolve_write_target_def Let_def split: if_splits option.splits)
          (use ok last_ok r clean in \<open>fastforce dest: find_in simp: resolver_ok_def intro: candidate_ok\<close>)+
      then show ?thesis using write_candidate_ok [OF r] by metis
    qed
  qed
  with git show ?thesis by simp
qed

lemma delete_existing_ok:
  assumes "resolver_ok r" and "cand_ok r c" and "delete_existing h r c = Inr t"
  shows "target_ok h r t \<and> rt_existed t \<and>
    (\<exists>root\<in>set (pr_ordered_roots r). is_existing_file h (join_str (re_path root) (rt_relative_path t)))"
proof -
  from assms(3) have e: "is_existing_file h (tc_target c)"
    and d: "resolve_delete_candidate h r c (tc_root_relative_path c) = Inr t"
    by (auto simp: delete_existing_def Let_def split: if_splits)
  from d have "rt_relative_path t = tc_root_relative_path c"
    by (auto simp: resolve_delete_candidate_def resolved_def split: if_splits)
  with e assms(2) have "is_existing_file h (join_str (re_path (root_at r (tc_root c))) (rt_relative_path t))"
    by (simp add: cand_ok_def)
  moreover have "root_at r (tc_root c) \<in> set (pr_ordered_roots r)"
    using assms(2) by (simp add: cand_ok_def root_at_def)
  ultimately show ?thesis
    using delete_candidate_ok [OF assms(1,2) d] by blast
qed

lemma delete_target_ok:
  assumes r: "resolver_ok r" and d: "resolve_delete_target h r raw = Inr t"
  shows "target_ok h r t \<and> rt_existed t \<and> \<not> has_git_segment raw \<and>
    (\<exists>root\<in>set (pr_ordered_roots r). is_existing_file h (join_str (re_path root) (rt_relative_path t)))"
proof -
  from d have git: "\<not> has_git_segment raw" by (auto simp: resolve_delete_target_def split: if_splits)
  have "target_ok h r t \<and> rt_existed t \<and>
    (\<exists>root\<in>set (pr_ordered_roots r). is_existing_file h (join_str (re_path root) (rt_relative_path t)))"
  proof (cases "absolute_root_candidate h r raw")
    case (Some c)
    with d git show ?thesis
      by (intro delete_existing_ok [OF r absolute_root_candidate_ok [OF Some]])
        (simp add: resolve_delete_target_def)
  next
    case None
    note abs_none = None
    show ?thesis
    proof (cases "cross_machine_suffix_candidate h r raw")
      case (Some c)
      with d git abs_none show ?thesis
        by (intro delete_existing_ok [OF r cross_machine_suffix_candidate_ok [OF Some]])
          (simp add: resolve_delete_target_def)
    next
      case None
      with d git abs_none obtain rp where rp: "to_relative_project_path h r raw = Some rp"
        by (auto simp: resolve_delete_target_def split: option.splits)
      let ?explicit = "explicit_root_label_candidates h r rp"
      let ?existing = "filter (\<lambda>c. is_existing_file h (tc_target c)) (legacy_target_candidates h r rp)"
      note shape = to_relative_shape [OF rp]
      show ?thesis
      proof (cases "?explicit = []")
        case False
        then have ok: "cand_ok r (last ?explicit)"
          by (intro explicit_ok [OF r shape, where h = h] last_in_set)
        from False d git None abs_none rp have "delete_existing h r (last ?explicit) = Inr t"
          by (simp add: resolve_delete_target_def Let_def split: if_splits)
        then show ?thesis by (rule delete_existing_ok [OF r ok])
      next
        case True
        with d git None abs_none rp have ne: "?existing \<noteq> []"
          and res: "resolve_delete_candidate h r (last ?existing) rp = Inr t"
          by (simp_all add: resolve_delete_target_def Let_def split: if_splits)
        from last_in_set [OF ne] have last: "last ?existing \<in> set (legacy_target_candidates h r rp)"
          and e: "is_existing_file h (tc_target (last ?existing))"
          by auto
        from legacy_ok [OF r explicit_empty_clean [OF r shape True] last]
        have ok: "cand_ok r (last ?existing)" and rel: "tc_root_relative_path (last ?existing) = rp"
          by simp_all
        have "\<not> has_git_segment rp" using res by (auto simp: resolve_delete_candidate_def split: if_splits)
        with e rel res have "delete_existing h r (last ?existing) = Inr t"
          by (simp add: delete_existing_def)
        then show ?thesis by (rule delete_existing_ok [OF r ok])
      qed
    qed
  qed
  with git show ?thesis by simp
qed

section \<open>One root\<close>

lemma utf16_units_pos: "utf16_units c \<noteq> 0"
  by (simp add: utf16_units_def)

lemma skip_units_exact: "skip_units (sum_list (map utf16_units cs)) (cs @ ds) = ds"
proof (induction cs)
  case Nil
  then show ?case by (cases ds) simp_all
next
  case (Cons c cs)
  then show ?case using utf16_units_pos [of c] by simp
qed

lemma skip_root:
  assumes "valid_utf8 root"
  shows "concat (skip_units (utf16_len root + 1) (chars (root @ slash # rel))) = rel"
proof -
  have sl: "chars (slash # rel) = [slash] # chars rel"
    by (rule chars_ascii_Cons) (simp add: slash_def bval_def)
  have one: "utf16_units [slash] = 1"
    by (simp add: utf16_units_def slash_def)
  have c: "chars (root @ slash # rel) = (chars root @ [[slash]]) @ chars rel"
    by (simp add: chars_append [OF assms] sl)
  have n: "utf16_len root + 1 = sum_list (map utf16_units (chars root @ [[slash]]))"
    by (simp add: utf16_len_def one)
  show ?thesis
    by (simp only: c n skip_units_exact) simp
qed

text \<open>An absolute path of plain names, as the workspace roots have it.\<close>

definition posix_root :: "string \<Rightarrow> bool" where
  "posix_root root \<longleftrightarrow>
     (\<exists>body. root = slash # body \<and> clean_rel body \<and> ascii_trim body = body \<and> valid_utf8 root)"

lemma posix_not_windows: "\<not> has_drive (slash # s)"
  by (cases s) (simp_all add: slash_def is_ascii_alphabetic_def bval_def)

lemma trim_clean: "clean_rel r \<Longrightarrow> ascii_trim r = r \<Longrightarrow> \<not> is_ascii_ws (last r)"
  by (metis ascii_trim_def clean_rel_def trim_matches_ends(2))

lemma normalize_exportable:
  assumes "clean_rel r" and "ascii_trim r = r"
  shows "normalize_system_path r = r" and "normalize_system_path (slash # r) = slash # r"
proof -
  have c: "collapse_slashes r = r"
    using collapse_join [OF clean_rel_segments [OF assms(1)], of False] by (simp add: collapse_slashes_def)
  have c': "collapse_slashes (slash # r) = slash # r"
    using collapse_join [OF clean_rel_segments [OF assms(1)], of True] by (simp add: collapse_slashes_def)
  have ne: "r \<noteq> []" using assms(1) by (simp add: clean_rel_def)
  have lst: "last r \<noteq> slash"
  proof
    assume "last r = slash"
    then obtain q where "r = q @ [slash]" using ne by (metis append_butlast_last_id)
    then have "[] \<in> set (split_char slash r)" using split_char_append [of slash q "[]"] by simp
    with assms(1) show False by (auto simp: clean_rel_def)
  qed
  have nd: "\<not> is_drive_root r"
    using clean_rel_not_absolute [OF assms(1)] by (simp add: is_absolute_def is_drive_root_def)
  show "normalize_system_path r = r"
    using assms(2) c ne lst nd by (simp add: normalize_system_path_def trim_end_id)
  have t: "ascii_trim (slash # r) = slash # r"
    using ne trim_clean [OF assms]
    unfolding ascii_trim_def by (intro trim_matches_id) (simp add: slash_def is_ascii_ws_def)
  have nd': "\<not> is_drive_root (slash # r)"
    by (simp add: is_drive_root_def has_drive_slash_def posix_not_windows)
  show "normalize_system_path (slash # r) = slash # r"
    using t c' ne lst nd' by (simp add: normalize_system_path_def trim_end_id)
qed

lemma path_key_posix:
  "normalize_system_path (slash # s) = slash # s \<Longrightarrow> path_key h (slash # s) = slash # s"
  by (simp add: path_key_def is_windows_style_path_def posix_not_windows)

lemma clean_rel_append:
  assumes "clean_rel a" and "clean_rel b" shows "clean_rel (a @ slash # b)"
  using assms by (simp add: clean_rel_def split_char_append ball_Un)

lemma trim_append:
  assumes "clean_rel a" and "ascii_trim a = a" and "clean_rel b" and "ascii_trim b = b"
  shows "ascii_trim (a @ slash # b) = a @ slash # b"
proof -
  have "a \<noteq> []" "b \<noteq> []" using assms by (simp_all add: clean_rel_def)
  moreover have "\<not> is_ascii_ws (hd a)"
    using assms(2) \<open>a \<noteq> []\<close> by (metis ascii_trim_def trim_matches_ends(1))
  ultimately show ?thesis
    using trim_clean [OF assms(3,4)] by (simp add: ascii_trim_def trim_matches_id)
qed

lemma posix_root_normal:
  assumes "posix_root root"
  shows "normalize_system_path root = root" and "path_key h root = root" and "root \<noteq> []"
    and "lossy root = root" and "\<not> is_windows_style_path root"
proof -
  from assms obtain body where b: "root = slash # body" "clean_rel body" "ascii_trim body = body"
    and v: "valid_utf8 root"
    by (auto simp: posix_root_def)
  show n: "normalize_system_path root = root" using normalize_exportable [OF b(2,3)] b(1) by simp
  then show "path_key h root = root" using b(1) path_key_posix by simp
  show "root \<noteq> []" using b(1) by simp
  show "lossy root = root" using v by (simp add: lossy_def from_utf8_lossy_valid)
  show "\<not> is_windows_style_path root"
    using b(1) by (simp add: is_windows_style_path_def posix_not_windows)
qed

definition only_root :: "string \<Rightarrow> root_entry" where
  "only_root root =
     \<lparr>re_path = root, re_is_primary = True, re_clipboard_label = None, re_has_ambiguous_label = False\<rparr>"

lemma resolver_single:
  assumes "posix_root root"
  shows "resolver_new h [root] None =
    \<lparr>pr_ordered_roots = [only_root root], pr_primary_root = Some 0, pr_primary_reserved_labels = {}\<rparr>"
proof -
  note n = posix_root_normal [OF assms]
  have nr: "normalized_roots h [root] = [root]"
    by (simp add: normalized_roots_def n distinct_by_def)
  have np: "normalized_primary h [root] None = Some root"
    by (simp add: normalized_primary_def nr n Let_def)
  have ar: "all_root_paths h [root] None = [root]"
    by (simp add: all_root_paths_def nr np distinct_by_def)
  have el: "external_labels h [root] None = []"
    by (simp add: external_labels_def np ar same_path_def)
  have rl: "reserved_labels h [root] None = {}"
    by (simp add: reserved_labels_def np ar el same_path_def map_filter_def)
  show ?thesis
    by (simp add: resolver_new_def ar rl root_entry_of_def np same_path_def only_root_def
        first_position_def Let_def)
qed

lemma relativize_below:
  assumes root: "posix_root root" and rel: "clean_rel rel" "ascii_trim rel = rel"
  shows "relativize_path h (root @ slash # rel) root = Some rel"
    and "normalize_system_path (root @ slash # rel) = root @ slash # rel"
proof -
  from root obtain body where b: "root = slash # body" "clean_rel body" "ascii_trim body = body"
    and v: "valid_utf8 root"
    by (auto simp: posix_root_def)
  have clean: "clean_rel (body @ slash # rel)" by (rule clean_rel_append [OF b(2) rel(1)])
  have trim: "ascii_trim (body @ slash # rel) = body @ slash # rel"
    by (rule trim_append [OF b(2,3) rel])
  from normalize_exportable(2) [OF clean trim] show n:
    "normalize_system_path (root @ slash # rel) = root @ slash # rel"
    by (simp add: b(1))
  have k: "path_key h (root @ slash # rel) = root @ slash # rel"
    using path_key_posix [of "body @ slash # rel"] n by (simp add: b(1))
  have s: "sanitize_relative_path rel = Some rel"
    using exportable_iff [of rel] rel by (simp add: is_exportable_relative_path_def)
  have p: "starts_with (root @ ''/'') (root @ slash # rel)"
    by (auto simp: starts_with_iff slash_def)
  show "relativize_path h (root @ slash # rel) root = Some rel"
    using skip_root [OF v, of rel] s p
    by (simp add: relativize_path_def Let_def n k posix_root_normal [OF root])
qed

lemma relative_path_candidates:
  assumes rel: "clean_rel rel" "ascii_trim rel = rel"
  shows "absolute_root_candidate h r rel = None" and "cross_machine_suffix_candidate h r rel = None"
    and "literal_absolute_candidate r rel = None"
    and "to_relative_project_path h r rel = Some rel"
proof -
  note n = normalize_exportable(1) [OF rel]
  note a = clean_rel_not_absolute [OF rel(1)]
  show "absolute_root_candidate h r rel = None"
    by (simp add: absolute_root_candidate_def Let_def n a)
  show "cross_machine_suffix_candidate h r rel = None"
    by (simp add: cross_machine_suffix_candidate_def Let_def n a)
  show "literal_absolute_candidate r rel = None"
    by (simp add: literal_absolute_candidate_def Let_def n a split: option.split)
  have "sanitize_relative_path rel = Some rel"
    using exportable_iff [of rel] rel by (simp add: is_exportable_relative_path_def)
  then show "to_relative_project_path h r rel = Some rel"
    using rel(1) by (simp add: to_relative_project_path_def Let_def n a clean_rel_def)
qed

lemma single_root_write:
  assumes root: "posix_root root" and rel: "clean_rel rel" "ascii_trim rel = rel"
  shows "resolve_write_target h (resolver_new h [root] None) rel =
    (if has_git_segment rel then Inl (unsafe_path None)
     else if escapes_all_roots h [native root] (native (root @ slash # rel))
     then Inl (unsafe_path (Some rel))
     else Inr \<lparr>rt_relative_path = rel,
       rt_absolute_path = below (absolutize h (native root)) (split_char slash rel),
       rt_root_path = absolutize h (native root),
       rt_existed = is_existing_file h (root @ slash # rel)\<rparr>)"
proof -
  let ?r = "resolver_new h [root] None"
  note single = resolver_single [OF root, of h]
  let ?c = "candidate ?r 0 rel"
  from root obtain body where b: "root = slash # body" "clean_rel body"
    by (auto simp: posix_root_def)
  have lastb: "\<not> ends_with ''/'' root"
  proof
    assume "ends_with ''/'' root"
    then obtain q where "root = q @ [slash]" by (auto simp: ends_with_iff slash_def)
    with b obtain q' where "body = q' @ [slash]"
      by (cases q) (auto simp: clean_rel_def)
    then have "[] \<in> set (split_char slash body)" using split_char_append [of slash q' "[]"] by simp
    with b(2) show False by (auto simp: clean_rel_def)
  qed
  have ne: "rel \<noteq> []" using rel(1) by (simp add: clean_rel_def)
  have j: "join_str root rel = root @ slash # rel"
    using lastb ne by (simp add: join_str_def slash_def)
  have t: "tc_target ?c = root @ slash # rel"
    by (simp add: candidate_def single root_at_def only_root_def j)
  have ex: "explicit_root_label_candidates h ?r rel = []"
    by (auto simp: explicit_root_label_candidates_def single enumerated_def only_root_def distinct_by_def
        split: option.split)
  have le: "legacy_target_candidates h ?r rel = [?c]"
    by (simp add: legacy_target_candidates_def single others_def enumerated_def distinct_by_def)
  have a: "absolutize h (native (root @ slash # rel)) =
      below (absolutize h (native root)) (split_char slash rel)"
    using absolutize_join [OF posix_root_normal(3) [OF root], of rel h] rel(1) j ne
    by (simp add: rel_names_def)
  have pr: "re_is_primary (root_at ?r (tc_root ?c))" "pr_primary_root ?r = Some 0"
    by (simp_all add: single candidate_def root_at_def only_root_def)
  have rp: "re_path (root_at ?r (tc_root ?c)) = root"
    by (simp add: single candidate_def root_at_def only_root_def)
  have esc: "escapes h ?r (root @ slash # rel) =
      escapes_all_roots h [native root] (native (root @ slash # rel))"
    by (simp add: escapes_def single only_root_def)
  have w: "resolve_write_candidate h ?r ?c rel e =
      (if escapes_all_roots h [native root] (native (root @ slash # rel)) \<or> has_git_segment rel
       then Inl (unsafe_path (Some rel))
       else Inr \<lparr>rt_relative_path = rel,
         rt_absolute_path = below (absolutize h (native root)) (split_char slash rel),
         rt_root_path = absolutize h (native root),
         rt_existed = (case e of Some b \<Rightarrow> b | None \<Rightarrow> is_existing_file h (root @ slash # rel))\<rparr>)" for e
    by (cases e) (simp_all add: resolve_write_candidate_def resolved_def t esc a rp)
  show ?thesis
  proof (cases "has_git_segment rel")
    case True
    then show ?thesis by (simp add: resolve_write_target_def)
  next
    case False
    show ?thesis
    proof (cases "is_existing_file h (root @ slash # rel)")
      case True
      with False have "resolve_write_target h ?r rel = resolve_write_candidate h ?r ?c rel None"
        by (simp add: resolve_write_target_def relative_path_candidates [OF rel] or_else_def Let_def
            ex le t pr)
      with False show ?thesis by (simp add: w)
    next
      case nofile: False
      with False have "resolve_write_target h ?r rel = resolve_write_candidate h ?r ?c rel (Some False)"
        by (simp add: resolve_write_target_def relative_path_candidates [OF rel] or_else_def Let_def
            ex le t pr)
      with False nofile show ?thesis by (simp add: w)
    qed
  qed
qed

lemma single_root_clipboard_path:
  assumes root: "posix_root root" and rel: "clean_rel rel" "ascii_trim rel = rel"
  shows "to_clipboard_path h (resolver_new h [root] None) (root @ slash # rel) = rel"
  by (simp add: to_clipboard_path_def relativize_below [OF assms] resolver_single [OF root]
      primary_entry_def root_at_def only_root_def Let_def)

lemma in_pieces:
  assumes "c \<noteq> sep"
  shows "c \<in> set s \<longleftrightarrow> (\<exists>x\<in>set (split_char sep s). c \<in> set x)"
proof
  assume "c \<in> set s"
  then have "c \<in> set (join [sep] (split_char sep s))" by simp
  then show "\<exists>x\<in>set (split_char sep s). c \<in> set x"
    using set_join [of "[sep]" "split_char sep s"] assms by auto
qed (auto dest: split_char_subset)

lemma clean_rel_iff:
  "clean_rel value \<longleftrightarrow> value \<noteq> [] \<and> backslash \<notin> set value \<and> \<not> list_ex bad_char value \<and>
     (\<forall>s\<in>set (split_char slash value). s \<noteq> [] \<and> s \<noteq> dot \<and> s \<noteq> dotdot)"
proof -
  have "bad_char c \<Longrightarrow> c \<noteq> slash" for c
    by (auto simp: bad_char_def slash_def bval_def)
  then have "list_ex bad_char value \<longleftrightarrow> (\<exists>s\<in>set (split_char slash value). list_ex bad_char s)"
    using in_pieces [of _ slash "value"] by (fastforce simp: list_ex_iff)
  moreover have "backslash \<in> set value \<longleftrightarrow> (\<exists>s\<in>set (split_char slash value). backslash \<in> set s)"
    by (rule in_pieces) simp
  ultimately show ?thesis
    by (auto simp: clean_rel_def bad_segment_def)
qed

lemma find_map_None: "find_map f xs = None \<longleftrightarrow> (\<forall>x\<in>set xs. f x = None)"
  by (induction xs) (auto split: option.splits)

lemma foreign_not_relative:
  assumes ok: "resolver_ok r" and n: "normalize_system_path raw = raw" and ab: "is_absolute raw"
    and none: "absolute_root_candidate h r raw = None"
    and cross: "cross_machine_suffix_candidate h r raw = None"
  shows "to_relative_project_path h r raw = None"
proof -
  have rel: "relativize_path h raw (re_path (root_at r i)) = None" if "i < length (pr_ordered_roots r)" for i
  proof -
    have "(i, root_at r i) \<in> set (enumerated r)" using that by (simp add: in_enumerated)
    with none n ab show ?thesis
      by (auto simp: absolute_root_candidate_def find_map_None dest: bspec)
  qed
  have prim: "(case primary_entry r of
      Some p \<Rightarrow> non_empty (relativize_path h raw (re_path p)) | None \<Rightarrow> None) = None"
    using ok rel by (auto simp: primary_entry_def resolver_ok_def non_empty_def split: option.split)
  have oth: "find_map (\<lambda>(_, root).
      (case non_empty (relativize_path h raw (re_path root)) of
         None \<Rightarrow> None
       | Some rel \<Rightarrow> Some (case labelled root rel of Some path \<Rightarrow> path | None \<Rightarrow> rel)))
      (others r) = None"
    using rel by (auto simp: find_map_None in_others non_empty_def)
  show ?thesis
    unfolding to_relative_project_path_def Let_def n prim oth
    using ab cross by (simp add: cross_machine_suffix_relative_path_def is_absolute_def)
      (auto simp: has_drive_slash_def)
qed

section \<open>The properties\<close>

text \<open>A small machine: a workspace \<open>/w\<close> with one file, and a directory outside it.\<close>

definition demo_tree :: "string list \<Rightarrow> node option" where
  "demo_tree p =
     map_of [([''w''], Directory), ([''w'', ''src''], Directory), ([''w'', ''src'', ''a''], Regular ''x''),
       ([''o''], Directory), ([''o'', ''x''], Symlink ''/w/src/a''), ([''w'', ''d''], Symlink ''/o'')] p"

definition demo_host :: host where
  "demo_host =
     \<lparr>node_at = demo_tree, host_listing = (\<lambda>_. []), host_temp_name = (\<lambda>_. ''.t''),
      host_denied = (\<lambda>_. False), host_unwritable = (\<lambda>_. False),
      host_cwd = Some [], host_max_links = 40, host_to_lowercase = (\<lambda>s. s)\<rparr>"

text \<open>
  C9.  An accepted write target consists of one of the roots and a sanitized relative path without
  a \<open>.git\<close> segment; its native path is the root's followed by exactly those names, and its real
  location is inside a root.
\<close>

theorem write_target_confined:
  assumes "resolve_write_target h (resolver_new h roots primary) raw = Inr t"
  shows "target_ok h (resolver_new h roots primary) t \<and> \<not> has_git_segment raw"
  by (rule write_target_ok [OF resolver_new_ok assms])

definition demo_write :: resolved_target where
  "demo_write = \<lparr>rt_relative_path = ''src/b'', rt_absolute_path = abs_path [''w'', ''src'', ''b''],
     rt_root_path = abs_path [''w''], rt_existed = False\<rparr>"

lemma demo_write_eq:
  "resolve_write_target demo_host (resolver_new demo_host [''/w''] None) ''src/b'' = Inr demo_write"
  by code_simp

theorem write_target_confined_witness:
  "target_ok demo_host (resolver_new demo_host [''/w''] None) demo_write"
  using write_target_confined [OF demo_write_eq] by simp


definition demo_delete :: resolved_target where
  "demo_delete = \<lparr>rt_relative_path = ''src/a'', rt_absolute_path = abs_path [''w'', ''src'', ''a''],
     rt_root_path = abs_path [''w''], rt_existed = True\<rparr>"

lemma demo_delete_eq:
  "resolve_delete_target demo_host (resolver_new demo_host [''/w''] None) ''src/a'' = Inr demo_delete"
  by code_simp


text \<open>
  C28.  The directory entry an accepted target names, the one a rename over the target replaces or
  an unlink removes, lies in a root's real location, unless that entry is itself a symbolic link.
\<close>

theorem accepted_target_lands_inside:
  assumes "resolve_write_target h (resolver_new h roots primary) raw = Inr t \<or>
      resolve_delete_target h (resolver_new h roots primary) raw = Inr t"
    and "entry_of h (rt_absolute_path t) = Inr entry"
    and "\<And>link. lookup_node h entry \<noteq> Some (Symlink link)"
  shows "\<exists>root\<in>set (pr_ordered_roots (resolver_new h roots primary)).
    is_contained (abs_path entry) (real_or_self h (native (re_path root)))"
proof -
  let ?r = "resolver_new h roots primary"
  from assms(1) have ok: "target_ok h ?r t"
    using write_target_ok [OF resolver_new_ok] delete_target_ok [OF resolver_new_ok] by blast
  then obtain root where root: "root \<in> set (pr_ordered_roots ?r)"
    and rel: "rt_relative_path t = [] \<or> clean_rel (rt_relative_path t)"
    and t: "rt_absolute_path t =
        below (absolutize h (native (re_path root))) (rel_names (rt_relative_path t))"
    and esc: "\<not> escapes_all_roots h (map (\<lambda>e. native (re_path e)) (pr_ordered_roots ?r)) (rt_absolute_path t)"
    by (auto simp: target_ok_def)
  have "re_path root \<noteq> []"
    using resolver_new_ok root by (auto simp: resolver_ok_def root_ok_def)
  then obtain p where p: "rt_absolute_path t = absolutize h p"
    using absolutize_join [OF _ rel] t by metis
  from not_escaping_contained [OF esc [unfolded p] assms(2) [unfolded p] assms(3)] show ?thesis
    by auto
qed

theorem accepted_target_lands_inside_witness:
  "\<exists>root\<in>set (pr_ordered_roots (resolver_new demo_host [''/w''] None)).
    is_contained (abs_path [''w'', ''src'', ''b'']) (real_or_self demo_host (native (re_path root)))"
proof (rule accepted_target_lands_inside [of _ _ _ "''src/b''" demo_write])
  show "resolve_write_target demo_host (resolver_new demo_host [''/w''] None) ''src/b'' = Inr demo_write \<or>
      resolve_delete_target demo_host (resolver_new demo_host [''/w''] None) ''src/b'' = Inr demo_write"
    by (simp add: demo_write_eq)
  show "entry_of demo_host (rt_absolute_path demo_write) = Inr [''w'', ''src'', ''b'']"
    by code_simp
  have "lookup_node demo_host [''w'', ''src'', ''b''] = None" by code_simp
  then show "lookup_node demo_host [''w'', ''src'', ''b''] \<noteq> Some (Symlink link)" for link by simp
qed

text \<open>
  The condition on the last entry is needed: \<open>/w/d\<close> is a link to \<open>/o\<close>, and the entry \<open>/o/x\<close> a
  link back to a file of the workspace.  The target is accepted, and the entry a write through it
  replaces is \<open>/o/x\<close>, outside every root.
\<close>

definition demo_link_write :: resolved_target where
  "demo_link_write = \<lparr>rt_relative_path = ''d/x'', rt_absolute_path = abs_path [''w'', ''d'', ''x''],
     rt_root_path = abs_path [''w''], rt_existed = True\<rparr>"

theorem accepted_target_replaces_outside_entry:
  "resolve_write_target demo_host (resolver_new demo_host [''/w''] None) ''d/x'' = Inr demo_link_write \<and>
   entry_of demo_host (rt_absolute_path demo_link_write) = Inr [''o'', ''x'']"
  by (rule conjI; code_simp)


lemma demo_root: "posix_root ''/w''"
  unfolding posix_root_def
  by (rule exI [of _ "''w''"]) (simp add: slash_def; code_simp)


text \<open>
  The relative paths a payload may name are exactly the sequences of names that need no
  change: none empty, \<open>.\<close> or \<open>..\<close>, no backslash, control or reserved character, and no blank at
  either end.
\<close>

theorem exportable_relative_paths:
  "is_exportable_relative_path value \<longleftrightarrow>
     value \<noteq> [] \<and> ascii_trim value = value \<and> backslash \<notin> set value \<and> \<not> list_ex bad_char value \<and>
     list_all (\<lambda>s. s \<noteq> [] \<and> s \<noteq> dot \<and> s \<noteq> dotdot) (split_char slash value)"
  by (auto simp: exportable_iff clean_rel_iff list_all_iff)

text \<open>
  An absolute path no root knows is never a delete target, and a write of it stays below the
  primary root under its literal names.
\<close>

theorem foreign_absolute_path:
  assumes "normalize_system_path raw = raw" and "is_absolute raw"
    and "absolute_root_candidate h (resolver_new h roots primary) raw = None"
    and "cross_machine_suffix_candidate h (resolver_new h roots primary) raw = None"
  shows "resolve_delete_target h (resolver_new h roots primary) raw = Inl (unsafe_path None) \<and>
    resolve_write_target h (resolver_new h roots primary) raw =
      (if has_git_segment raw then Inl (unsafe_path None)
       else case literal_absolute_candidate (resolver_new h roots primary) raw of
         None \<Rightarrow> Inl (unsafe_path None)
       | Some c \<Rightarrow> resolve_write_candidate h (resolver_new h roots primary) c
           (tc_root_relative_path c) None)"
  using foreign_not_relative [OF resolver_new_ok assms] assms(3,4)
  by (simp add: resolve_delete_target_def resolve_write_target_def or_else_def split: option.split)

theorem foreign_absolute_path_witness:
  "resolve_delete_target demo_host (resolver_new demo_host [''/w''] None) ''/other/a'' =
     Inl (unsafe_path None)"
proof -
  have "normalize_system_path ''/other/a'' = ''/other/a''" by code_simp
  moreover have "is_absolute ''/other/a''" by code_simp
  moreover have "absolute_root_candidate demo_host (resolver_new demo_host [''/w''] None) ''/other/a'' = None"
    by code_simp
  moreover have
    "cross_machine_suffix_candidate demo_host (resolver_new demo_host [''/w''] None) ''/other/a'' = None"
    by code_simp
  ultimately show ?thesis using foreign_absolute_path by blast
qed

end
