(* ===== verification/Blob.thy ===== *)
theory Blob
  imports Utf8
begin

text \<open>
  The \<open>git cat-file --batch\<close> protocol and the rule for what may be copied as text
  (\<open>crates/core/src/blob.rs\<close>).  A reader is the list of bytes not yet read; a reading function
  returns its result with the rest, or an error, after which the session is closed.
\<close>

section \<open>The copyable rule\<close>

datatype not_text = Binary | NotUtf8

definition NUL :: char where "NUL = CHR 0x00"

definition classify :: "string \<Rightarrow> not_text + string" where
  "classify bytes =
     (if NUL \<in> set bytes then Inl Binary
      else if valid_utf8 bytes then Inr bytes
      else Inl NotUtf8)"

definition classify_error :: "string \<Rightarrow> not_text option" where
  "classify_error bytes = (case classify bytes of Inl e \<Rightarrow> Some e | Inr _ \<Rightarrow> None)"

section \<open>The chunk scanner\<close>

record chunk_text_scan =
  scan_saw_nul :: bool
  scan_invalid :: bool
  scan_carry :: string

definition scan_new :: chunk_text_scan where
  "scan_new = \<lparr>scan_saw_nul = False, scan_invalid = False, scan_carry = []\<rparr>"

text \<open>The answer and the new \<open>carry\<close>.\<close>

definition utf8_chunk_invalid :: "string \<Rightarrow> string \<Rightarrow> bool \<times> string" where
  "utf8_chunk_invalid carry chunk =
     (if carry = [] then
        (case from_utf8 chunk of
           Utf8_Valid \<Rightarrow> (False, [])
         | Utf8_Invalid _ _ \<Rightarrow> (True, [])
         | Utf8_Truncated n \<Rightarrow> (False, drop n chunk))
      else
        (let tmp = carry @ chunk in
         case from_utf8 tmp of
           Utf8_Valid \<Rightarrow> (False, [])
         | Utf8_Invalid _ _ \<Rightarrow> (True, [])
         | Utf8_Truncated n \<Rightarrow> (False, drop n tmp)))"

definition scan_feed :: "chunk_text_scan \<Rightarrow> string \<Rightarrow> chunk_text_scan" where
  "scan_feed scan chunk =
     (if scan_saw_nul scan then scan
      else if NUL \<in> set chunk then scan\<lparr>scan_saw_nul := True, scan_carry := []\<rparr>
      else if scan_invalid scan then scan
      else (case utf8_chunk_invalid (scan_carry scan) chunk of
          (True, _) \<Rightarrow> scan\<lparr>scan_invalid := True, scan_carry := []\<rparr>
        | (False, carry) \<Rightarrow> scan\<lparr>scan_carry := carry\<rparr>))"

definition scan_finish :: "chunk_text_scan \<Rightarrow> not_text option" where
  "scan_finish scan =
     (if scan_saw_nul scan then Some Binary
      else if scan_invalid scan \<or> scan_carry scan \<noteq> [] then Some NotUtf8
      else None)"

section \<open>Reading the answers\<close>

datatype read_error = UnexpectedEof

text \<open>\<open>str::parse::<u64>()\<close>\<close>

definition u64_bound :: nat where "u64_bound = 2 ^ 64"

definition parse_u64 :: "string \<Rightarrow> nat option" where
  "parse_u64 s =
     (let digits = (case s of c # rest \<Rightarrow> if c = CHR ''+'' then rest else s | [] \<Rightarrow> s) in
      if digits \<noteq> [] \<and> list_all is_digit digits \<and> digits_val digits < u64_bound
      then Some (digits_val digits) else None)"

lemma parse_u64_code [code]:
  "parse_u64 s =
     (let digits = (case s of c # rest \<Rightarrow> if c = CHR ''+'' then rest else s | [] \<Rightarrow> s) in
      if digits \<noteq> [] \<and> list_all is_digit digits \<and> int (digits_val digits) < 2 ^ 64
      then Some (digits_val digits) else None)"
proof -
  have "n < u64_bound \<longleftrightarrow> int n < 2 ^ 64" for n
    unfolding u64_bound_def by simp
  then show ?thesis by (simp only: parse_u64_def)
qed

definition space :: char where "space = CHR '' ''"

definition newline :: char where "newline = CHR 0x0A"

text \<open>\<open>header.rsplitn(3, ' ')\<close>: the last field, the one before it and the rest.\<close>

definition rsplit3 :: "string \<Rightarrow> (string \<times> string \<times> string) option" where
  "rsplit3 s =
     (let fields = split_char space s in
      if length fields < 3 then None
      else Some (last fields, last (butlast fields), join [space] (butlast (butlast fields))))"

definition read_batch_header ::
  "string \<Rightarrow> read_error + ((string \<times> string \<times> nat) option \<times> string)" where
  "read_batch_header reader =
     (case split_once newline reader of
        None \<Rightarrow> Inl UnexpectedEof
      | Some (line, rest) \<Rightarrow>
          (case rsplit3 (from_utf8_lossy line) of
             None \<Rightarrow> Inr (None, rest)
           | Some (sz, kind, oid) \<Rightarrow>
               Inr (map_option (\<lambda>n. (oid, kind, n)) (parse_u64 sz), rest)))"

definition read_exact :: "nat \<Rightarrow> string \<Rightarrow> read_error + (string \<times> string)" where
  "read_exact n reader =
     (if length reader < n then Inl UnexpectedEof else Inr (take n reader, drop n reader))"

definition read_batch_body :: "string \<Rightarrow> nat \<Rightarrow> read_error + (string \<times> string)" where
  "read_batch_body reader sz =
     (case read_exact sz reader of
        Inl e \<Rightarrow> Inl e
      | Inr (body, rest) \<Rightarrow>
          (case read_exact 1 rest of Inl e \<Rightarrow> Inl e | Inr (lf, rest') \<Rightarrow> Inr (body, rest')))"

definition read_batch_response :: "string \<Rightarrow> read_error + (string option \<times> string)" where
  "read_batch_response reader =
     (case read_batch_header reader of
        Inl e \<Rightarrow> Inl e
      | Inr (None, rest) \<Rightarrow> Inr (None, rest)
      | Inr (Some (oid, kind, sz), rest) \<Rightarrow>
          (case read_batch_body rest sz of
             Inl e \<Rightarrow> Inl e
           | Inr (body, rest') \<Rightarrow> Inr (Some body, rest')))"

definition skip_body :: "string \<Rightarrow> nat \<Rightarrow> read_error + string" where
  "skip_body r sz =
     (let want = (sz + 1) mod u64_bound; skipped = min want (length r) in
      if skipped \<noteq> want then Inl UnexpectedEof else Inr (drop skipped r))"

definition scan_buffer :: nat where "scan_buffer = 8192"

function scan_chunks :: "nat \<Rightarrow> chunk_text_scan \<Rightarrow> string \<Rightarrow> read_error + (chunk_text_scan \<times> string)" where
  "scan_chunks left scan reader =
     (if left = 0 then Inr (scan, reader)
      else
        (let n = min left scan_buffer in
         case read_exact n reader of
           Inl e \<Rightarrow> Inl e
         | Inr (chunk, rest) \<Rightarrow> scan_chunks (left - n) (scan_feed scan chunk) rest))"
  by pat_completeness auto
termination
  by (relation "measure (\<lambda>(left, scan, reader). left)") (auto simp: scan_buffer_def)

declare scan_chunks.simps [simp del]

definition scan_discarded_body :: "string \<Rightarrow> nat \<Rightarrow> read_error + (not_text option \<times> string)" where
  "scan_discarded_body reader sz =
     (case scan_chunks sz scan_new reader of
        Inl e \<Rightarrow> Inl e
      | Inr (scan, rest) \<Rightarrow>
          (case read_exact 1 rest of
             Inl e \<Rightarrow> Inl e
           | Inr (lf, rest') \<Rightarrow> Inr (scan_finish scan, rest')))"

datatype blob_read =
    Missing
  | NotABlob string
  | Blob_Text string
  | Blob_NotText not_text
  | TooLarge nat "not_text option"

definition read_classified_response :: "string \<Rightarrow> nat \<Rightarrow> bool \<Rightarrow> read_error + (blob_read \<times> string)" where
  "read_classified_response r cap require_blob =
     (case read_batch_header r of
        Inl e \<Rightarrow> Inl e
      | Inr (None, rest) \<Rightarrow> Inr (Missing, rest)
      | Inr (Some (oid, kind, sz), rest) \<Rightarrow>
          if cap < sz then
            (case scan_discarded_body rest sz of
               Inl e \<Rightarrow> Inl e
             | Inr (not_text, rest') \<Rightarrow> Inr (TooLarge sz not_text, rest'))
          else if require_blob \<and> kind \<noteq> ''blob'' then
            (case skip_body rest sz of
               Inl e \<Rightarrow> Inl e
             | Inr rest' \<Rightarrow> Inr (NotABlob kind, rest'))
          else
            (case read_batch_body rest sz of
               Inl e \<Rightarrow> Inl e
             | Inr (body, rest') \<Rightarrow>
                 Inr (case classify body of Inr s \<Rightarrow> Blob_Text s | Inl e \<Rightarrow> Blob_NotText e, rest')))"

section \<open>A session\<close>

text \<open>
  The Git process behind a session answers each request with bytes: \<open>cat_serve\<close>, a parameter.  A
  request that cannot be sent has no answer.  \<open>cat_unread\<close> is what it wrote and nobody read yet.
\<close>

record cat_file =
  cat_serve :: "string \<Rightarrow> string option"
  cat_unread :: string

datatype git_error =
    Session_Error read_error
  | Send_Error
  | Malformed string
  | Cancelled
  | Spawn_Error

datatype cat_object =
    Object_Missing
  | Object_TooLarge string nat
  | Object_Found string string string

definition line_break :: "string \<Rightarrow> bool" where
  "line_break object \<longleftrightarrow> newline \<in> set object \<or> CHR 0x0D \<in> set object"

definition request :: "cat_file \<Rightarrow> string \<Rightarrow> git_error + cat_file" where
  "request cat object =
     (case cat_serve cat object of
        None \<Rightarrow> Inl Send_Error
      | Some answer \<Rightarrow> Inr (cat\<lparr>cat_unread := cat_unread cat @ answer\<rparr>))"

definition cat_read :: "cat_file \<Rightarrow> string \<Rightarrow> git_error + (string option \<times> cat_file)" where
  "cat_read cat object =
     (if line_break object then Inr (None, cat)
      else case request cat object of
        Inl e \<Rightarrow> Inl e
      | Inr cat' \<Rightarrow>
          (case read_batch_response (cat_unread cat') of
             Inl e \<Rightarrow> Inl (Session_Error e)
           | Inr (body, rest) \<Rightarrow> Inr (body, cat'\<lparr>cat_unread := rest\<rparr>)))"

definition cat_read_object :: "cat_file \<Rightarrow> string \<Rightarrow> nat \<Rightarrow> git_error + (cat_object \<times> cat_file)" where
  "cat_read_object cat object max_size =
     (if line_break object then Inr (Object_Missing, cat)
      else case request cat object of
        Inl e \<Rightarrow> Inl e
      | Inr cat' \<Rightarrow>
          (case read_batch_header (cat_unread cat') of
             Inl e \<Rightarrow> Inl (Session_Error e)
           | Inr (None, rest) \<Rightarrow> Inr (Object_Missing, cat'\<lparr>cat_unread := rest\<rparr>)
           | Inr (Some (oid, kind, sz), rest) \<Rightarrow>
               if max_size < sz then
                 (case skip_body rest sz of
                    Inl UnexpectedEof \<Rightarrow> Inl (Malformed ''cat-file body truncated'')
                  | Inr rest' \<Rightarrow> Inr (Object_TooLarge oid sz, cat'\<lparr>cat_unread := rest'\<rparr>))
               else
                 (case read_batch_body rest sz of
                    Inl e \<Rightarrow> Inl (Session_Error e)
                  | Inr (body, rest') \<Rightarrow> Inr (Object_Found oid kind body, cat'\<lparr>cat_unread := rest'\<rparr>))))"

definition cat_read_classified ::
  "cat_file \<Rightarrow> string \<Rightarrow> nat \<Rightarrow> bool \<Rightarrow> git_error + (blob_read \<times> cat_file)" where
  "cat_read_classified cat object cap require_blob =
     (if line_break object then Inr (Missing, cat)
      else case request cat object of
        Inl e \<Rightarrow> Inl e
      | Inr cat' \<Rightarrow>
          (case read_classified_response (cat_unread cat') cap require_blob of
             Inl e \<Rightarrow> Inl (Session_Error e)
           | Inr (answer, rest) \<Rightarrow> Inr (answer, cat'\<lparr>cat_unread := rest\<rparr>)))"

text \<open>
  The reader that keeps at most one session open.  \<open>spawn root\<close> starts one and \<open>close\<close> ends one;
  both are parameters.
\<close>

record blob_reader =
  br_open :: "(string \<times> cat_file) option"
  br_cancelled :: bool
  br_require_blob :: bool

definition reader_close ::
  "(cat_file \<Rightarrow> git_error option) \<Rightarrow> blob_reader \<Rightarrow> git_error option \<times> blob_reader" where
  "reader_close close reader =
     (case br_open reader of
        None \<Rightarrow> (None, reader)
      | Some (_, cat) \<Rightarrow> (close cat, reader\<lparr>br_open := None\<rparr>))"

definition read_internal ::
  "(string \<Rightarrow> git_error + cat_file) \<Rightarrow> (cat_file \<Rightarrow> git_error option) \<Rightarrow> blob_reader \<Rightarrow> string \<Rightarrow>
   string \<Rightarrow> nat \<Rightarrow> bool \<Rightarrow> (git_error + blob_read) \<times> blob_reader" where
  "read_internal spawn close reader root spec cap require_blob =
     (if br_cancelled reader then (Inl Cancelled, reader)
      else
        (let (failed, reader1) =
               (case br_open reader of
                  Some (r, _) \<Rightarrow> if r \<noteq> root then reader_close close reader else (None, reader)
                | None \<Rightarrow> (None, reader)) in
         case failed of
           Some e \<Rightarrow> (Inl e, reader1)
         | None \<Rightarrow>
             (case (case br_open reader1 of Some (_, cat) \<Rightarrow> Inr cat | None \<Rightarrow> spawn root) of
                Inl e \<Rightarrow> (Inl e, reader1)
              | Inr cat \<Rightarrow>
                  (case cat_read_classified cat spec cap require_blob of
                     Inl e \<Rightarrow> (Inl e, reader1\<lparr>br_open := Some (root, cat)\<rparr>)
                   | Inr (answer, cat') \<Rightarrow>
                       (Inr answer, reader1\<lparr>br_open := Some (root, cat')\<rparr>)))))"

definition reader_read ::
  "(string \<Rightarrow> git_error + cat_file) \<Rightarrow> (cat_file \<Rightarrow> git_error option) \<Rightarrow> blob_reader \<Rightarrow> string \<Rightarrow>
   string \<Rightarrow> nat \<Rightarrow> (git_error + blob_read) \<times> blob_reader" where
  "reader_read spawn close reader root spec cap =
     read_internal spawn close reader root spec cap (br_require_blob reader)"

definition reader_read_lenient ::
  "(string \<Rightarrow> git_error + cat_file) \<Rightarrow> (cat_file \<Rightarrow> git_error option) \<Rightarrow> blob_reader \<Rightarrow> string \<Rightarrow>
   string \<Rightarrow> nat \<Rightarrow> (git_error + blob_read) \<times> blob_reader" where
  "reader_read_lenient spawn close reader root spec cap =
     read_internal spawn close reader root spec cap False"

section \<open>Deleted files\<close>

datatype deleted_content =
    Deleted_Text string
  | Deleted_Marker
  | Deleted_TooLarge string nat

definition not_a_file :: "string \<Rightarrow> string \<Rightarrow> git_error" where
  "not_a_file spec kind =
     Malformed ([CHR 0x27] @ spec @ [CHR 0x27] @ '' is a '' @ kind @ '', not a file'')"

fun first_deleted_text ::
  "('s \<Rightarrow> string \<Rightarrow> (git_error + blob_read) \<times> 's) \<Rightarrow> 's \<Rightarrow> string list \<Rightarrow>
   (git_error + deleted_content) \<times> 's" where
  "first_deleted_text read s [] = (Inr Deleted_Marker, s)"
| "first_deleted_text read s (spec # specs) =
     (if spec = [] \<or> list_all (\<lambda>b. b = CHR ''0'') spec then first_deleted_text read s specs
      else case read s spec of
        (Inl e, s') \<Rightarrow> (Inl e, s')
      | (Inr (Blob_Text t), s') \<Rightarrow> (Inr (Deleted_Text t), s')
      | (Inr Missing, s') \<Rightarrow> first_deleted_text read s' specs
      | (Inr (Blob_NotText _), s') \<Rightarrow> first_deleted_text read s' specs
      | (Inr (NotABlob kind), s') \<Rightarrow> (Inl (not_a_file spec kind), s')
      | (Inr (TooLarge _ (Some _)), s') \<Rightarrow> first_deleted_text read s' specs
      | (Inr (TooLarge sz None), s') \<Rightarrow> (Inr (Deleted_TooLarge spec sz), s'))"

definition deleted_file_content ::
  "(string \<Rightarrow> git_error + cat_file) \<Rightarrow> (cat_file \<Rightarrow> git_error option) \<Rightarrow> blob_reader \<Rightarrow> string \<Rightarrow>
   string list \<Rightarrow> nat \<Rightarrow> (git_error + deleted_content) \<times> blob_reader" where
  "deleted_file_content spawn close reader root specs cap =
     first_deleted_text (\<lambda>rd s. reader_read spawn close rd root s cap) reader specs"

definition not_text_of :: "blob_read \<Rightarrow> not_text option" where
  "not_text_of answer =
     (case answer of
        Blob_NotText r \<Rightarrow> Some r
      | TooLarge _ (Some r) \<Rightarrow> Some r
      | _ \<Rightarrow> None)"

definition deleted_not_text ::
  "(string \<Rightarrow> git_error + cat_file) \<Rightarrow> (cat_file \<Rightarrow> git_error option) \<Rightarrow> blob_reader \<Rightarrow> string \<Rightarrow>
   string \<Rightarrow> (git_error + not_text option) \<times> blob_reader" where
  "deleted_not_text spawn close reader root spec =
     (case reader_read spawn close reader root spec 0 of
        (Inl e, reader') \<Rightarrow> (Inl e, reader')
      | (Inr answer, reader') \<Rightarrow> (Inr (not_text_of answer), reader'))"

end
