(* ===== verification/Blob_Correct.thy ===== *)
theory Blob_Correct
  imports Blob
begin

text \<open>
  Facts about \<open>Blob\<close>: scanning in chunks decides like classifying the whole content, every answer
  is consumed to its last byte, and a reader answers from the repository it is asked about.
\<close>

section \<open>Checking content chunk by chunk\<close>

text \<open>
  The contract of an incremental checker: a relation between its state and the content it has seen,
  kept by every step, that determines its verdict.
\<close>

locale chunk_checker =
  fixes start :: "'s"
    and feed :: "'s \<Rightarrow> 'a list \<Rightarrow> 's"
    and finish :: "'s \<Rightarrow> 'v"
    and verdict :: "'a list \<Rightarrow> 'v"
    and seen :: "'s \<Rightarrow> 'a list \<Rightarrow> bool"
  assumes start_seen: "seen start []"
    and feed_seen: "seen s d \<Longrightarrow> seen (feed s c) (d @ c)"
    and finish_seen: "seen s d \<Longrightarrow> finish s = verdict d"
begin

lemma fold_seen: "seen s d \<Longrightarrow> seen (foldl feed s cs) (d @ concat cs)"
proof (induction cs arbitrary: s d)
  case Nil
  then show ?case by simp
next
  case (Cons c cs)
  from Cons.IH [OF feed_seen [OF Cons.prems, of c]] show ?case by simp
qed

lemma finish_fold: "finish (foldl feed start cs) = verdict (concat cs)"
  using fold_seen [OF start_seen, of cs] by (simp add: finish_seen)

lemma chunking_irrelevant:
  "concat cs = concat cs' \<Longrightarrow> finish (foldl feed start cs) = finish (foldl feed start cs')"
  by (simp add: finish_fold)

end

text \<open>What the scanner's state says of the bytes it was fed.\<close>

definition scan_seen :: "chunk_text_scan \<Rightarrow> string \<Rightarrow> bool" where
  "scan_seen scan d \<longleftrightarrow>
     (scan_saw_nul scan \<longleftrightarrow> NUL \<in> set d) \<and>
     (NUL \<notin> set d \<longrightarrow>
       (if scan_invalid scan then scan_carry scan = [] \<and> (\<exists>m k. from_utf8 d = Utf8_Invalid m k)
        else case from_utf8 d of
          Utf8_Valid \<Rightarrow> scan_carry scan = []
        | Utf8_Truncated m \<Rightarrow> scan_carry scan = drop m d \<and> length (scan_carry scan) \<le> 3 \<and> scan_carry scan \<noteq> []
        | Utf8_Invalid _ _ \<Rightarrow> False))"

lemma from_utf8_truncated:
  assumes "from_utf8 d = Utf8_Truncated m"
  shows "m < length d" and "length d \<le> m + 3"
    and "from_utf8 (d @ c) = utf8_shift m (from_utf8 (drop m d @ c))"
proof -
  from from_utf8_at_append(3) [of 0 d m c] assms
  have "m < length d \<and> length d \<le> m + 3 \<and> from_utf8_at 0 (d @ c) = from_utf8_at (m + 0) (drop m d @ c)"
    by (simp add: from_utf8_def)
  then show "m < length d" and "length d \<le> m + 3"
    and "from_utf8 (d @ c) = utf8_shift m (from_utf8 (drop m d @ c))"
    by (simp_all add: from_utf8_def from_utf8_at_shift [of m 0, simplified])
qed

lemma from_utf8_valid_append:
  "from_utf8 d = Utf8_Valid \<Longrightarrow> from_utf8 (d @ c) = utf8_shift (length d) (from_utf8 c)"
  using from_utf8_at_append(1) [of 0 d c] from_utf8_at_shift [of "length d" 0 c]
  by (simp add: from_utf8_def)

lemma scan_feed_seen:
  assumes "scan_seen scan d" shows "scan_seen (scan_feed scan c) (d @ c)"
proof (cases "NUL \<in> set d \<or> NUL \<in> set c")
  case True
  with assms show ?thesis by (auto simp: scan_seen_def scan_feed_def)
next
  case False
  then have nul: "\<not> scan_saw_nul scan" "NUL \<notin> set c" "NUL \<notin> set d"
    using assms by (auto simp: scan_seen_def)
  show ?thesis
  proof (cases "scan_invalid scan")
    case True
    with assms nul obtain m k where "from_utf8 d = Utf8_Invalid m k"
      by (auto simp: scan_seen_def)
    then have "from_utf8 (d @ c) = Utf8_Invalid m k"
      using from_utf8_at_append(2) [where n = 0 and s = d and t = c] by (simp add: from_utf8_def)
    with True assms nul show ?thesis by (simp add: scan_seen_def scan_feed_def)
  next
    case valid: False
    obtain base where base: "from_utf8 (d @ c) = utf8_shift base (from_utf8 (scan_carry scan @ c))"
      and carry: "drop base d = scan_carry scan" "base \<le> length d"
    proof (cases "from_utf8 d")
      case Utf8_Valid
      with assms nul valid have "scan_carry scan = []" by (simp add: scan_seen_def)
      with from_utf8_valid_append [OF Utf8_Valid, of c] show ?thesis
        by (intro that [of "length d"]) simp_all
    next
      case (Utf8_Truncated m)
      with assms nul valid have "scan_carry scan = drop m d" by (simp add: scan_seen_def)
      with from_utf8_truncated(1,2) [OF Utf8_Truncated] from_utf8_truncated(3) [OF Utf8_Truncated, of c] show ?thesis
        by (intro that [of m]) simp_all
    qed (use assms nul valid in \<open>simp add: scan_seen_def\<close>)
    have chunk: "utf8_chunk_invalid (scan_carry scan) c =
        (case from_utf8 (scan_carry scan @ c) of
           Utf8_Valid \<Rightarrow> (False, [])
         | Utf8_Invalid _ _ \<Rightarrow> (True, [])
         | Utf8_Truncated n \<Rightarrow> (False, drop n (scan_carry scan @ c)))"
      by (cases "scan_carry scan = []"; cases "from_utf8 (scan_carry scan @ c)")
        (simp_all add: utf8_chunk_invalid_def Let_def)
    show ?thesis
    proof (cases "from_utf8 (scan_carry scan @ c)")
      case Utf8_Valid
      with base chunk nul valid show ?thesis by (simp add: scan_seen_def scan_feed_def)
    next
      case (Utf8_Invalid m k)
      with base chunk nul valid show ?thesis by (simp add: scan_seen_def scan_feed_def)
    next
      case (Utf8_Truncated m)
      have "drop (base + m) (d @ c) = drop m (scan_carry scan @ c)"
      proof -
        have "drop base (d @ c) = scan_carry scan @ c" using carry by simp
        then show ?thesis by (metis add.commute drop_drop)
      qed
      moreover note from_utf8_truncated(1,2) [OF Utf8_Truncated]
      ultimately show ?thesis
        using Utf8_Truncated base chunk nul valid by (auto simp: scan_seen_def scan_feed_def)
    qed
  qed
qed

lemma scan_finish_seen: "scan_seen scan d \<Longrightarrow> scan_finish scan = classify_error d"
  by (auto simp: scan_seen_def scan_finish_def classify_error_def classify_def valid_utf8_def
      split: if_splits utf8_result.splits)

interpretation scanner: chunk_checker scan_new scan_feed scan_finish classify_error scan_seen
proof
  show "scan_seen scan_new []"
    by (simp add: scan_seen_def scan_new_def from_utf8_def)
qed (auto intro: scan_feed_seen scan_finish_seen)

section \<open>One answer\<close>

text \<open>How Git answers a request for an object, and for one it does not have.\<close>

definition git_answer :: "string \<Rightarrow> string \<Rightarrow> string \<Rightarrow> string" where
  "git_answer oid kind body =
     oid @ [space] @ kind @ [space] @ show_nat (length body) @ [newline] @ body @ [newline]"

definition git_missing :: "string \<Rightarrow> string" where
  "git_missing object = object @ '' missing'' @ [newline]"

definition answer_ok :: "string \<Rightarrow> string \<Rightarrow> string \<Rightarrow> bool" where
  "answer_ok oid kind body \<longleftrightarrow>
     valid_utf8 oid \<and> valid_utf8 kind \<and> newline \<notin> set oid \<and> newline \<notin> set kind \<and>
     space \<notin> set kind \<and> length body + 1 < u64_bound"

lemma digit_ascii: "is_digit c \<Longrightarrow> bval c < 128 \<and> c \<noteq> space \<and> c \<noteq> newline \<and> c \<noteq> CHR ''+''"
  by (auto simp: is_digit_def bval_def space_def newline_def)

lemma show_nat_chars: "c \<in> set (show_nat n) \<Longrightarrow> bval c < 128 \<and> c \<noteq> space \<and> c \<noteq> newline \<and> c \<noteq> CHR ''+''"
  using show_nat_digits digit_ascii by blast

lemma parse_show_nat: "n < u64_bound \<Longrightarrow> parse_u64 (show_nat n) = Some n"
proof -
  assume n: "n < u64_bound"
  obtain c cs where s: "show_nat n = c # cs" by (cases "show_nat n") simp_all
  then have "c \<noteq> CHR ''+''" using show_nat_chars [of c n] by simp
  with s have "(case show_nat n of c # rest \<Rightarrow> if c = CHR ''+'' then rest else show_nat n
      | [] \<Rightarrow> show_nat n) = show_nat n"
    by simp
  with n show ?thesis
    by (simp add: parse_u64_def Let_def list_all_iff show_nat_digits)
qed

lemma header_of_answer:
  assumes "answer_ok oid kind body"
  shows "read_batch_header (git_answer oid kind body @ rest) =
    Inr (Some (oid, kind, length body), body @ [newline] @ rest)"
proof -
  let ?line = "oid @ space # kind @ space # show_nat (length body)"
  have free: "newline \<notin> set ?line"
    using assms show_nat_chars by (auto simp: answer_ok_def newline_def space_def)
  have line: "split_once newline (git_answer oid kind body @ rest) = Some (?line, body @ [newline] @ rest)"
    using free by (auto simp: split_once_Some git_answer_def)
  have sp: "valid_utf8 [space]"
    by (rule valid_utf8_ascii) (simp add: space_def bval_def)
  have num: "valid_utf8 (show_nat (length body))"
    by (rule valid_utf8_ascii) (simp add: show_nat_chars)
  have "valid_utf8 ?line"
    using assms sp num valid_utf8_append [OF sp] by (simp add: answer_ok_def valid_utf8_append)
  then have lossy: "from_utf8_lossy ?line = ?line" by (rule from_utf8_lossy_valid)
  have kind: "split_char space kind = [kind]"
    using assms by (simp add: answer_ok_def split_char_free)
  have num': "split_char space (show_nat (length body)) = [show_nat (length body)]"
    by (rule split_char_free) (auto dest: show_nat_chars)
  have fields: "split_char space ?line = split_char space oid @ [kind, show_nat (length body)]"
    by (simp add: split_char_append kind num')
  have "rsplit3 ?line = Some (show_nat (length body), kind, oid)"
    by (simp add: rsplit3_def Let_def fields butlast_append Suc_le_eq)
  moreover have "parse_u64 (show_nat (length body)) = Some (length body)"
    using assms by (simp add: parse_show_nat answer_ok_def)
  ultimately show ?thesis
    by (simp add: read_batch_header_def line lossy)
qed

lemma header_of_missing:
  assumes "newline \<notin> set object" and "valid_utf8 object"
  shows "read_batch_header (git_missing object @ rest) = Inr (None, rest)"
proof -
  let ?line = "object @ space # ''missing''"
  have line: "split_once newline (git_missing object @ rest) = Some (?line, rest)"
    using assms by (auto simp: split_once_Some git_missing_def space_def newline_def)
  have "valid_utf8 (space # ''missing'')"
    by (rule valid_utf8_ascii) (auto simp: space_def bval_def)
  then have lossy: "from_utf8_lossy ?line = ?line"
    using assms by (intro from_utf8_lossy_valid) (simp add: valid_utf8_append)
  have "split_char space ''missing'' = [''missing'']"
    by (rule split_char_free) (simp add: space_def)
  then have fields: "split_char space ?line = split_char space object @ [''missing'']"
    by (simp add: split_char_append)
  have "parse_u64 ''missing'' = None" by code_simp
  then show ?thesis
    by (auto simp: read_batch_header_def line lossy rsplit3_def Let_def fields)
qed

text \<open>What a reader answers for the content Git holds.\<close>

definition expected_read :: "nat \<Rightarrow> bool \<Rightarrow> string \<Rightarrow> string \<Rightarrow> blob_read" where
  "expected_read cap require_blob kind body =
     (if cap < length body then TooLarge (length body) (classify_error body)
      else if require_blob \<and> kind \<noteq> ''blob'' then NotABlob kind
      else (case classify body of Inr s \<Rightarrow> Blob_Text s | Inl e \<Rightarrow> Blob_NotText e))"

lemma read_body_exact:
  "read_batch_body (body @ [newline] @ rest) (length body) = Inr (body, rest)"
  by (simp add: read_batch_body_def read_exact_def)

lemma skip_body_exact:
  "length body + 1 < u64_bound \<Longrightarrow> skip_body (body @ [newline] @ rest) (length body) = Inr rest"
  by (simp add: skip_body_def Let_def)

lemma scan_chunks_exact:
  "scan_seen scan d \<Longrightarrow> left \<le> length r \<Longrightarrow>
   \<exists>scan'. scan_chunks left scan r = Inr (scan', drop left r) \<and> scan_seen scan' (d @ take left r)"
proof (induction left scan r arbitrary: d rule: scan_chunks.induct)
  case (1 left scan reader)
  show ?case
  proof (cases "left = 0")
    case True
    with "1.prems" show ?thesis by (simp add: scan_chunks.simps)
  next
    case False
    define n where "n = min left scan_buffer"
    have n: "n \<le> left" "n \<le> length reader" using "1.prems" by (simp_all add: n_def)
    have ex: "read_exact n reader = Inr (take n reader, drop n reader)"
      using n by (simp add: read_exact_def)
    have feed: "scan_seen (scan_feed scan (take n reader)) (d @ take n reader)"
      by (rule scan_feed_seen [OF "1.prems"(1)])
    have len: "left - n \<le> length (drop n reader)" using "1.prems"(2) by simp
    obtain scan' where
      s: "scan_chunks (left - n) (scan_feed scan (take n reader)) (drop n reader) =
          Inr (scan', drop (left - n) (drop n reader))"
      and seen: "scan_seen scan' ((d @ take n reader) @ take (left - n) (drop n reader))"
      using "1.IH" [OF False n_def ex refl feed len] by blast
    have t: "take n reader @ take (left - n) (drop n reader) = take left reader"
      using n(1) by (metis le_add_diff_inverse take_add)
    have "scan_chunks left scan reader = Inr (scan', drop left reader)"
      using False s ex n(1) by (subst scan_chunks.simps) (simp add: n_def [symmetric] Let_def)
    with seen t show ?thesis by auto
  qed
qed

lemma scan_discarded_exact:
  "scan_discarded_body (body @ [newline] @ rest) (length body) = Inr (classify_error body, rest)"
proof -
  have "\<exists>scan'. scan_chunks (length body) scan_new (body @ [newline] @ rest) =
      Inr (scan', drop (length body) (body @ [newline] @ rest)) \<and>
      scan_seen scan' ([] @ take (length body) (body @ [newline] @ rest))"
    by (rule scan_chunks_exact [OF scanner.start_seen]) simp
  then show ?thesis
    by (auto simp: scan_discarded_body_def read_exact_def scanner.finish_seen)
qed

lemma read_classified_exact:
  assumes "answer_ok oid kind body"
  shows "read_classified_response (git_answer oid kind body @ rest) cap require_blob =
    Inr (expected_read cap require_blob kind body, rest)"
proof -
  have "length body + 1 < u64_bound" using assms by (simp add: answer_ok_def)
  note skip = skip_body_exact [OF this, of rest]
  show ?thesis
    using read_body_exact [of body rest] skip scan_discarded_exact [of body rest]
    by (simp add: read_classified_response_def header_of_answer [OF assms] expected_read_def)
qed

section \<open>Sessions\<close>

text \<open>A repository maps object names to their identifier, type and content.\<close>

type_synonym repository = "string \<Rightarrow> (string \<times> string \<times> string) option"

definition git_serve :: "repository \<Rightarrow> string \<Rightarrow> string option" where
  "git_serve repo object =
     Some (case repo object of
       Some (oid, kind, body) \<Rightarrow> git_answer oid kind body
     | None \<Rightarrow> git_missing object)"

definition session_of :: "repository \<Rightarrow> cat_file" where
  "session_of repo = \<lparr>cat_serve = git_serve repo, cat_unread = []\<rparr>"

definition repository_ok :: "repository \<Rightarrow> bool" where
  "repository_ok repo \<longleftrightarrow>
     (\<forall>object oid kind body. repo object = Some (oid, kind, body) \<longrightarrow> answer_ok oid kind body)"

definition expected_blob :: "repository \<Rightarrow> string \<Rightarrow> nat \<Rightarrow> bool \<Rightarrow> blob_read" where
  "expected_blob repo object cap require_blob =
     (if line_break object then Missing
      else case repo object of
        None \<Rightarrow> Missing
      | Some (oid, kind, body) \<Rightarrow> expected_read cap require_blob kind body)"

lemma session_read_classified:
  assumes "repository_ok repo" and "valid_utf8 object"
  shows "cat_read_classified (session_of repo) object cap require_blob =
    Inr (expected_blob repo object cap require_blob, session_of repo)"
proof (cases "line_break object")
  case True
  then show ?thesis by (simp add: cat_read_classified_def expected_blob_def)
next
  case False
  then have nl: "newline \<notin> set object" by (simp add: line_break_def)
  show ?thesis
  proof (cases "repo object")
    case None
    with False header_of_missing [OF nl assms(2), of "[]"] show ?thesis
      by (simp add: cat_read_classified_def request_def session_of_def git_serve_def
          expected_blob_def read_classified_response_def)
  next
    case (Some x)
    obtain oid kind body where x: "x = (oid, kind, body)" by (cases x)
    with Some assms(1) have "answer_ok oid kind body" by (auto simp: repository_ok_def)
    from False Some x read_classified_exact [OF this, of "[]"] show ?thesis
      by (simp add: cat_read_classified_def request_def session_of_def git_serve_def expected_blob_def)
  qed
qed

text \<open>The invariant of a reader: an open session belongs to its root and has nothing unread.\<close>

definition reader_ok :: "(string \<Rightarrow> repository) \<Rightarrow> blob_reader \<Rightarrow> bool" where
  "reader_ok repos reader \<longleftrightarrow>
     (\<forall>root cat. br_open reader = Some (root, cat) \<longrightarrow> cat = session_of (repos root))"

section \<open>The properties\<close>

text \<open>
  C25.  Scanning content in chunks, however it is cut, gives the verdict of looking at the whole
  content: NUL anywhere is binary, otherwise anything but strict UTF-8 is refused.
\<close>

theorem chunk_scan_is_classify:
  "scan_finish (foldl scan_feed scan_new chunks) = classify_error (concat chunks)"
  by (rule scanner.finish_fold)

text \<open>
  C26.  Reading one answer yields what the object's size, type and content call for and leaves
  exactly the bytes after it: the next answer starts where this one ended.
\<close>

theorem response_read_in_sync:
  assumes "answer_ok oid kind body"
  shows "read_classified_response (git_answer oid kind body @ rest) cap require_blob =
    Inr (expected_read cap require_blob kind body, rest)"
  by (rule read_classified_exact [OF assms])

theorem response_read_in_sync_witness:
  "read_classified_response (git_answer ''a1'' ''blob'' ''hi'' @ ''next'') 2 True =
    Inr (Blob_Text ''hi'', ''next'')"
proof -
  have "answer_ok ''a1'' ''blob'' ''hi''"
  proof -
    have "valid_utf8 ''a1''" "valid_utf8 ''blob''" by code_simp+
    then show ?thesis by (simp add: answer_ok_def newline_def space_def u64_bound_def)
  qed
  moreover have "expected_read 2 True ''blob'' ''hi'' = Blob_Text ''hi''" by code_simp
  ultimately show ?thesis using response_read_in_sync by metis
qed

lemma read_internal_from_root:
  assumes "\<And>root. repository_ok (repos root)" and "reader_ok repos reader"
    and "\<not> br_cancelled reader" and "valid_utf8 spec"
  shows "read_internal (\<lambda>root. Inr (session_of (repos root))) (\<lambda>_. None) reader root spec cap require_blob =
    (Inr (expected_blob (repos root) spec cap require_blob),
     reader\<lparr>br_open := Some (root, session_of (repos root))\<rparr>)"
proof (cases "br_open reader")
  case None
  with assms(3) session_read_classified [OF assms(1,4)] show ?thesis
    by (simp add: read_internal_def)
next
  case (Some rc)
  obtain r cat where rc: "rc = (r, cat)" by (cases rc)
  show ?thesis
  proof (cases "r = root")
    case True
    with assms(2) Some rc have "cat = session_of (repos root)" by (simp add: reader_ok_def)
    with True Some rc assms(3) session_read_classified [OF assms(1,4)] show ?thesis
      by (simp add: read_internal_def)
  next
    case False
    with Some rc assms(3) session_read_classified [OF assms(1,4)] show ?thesis
      by (simp add: read_internal_def reader_close_def)
  qed
qed

text \<open>
  C27.  A reader answers every request from the repository it is asked about, whatever it read
  before, and ends with that repository's session open and drained.
\<close>

theorem reader_answers_from_root:
  assumes "\<And>root. repository_ok (repos root)" and "reader_ok repos reader"
    and "\<not> br_cancelled reader" and "valid_utf8 spec"
  shows "read_internal (\<lambda>root. Inr (session_of (repos root))) (\<lambda>_. None) reader root spec cap require_blob =
    (Inr (expected_blob (repos root) spec cap require_blob),
     reader\<lparr>br_open := Some (root, session_of (repos root))\<rparr>)"
  by (rule read_internal_from_root [OF assms])

definition demo_repository :: "string \<Rightarrow> repository" where
  "demo_repository root object =
     (if object = ''a'' then Some (''a1'', ''blob'', if root = ''r1'' then ''one'' else ''two'') else None)"

lemma demo_repository_ok: "repository_ok (demo_repository root)"
proof -
  have "valid_utf8 ''a1''" "valid_utf8 ''blob''" by code_simp+
  then show ?thesis
    by (auto simp: repository_ok_def demo_repository_def answer_ok_def newline_def space_def u64_bound_def
        split: if_splits)
qed

theorem reader_answers_from_root_witness:
  "fst (read_internal (\<lambda>root. Inr (session_of (demo_repository root))) (\<lambda>_. None)
     \<lparr>br_open = Some (''r1'', session_of (demo_repository ''r1'')), br_cancelled = False,
      br_require_blob = True\<rparr> ''r2'' ''a'' 9 True) = Inr (Blob_Text ''two'')"
proof -
  let ?reader = "\<lparr>br_open = Some (''r1'', session_of (demo_repository ''r1'')), br_cancelled = False,
      br_require_blob = True\<rparr>"
  have ok: "reader_ok demo_repository ?reader" by (simp add: reader_ok_def)
  have open_reader: "\<not> br_cancelled ?reader" by simp
  have spec: "valid_utf8 ''a''" by code_simp
  have e: "expected_blob (demo_repository ''r2'') ''a'' 9 True = Blob_Text ''two''" by code_simp
  show ?thesis
    unfolding reader_answers_from_root [where repos = demo_repository, OF demo_repository_ok ok open_reader spec]
    by (simp only: e fst_conv)
qed

definition offers_nothing :: "blob_read \<Rightarrow> bool" where
  "offers_nothing answer \<longleftrightarrow>
     answer = Missing \<or> (\<exists>r. answer = Blob_NotText r) \<or> (\<exists>n r. answer = TooLarge n (Some r))"

definition null_spec :: "string \<Rightarrow> bool" where
  "null_spec spec \<longleftrightarrow> list_all (\<lambda>b. b = CHR ''0'') spec"

text \<open>
  The content of a deleted file is the deletion marker exactly when no source has any text
  to offer and none is too large: every named source is missing, not text, or a null object.
\<close>

theorem deleted_marker_iff:
  "fst (first_deleted_text (\<lambda>s spec. (repo spec, s)) s specs) = Inr Deleted_Marker \<longleftrightarrow>
   list_all (\<lambda>spec. null_spec spec \<or> (\<exists>answer. repo spec = Inr answer \<and> offers_nothing answer)) specs"
proof (induction specs)
  case Nil
  then show ?case by simp
next
  case (Cons spec specs)
  show ?case
  proof (cases "null_spec spec")
    case True
    then have "spec = [] \<or> list_all (\<lambda>b. b = CHR ''0'') spec" by (simp add: null_spec_def)
    with Cons True show ?thesis by simp
  next
    case False
    then have n: "\<not> (spec = [] \<or> list_all (\<lambda>b. b = CHR ''0'') spec)" by (auto simp: null_spec_def)
    show ?thesis
    proof (cases "repo spec")
      case (Inl e)
      with n False show ?thesis by (auto simp: offers_nothing_def)
    next
      case (Inr answer)
      with n False Cons show ?thesis
        by (cases answer) (auto simp: offers_nothing_def split: option.splits)
    qed
  qed
qed

end
