(* ===== verification/Fsutil.thy ===== *)
theory Fsutil
  imports Paths Blob
begin

text \<open>
  Reading, encoding checks, the directory walk and the safe write (\<open>crates/core/src/fsutil.rs\<close>).
  The operations that change the file system return the host with it changed.
\<close>

section \<open>Reading\<close>

definition decode_utf8_or_skip :: "string \<Rightarrow> string option" where
  "decode_utf8_or_skip bytes = (case classify bytes of Inr s \<Rightarrow> Some s | Inl _ \<Rightarrow> None)"

definition read_text_file :: "host \<Rightarrow> native_path \<Rightarrow> io_error + string option" where
  "read_text_file h path =
     (case read_bytes h path of Inl e \<Rightarrow> Inl e | Inr bytes \<Rightarrow> Inr (decode_utf8_or_skip bytes))"

definition ENCODING_CHECK_LIMIT :: nat where "ENCODING_CHECK_LIMIT = 8 * 1024 * 1024"

datatype target_encoding = Absent | Utf8 | Other | Unverifiable

text \<open>\<open>Metadata::len\<close> of a node.\<close>

definition node_len :: "node \<Rightarrow> nat" where
  "node_len n = (case n of Regular bytes \<Rightarrow> length bytes | _ \<Rightarrow> 0)"

definition is_file_node :: "node \<Rightarrow> bool" where
  "is_file_node n = (case n of Regular _ \<Rightarrow> True | _ \<Rightarrow> False)"

definition target_encoding_of :: "host \<Rightarrow> native_path \<Rightarrow> target_encoding" where
  "target_encoding_of h path =
     (case metadata h path of
        Inl _ \<Rightarrow> Absent
      | Inr info \<Rightarrow>
          if \<not> is_file_node info then Absent
          else if ENCODING_CHECK_LIMIT < node_len info then Unverifiable
          else (case read_text_file h path of
              Inr (Some _) \<Rightarrow> Utf8
            | Inr None \<Rightarrow> Other
            | Inl _ \<Rightarrow> Unverifiable))"

definition must_not_overwrite :: "host \<Rightarrow> native_path \<Rightarrow> bool" where
  "must_not_overwrite h path \<longleftrightarrow>
     target_encoding_of h path = Other \<or> target_encoding_of h path = Unverifiable"

section \<open>The walk\<close>

datatype walk_item = File native_path | UnreadableDir native_path

definition read_dir :: "host \<Rightarrow> native_path \<Rightarrow> io_error + string list" where
  "read_dir h path =
     (case canonicalize h path of
        Inl e \<Rightarrow> Inl e
      | Inr real \<Rightarrow>
          if lookup_node h real \<noteq> Some Directory then Inl NotADirectory
          else if host_denied h real then Inl PermissionDenied
          else Inr (host_listing h real))"

text \<open>Lists of UTF-16 units, compared as \<open>Vec<u16>\<close> is.\<close>

fun lex_le :: "nat list \<Rightarrow> nat list \<Rightarrow> bool" where
  "lex_le [] ys = True"
| "lex_le (x # xs) [] = False"
| "lex_le (x # xs) (y # ys) = (x < y \<or> x = y \<and> lex_le xs ys)"

definition js_le :: "string \<Rightarrow> string \<Rightarrow> bool" where
  "js_le a b = lex_le (encode_utf16 (from_utf8_lossy a)) (encode_utf16 (from_utf8_lossy b))"

fun insert_js :: "string \<Rightarrow> string list \<Rightarrow> string list" where
  "insert_js x [] = [x]"
| "insert_js x (y # ys) = (if js_le x y then x # y # ys else y # insert_js x ys)"

text \<open>A stable sort by the key.\<close>

definition sort_names_js_order :: "string list \<Rightarrow> string list" where
  "sort_names_js_order names = foldr insert_js names []"

type_synonym walk_stack = "(native_path \<times> bool) list"

definition walk_child :: "native_path \<Rightarrow> string \<Rightarrow> native_path" where
  "walk_child path n = path\<lparr>np_names := np_names path @ [n]\<rparr>"

text \<open>One turn of the loop of \<open>next\<close>: the item it returns, if any, and the new stack.\<close>

definition walk_visit ::
  "host \<Rightarrow> (native_path \<Rightarrow> bool) \<Rightarrow> native_path \<Rightarrow> bool \<Rightarrow> walk_stack \<Rightarrow> walk_item option \<times> walk_stack" where
  "walk_visit h should_enter path is_selection stack =
     (let enter =
        (if \<not> should_enter path then (None, stack)
         else case read_dir h path of
           Inl _ \<Rightarrow> (Some (UnreadableDir path), stack)
         | Inr names \<Rightarrow>
             (None, map (\<lambda>n. (walk_child path n, False)) (sort_names_js_order names) @ stack)) in
      case symlink_metadata h path of
        Inl _ \<Rightarrow> (None, stack)
      | Inr (Symlink _) \<Rightarrow>
          if \<not> path_is_dir h path then (Some (File path), stack)
          else if \<not> is_selection then (None, stack)
          else enter
      | Inr Directory \<Rightarrow> enter
      | Inr _ \<Rightarrow> (Some (File path), stack))"

text \<open>
  The items of the whole walk; every turn of the loop costs one unit of fuel, and \<open>None\<close> means that
  it did not suffice.
\<close>

primrec walk_items ::
  "nat \<Rightarrow> host \<Rightarrow> (native_path \<Rightarrow> bool) \<Rightarrow> walk_stack \<Rightarrow> walk_item list option" where
  "walk_items 0 h should_enter stack = (if stack = [] then Some [] else None)"
| "walk_items (Suc fuel) h should_enter stack =
     (case stack of
        [] \<Rightarrow> Some []
      | (path, is_selection) # rest \<Rightarrow>
          (let (item, stack') = walk_visit h should_enter path is_selection rest in
           map_option (\<lambda>items. (case item of Some i \<Rightarrow> [i] | None \<Rightarrow> []) @ items)
             (walk_items fuel h should_enter stack')))"

definition list_files_recursive ::
  "nat \<Rightarrow> host \<Rightarrow> native_path \<Rightarrow> (native_path \<Rightarrow> bool) \<Rightarrow> walk_item list option" where
  "list_files_recursive fuel h input should_enter = walk_items fuel h should_enter [(input, True)]"

section \<open>Changing the file system\<close>

definition set_node :: "host \<Rightarrow> string list \<Rightarrow> node option \<Rightarrow> host" where
  "set_node h entry n =
     h\<lparr>node_at := (node_at h)(entry := n),
       host_listing := (host_listing h)(butlast entry :=
         (let names = host_listing h (butlast entry) in
          if n = None then removeAll (last entry) names
          else if last entry \<in> set names then names else names @ [last entry]))\<rparr>"

text \<open>\<open>mkdir\<close>, and the exclusive creation of a file in a directory.\<close>

definition mkdir :: "host \<Rightarrow> native_path \<Rightarrow> io_error + host" where
  "mkdir h path =
     (case entry_of h path of
        Inl e \<Rightarrow> Inl e
      | Inr entry \<Rightarrow>
          if lookup_node h entry \<noteq> None then Inl AlreadyExists
          else if host_unwritable h (butlast entry) then Inl PermissionDenied
          else Inr (set_node h entry (Some Directory)))"

text \<open>\<open>fs::create_dir_all\<close>, on the first \<open>k\<close> names of a path.\<close>

primrec create_dirs :: "host \<Rightarrow> native_path \<Rightarrow> nat \<Rightarrow> io_error option \<times> host" where
  "create_dirs h path 0 =
     (let p = path\<lparr>np_names := []\<rparr> in
      if \<not> np_absolute path then (None, h)
      else case mkdir h p of
        Inr h' \<Rightarrow> (None, h')
      | Inl e \<Rightarrow> if e \<noteq> NotFound \<and> path_is_dir h p then (None, h) else (Some e, h))"
| "create_dirs h path (Suc k) =
     (let p = path\<lparr>np_names := take (Suc k) (np_names path)\<rparr> in
      case mkdir h p of
        Inr h' \<Rightarrow> (None, h')
      | Inl e \<Rightarrow>
          if e \<noteq> NotFound then (if path_is_dir h p then (None, h) else (Some e, h))
          else
            (case create_dirs h path k of
               (Some e', h') \<Rightarrow> (Some e', h')
             | (None, h') \<Rightarrow>
                 (case mkdir h' p of
                    Inr h'' \<Rightarrow> (None, h'')
                  | Inl e' \<Rightarrow> if path_is_dir h' p then (None, h') else (Some e', h'))))"

definition create_dir_all :: "host \<Rightarrow> native_path \<Rightarrow> io_error option \<times> host" where
  "create_dir_all h path = create_dirs h path (length (np_names path))"

definition rename_entry :: "host \<Rightarrow> string list \<Rightarrow> native_path \<Rightarrow> io_error + host" where
  "rename_entry h old path =
     (case entry_of h path of
        Inl e \<Rightarrow> Inl e
      | Inr entry \<Rightarrow>
          if lookup_node h entry = Some Directory then Inl OtherError
          else if entry = old then Inr h
          else Inr (set_node (set_node h entry (node_at h old)) old None))"

definition write_text_file :: "host \<Rightarrow> native_path \<Rightarrow> string \<Rightarrow> io_error option \<times> host" where
  "write_text_file h path content =
     (let parent = (case path_parent path of
            Some p \<Rightarrow> if \<not> np_absolute p \<and> np_names p = [] then components dot else p
          | None \<Rightarrow> components dot) in
      case create_dir_all h parent of
        (Some e, h1) \<Rightarrow> (Some e, h1)
      | (None, h1) \<Rightarrow>
          (case canonicalize h1 parent of
             Inl e \<Rightarrow> (Some e, h1)
           | Inr dir \<Rightarrow>
               (let tmp = dir @ [host_temp_name h1 dir] in
                if lookup_node h1 dir \<noteq> Some Directory then (Some NotADirectory, h1)
                else if lookup_node h1 tmp \<noteq> None then (Some AlreadyExists, h1)
                else if host_unwritable h1 dir then (Some PermissionDenied, h1)
                else
                  (let h2 = set_node h1 tmp (Some (Regular content)) in
                   case symlink_metadata h2 path of
                     Inl e \<Rightarrow>
                       if e \<noteq> NotFound then (Some e, set_node h2 tmp None)
                       else (case rename_entry h2 tmp path of
                           Inl e' \<Rightarrow> (Some e', set_node h2 tmp None)
                         | Inr h3 \<Rightarrow> (None, h3))
                   | Inr _ \<Rightarrow>
                       (case rename_entry h2 tmp path of
                          Inl e' \<Rightarrow> (Some e', set_node h2 tmp None)
                        | Inr h3 \<Rightarrow> (None, h3))))))"

definition delete_file :: "host \<Rightarrow> native_path \<Rightarrow> io_error option \<times> host" where
  "delete_file h path =
     (case entry_of h path of
        Inl e \<Rightarrow> (Some e, h)
      | Inr entry \<Rightarrow>
          (case lookup_node h entry of
             None \<Rightarrow> (Some NotFound, h)
           | Some Directory \<Rightarrow> (Some OtherError, h)
           | Some _ \<Rightarrow>
               if host_unwritable h (butlast entry) then (Some PermissionDenied, h)
               else (None, set_node h entry None)))"

end
