(* ===== verification/Fsutil_Correct.thy ===== *)
theory Fsutil_Correct
  imports Fsutil Paths_Correct "HOL-Library.Sublist"
begin

text \<open>
  Facts about \<open>Fsutil\<close>: what the operations that change the file system change, and nothing else.
\<close>

section \<open>Trees\<close>

text \<open>Every node lies in a directory.\<close>

definition tree_ok :: "host \<Rightarrow> bool" where
  "tree_ok h \<longleftrightarrow> (\<forall>q c. node_at h (q @ [c]) \<noteq> None \<longrightarrow> lookup_node h q = Some Directory)"

lemma tree_ok_missing:
  assumes "tree_ok h" and "lookup_node h q = None"
  shows "node_at h (q @ r) = None"
proof (induction r rule: rev_induct)
  case Nil
  with assms(2) show ?case by (auto simp: lookup_node_def split: if_splits)
next
  case (snoc c r)
  have "lookup_node h (q @ r) \<noteq> Some Directory"
    using snoc assms(2) by (cases "q @ r = []") (auto simp: lookup_node_def split: if_splits)
  with assms(1) show ?case by (metis append_assoc tree_ok_def)
qed

lemma tree_okD: "tree_ok h \<Longrightarrow> node_at h (q @ [c]) \<noteq> None \<Longrightarrow> lookup_node h q = Some Directory"
  unfolding tree_ok_def by blast

lemma tree_ok_cong:
  assumes "node_at h' = node_at h" and "tree_ok h" shows "tree_ok h'"
proof -
  have "lookup_node h' = lookup_node h" by (rule ext) (simp add: lookup_node_def assms(1))
  with assms show ?thesis by (simp add: tree_ok_def)
qed

text \<open>The parts of a host no operation changes.\<close>

definition same_env :: "host \<Rightarrow> host \<Rightarrow> bool" where
  "same_env h h' \<longleftrightarrow> host_max_links h' = host_max_links h \<and> host_cwd h' = host_cwd h \<and>
     host_denied h' = host_denied h \<and> host_unwritable h' = host_unwritable h \<and>
     host_to_lowercase h' = host_to_lowercase h \<and> host_temp_name h' = host_temp_name h"

lemma same_env_refl [simp]: "same_env h h"
  by (simp add: same_env_def)

lemma same_env_trans: "same_env h h' \<Longrightarrow> same_env h' h'' \<Longrightarrow> same_env h h''"
  by (simp add: same_env_def)

lemma same_env_set_node [simp]: "same_env h (set_node h e n)"
  by (simp add: same_env_def set_node_def)

lemma node_at_set_node [simp]: "node_at (set_node h e n) = (node_at h)(e := n)"
  by (simp add: set_node_def)

lemma lookup_set_node:
  "e \<noteq> [] \<Longrightarrow> lookup_node (set_node h e n) q = (if q = e then n else lookup_node h q)"
  by (simp add: lookup_node_def)

section \<open>Walking a tree that grew\<close>

definition extends :: "host \<Rightarrow> host \<Rightarrow> bool" where
  "extends h h' \<longleftrightarrow> (\<forall>q n. lookup_node h q = Some n \<longrightarrow> lookup_node h' q = Some n)"

lemma walk_plain:
  assumes "plain_name x"
  shows "walk h links cur (x # ys) = (case lookup_node h (cur @ [x]) of
        None \<Rightarrow> Inl NotFound
      | Some Directory \<Rightarrow> walk h links (cur @ [x]) ys
      | Some (Symlink t) \<Rightarrow>
          if links = 0 then Inl TooManyLinks
          else if np_absolute (components t)
            then walk h (links - 1) [] (np_names (components t) @ ys)
            else walk h (links - 1) cur (np_names (components t) @ ys)
      | Some _ \<Rightarrow> if ys = [] then Inr (cur @ [x]) else Inl NotADirectory)"
  using assms by (simp only: walk.simps plain_name_def if_False simp_thms)

lemma walk_skip: "x = [] \<or> x = dot \<Longrightarrow> walk h links cur (x # ys) = walk h links cur ys"
  by (simp only: walk.simps if_True)

lemma walk_up: "walk h links cur (dotdot # ys) = walk h links (butlast cur) ys"
proof -
  have "\<not> (dotdot = [] \<or> dotdot = dot)" by (simp add: dot_def dotdot_def)
  then show ?thesis by (simp only: walk.simps if_True if_False simp_thms)
qed

lemma walk_induct [case_names Nil Skip Up Missing Dir Leaf Spent Abs Rel]:
  fixes P :: "nat \<Rightarrow> string list \<Rightarrow> string list \<Rightarrow> bool"
  assumes Nil: "\<And>links cur. P links cur []"
    and Skip: "\<And>links cur x xs. x = [] \<or> x = dot \<Longrightarrow> P links cur xs \<Longrightarrow> P links cur (x # xs)"
    and Up: "\<And>links cur xs. P links (butlast cur) xs \<Longrightarrow> P links cur (dotdot # xs)"
    and Missing: "\<And>links cur x xs. plain_name x \<Longrightarrow> lookup_node h (cur @ [x]) = None \<Longrightarrow> P links cur (x # xs)"
    and Dir: "\<And>links cur x xs. plain_name x \<Longrightarrow> lookup_node h (cur @ [x]) = Some Directory \<Longrightarrow>
      P links (cur @ [x]) xs \<Longrightarrow> P links cur (x # xs)"
    and Leaf: "\<And>links cur x xs n. plain_name x \<Longrightarrow> lookup_node h (cur @ [x]) = Some n \<Longrightarrow>
      (\<exists>bytes. n = Regular bytes) \<or> n = Special \<Longrightarrow> P links cur (x # xs)"
    and Spent: "\<And>cur x xs t. plain_name x \<Longrightarrow> lookup_node h (cur @ [x]) = Some (Symlink t) \<Longrightarrow> P 0 cur (x # xs)"
    and Abs: "\<And>links cur x xs t. plain_name x \<Longrightarrow> lookup_node h (cur @ [x]) = Some (Symlink t) \<Longrightarrow> links \<noteq> 0 \<Longrightarrow>
      np_absolute (components t) \<Longrightarrow> P (links - 1) [] (np_names (components t) @ xs) \<Longrightarrow> P links cur (x # xs)"
    and Rel: "\<And>links cur x xs t. plain_name x \<Longrightarrow> lookup_node h (cur @ [x]) = Some (Symlink t) \<Longrightarrow> links \<noteq> 0 \<Longrightarrow>
      \<not> np_absolute (components t) \<Longrightarrow> P (links - 1) cur (np_names (components t) @ xs) \<Longrightarrow>
      P links cur (x # xs)"
  shows "P links cur ps"
  using assms
proof (induction h links cur ps rule: walk.induct)
  case (1 h links cur)
  show ?case by (rule "1.prems"(1))
next
  case (2 h links cur x xs)
  note prems = "2.prems"
  consider "x = [] \<or> x = dot" | "x = dotdot" "x \<noteq> []" "x \<noteq> dot" | "plain_name x"
    by (auto simp: plain_name_def)
  then show ?case
  proof cases
    case 1
    show ?thesis by (rule prems(2) [OF 1 "2.IH"(1) [OF 1 prems]])
  next
    case 2
    then have n: "\<not> (x = [] \<or> x = dot)" by simp
    show ?thesis unfolding 2(1) by (rule prems(3) [OF "2.IH"(2) [OF n 2(1) prems]])
  next
    case 3
    then have n: "\<not> (x = [] \<or> x = dot)" "x \<noteq> dotdot" by (simp_all add: plain_name_def)
    show ?thesis
    proof (cases "lookup_node h (cur @ [x])")
      case None
      show ?thesis by (rule prems(4) [OF 3 None])
    next
      case (Some m)
      show ?thesis
      proof (cases m)
        case Directory
        note l = Some [unfolded Directory]
        show ?thesis by (rule prems(5) [OF 3 l "2.IH"(3) [OF n l refl prems]])
      next
        case (Symlink t)
        note l = Some [unfolded Symlink]
        show ?thesis
        proof (cases "links = 0")
          case True
          show ?thesis unfolding True by (rule prems(7) [OF 3 l])
        next
          case False
          show ?thesis
          proof (cases "np_absolute (components t)")
            case True
            show ?thesis by (rule prems(8) [OF 3 l False True "2.IH"(4) [OF n l refl False True prems]])
          next
            case rel: False
            show ?thesis by (rule prems(9) [OF 3 l False rel "2.IH"(5) [OF n l refl False rel prems]])
          qed
        qed
      qed (rule prems(6) [OF 3 Some]; simp)+
    qed
  qed
qed

lemma walk_extends:
  assumes "extends h h'" and "host_max_links h' = host_max_links h"
  shows "walk h links cur ps = Inr d \<Longrightarrow> walk h' links cur ps = Inr d"
proof (induction links cur ps rule: walk_induct [where h = h])
  case (Leaf links cur x xs n)
  then have "lookup_node h' (cur @ [x]) = Some n" using assms(1) by (simp add: extends_def)
  with Leaf show ?case by (auto simp add: walk_plain)
qed (use assms(1) in \<open>simp_all add: walk_plain walk_skip walk_up extends_def split: if_splits\<close>)

lemma walk_fails_append: "walk h links cur ps = Inl e \<Longrightarrow> walk h links cur (ps @ qs) = Inl e"
proof (induction links cur ps rule: walk_induct [where h = h])
  case (Leaf links cur x xs n)
  then show ?case by (auto simp add: walk_plain split: if_splits)
qed (simp_all add: walk_plain walk_skip walk_up split: if_splits)

section \<open>Creating directories\<close>

text \<open>The host with directories added along one path, and nothing else changed.\<close>

definition chain_added :: "host \<Rightarrow> host \<Rightarrow> string list \<Rightarrow> string list \<Rightarrow> bool" where
  "chain_added h h' d xs \<longleftrightarrow> same_env h h' \<and>
     (\<forall>q. node_at h' q =
       (if \<exists>j. 0 < j \<and> j \<le> length xs \<and> q = d @ take j xs then Some Directory else node_at h q))"

lemma chain_added_Nil: "chain_added h h' d [] \<Longrightarrow> node_at h' = node_at h"
  by (rule ext) (auto simp: chain_added_def)

lemma chain_added_snoc:
  assumes "chain_added h h1 d xs"
  shows "chain_added h (set_node h1 (d @ xs @ [c]) (Some Directory)) d (xs @ [c])"
proof -
  have "(\<exists>j. 0 < j \<and> j \<le> length (xs @ [c]) \<and> q = d @ take j (xs @ [c])) \<longleftrightarrow>
      q = d @ xs @ [c] \<or> (\<exists>j. 0 < j \<and> j \<le> length xs \<and> q = d @ take j xs)" for q
  proof
    assume "\<exists>j. 0 < j \<and> j \<le> length (xs @ [c]) \<and> q = d @ take j (xs @ [c])"
    then obtain j where j: "0 < j" "j \<le> length (xs @ [c])" "q = d @ take j (xs @ [c])" by blast
    show "q = d @ xs @ [c] \<or> (\<exists>j. 0 < j \<and> j \<le> length xs \<and> q = d @ take j xs)"
    proof (cases "j \<le> length xs")
      case True
      with j show ?thesis by auto
    next
      case False
      with j have "j = length (xs @ [c])" by simp
      with j(3) show ?thesis by simp
    qed
  next
    assume "q = d @ xs @ [c] \<or> (\<exists>j. 0 < j \<and> j \<le> length xs \<and> q = d @ take j xs)"
    then show "\<exists>j. 0 < j \<and> j \<le> length (xs @ [c]) \<and> q = d @ take j (xs @ [c])"
    proof
      assume "q = d @ xs @ [c]"
      then show ?thesis by (intro exI [of _ "Suc (length xs)"]) simp
    next
      assume "\<exists>j. 0 < j \<and> j \<le> length xs \<and> q = d @ take j xs"
      then show ?thesis by force
    qed
  qed
  with assms show ?thesis
    by (auto simp: chain_added_def intro: same_env_trans [OF _ same_env_set_node])
qed

lemma chain_added_extends:
  assumes "chain_added h h' d xs" and "tree_ok h" and "xs \<noteq> [] \<Longrightarrow> lookup_node h (d @ [hd xs]) = None"
  shows "extends h h'"
  unfolding extends_def
proof (intro allI impI)
  fix q n
  assume q: "lookup_node h q = Some n"
  show "lookup_node h' q = Some n"
  proof (cases "\<exists>j. 0 < j \<and> j \<le> length xs \<and> q = d @ take j xs")
    case True
    then obtain j where j: "0 < j" "j \<le> length xs" "q = d @ take j xs" by blast
    then have "q = (d @ [hd xs]) @ take (j - 1) (tl xs)" and "xs \<noteq> []"
      by (cases xs; cases j; simp)+
    with tree_ok_missing [OF assms(2) assms(3)] have "node_at h q = None" by metis
    with q \<open>q = (d @ [hd xs]) @ _\<close> show ?thesis by (auto simp: lookup_node_def)
  next
    case False
    with assms(1) have "node_at h' q = node_at h q" by (auto simp: chain_added_def)
    with q show ?thesis by (simp add: lookup_node_def split: if_splits)
  qed
qed

lemma entry_of_snoc:
  assumes "plain_name c"
  shows "entry_of h (abs_path (xs @ [c])) =
    (case walk h (host_max_links h) [] xs of
       Inl e \<Rightarrow> Inl e
     | Inr d \<Rightarrow> if lookup_node h d = Some Directory then Inr (d @ [c]) else Inl NotADirectory)"
  using assms by (cases "walk h (host_max_links h) [] xs")
    (simp_all add: entry_of_def absolute_names_def abs_path_def)

lemma mkdir_snoc:
  assumes "plain_name c"
  shows "mkdir h (abs_path (xs @ [c])) =
    (case walk h (host_max_links h) [] xs of
       Inl e \<Rightarrow> Inl e
     | Inr d \<Rightarrow>
         if lookup_node h d \<noteq> Some Directory then Inl NotADirectory
         else if lookup_node h (d @ [c]) \<noteq> None then Inl AlreadyExists
         else if host_unwritable h d then Inl PermissionDenied
         else Inr (set_node h (d @ [c]) (Some Directory)))"
  by (auto simp: mkdir_def entry_of_snoc [OF assms] split: sum.splits)

lemma path_is_dir_iff:
  "path_is_dir h (abs_path ns) \<longleftrightarrow>
     (\<exists>d. walk h (host_max_links h) [] ns = Inr d \<and> lookup_node h d = Some Directory)"
  by (auto simp: path_is_dir_def metadata_def canonicalize_def absolute_names_def abs_path_def
      split: sum.splits option.splits node.splits)

text \<open>
  What creating the first \<open>k\<close> names of a path can do: nothing, or directories below the deepest
  existing one, all of them when it succeeds.
\<close>

definition dirs_created ::
  "host \<Rightarrow> host \<Rightarrow> string list \<Rightarrow> nat \<Rightarrow> bool \<Rightarrow> bool" where
  "dirs_created h h' ns k done \<longleftrightarrow>
     (\<exists>m d j. m < k \<and> 0 < j \<and> j \<le> k - m \<and> (done \<longrightarrow> j = k - m) \<and>
        walk h (host_max_links h) [] (take m ns) = Inr d \<and> lookup_node h d = Some Directory \<and>
        lookup_node h (d @ [ns ! m]) = None \<and> chain_added h h' d (take j (drop m ns)) \<and>
        (done \<longrightarrow> walk h' (host_max_links h') [] (take k ns) = Inr (d @ take (k - m) (drop m ns))))"

lemma dirs_created_weaken:
  assumes "dirs_created h h' ns k b" and "k \<le> k'" shows "dirs_created h h' ns k' False"
proof -
  from assms(1) obtain m d j where "m < k" "0 < j" "j \<le> k - m"
    "walk h (host_max_links h) [] (take m ns) = Inr d" "lookup_node h d = Some Directory"
    "lookup_node h (d @ [ns ! m]) = None" "chain_added h h' d (take j (drop m ns))"
    by (auto simp: dirs_created_def)
  with assms(2) show ?thesis
    unfolding dirs_created_def by (intro exI [of _ m] exI [of _ d] exI [of _ j]) simp
qed

lemma take_drop_Suc:
  "m \<le> k \<Longrightarrow> k < length ns \<Longrightarrow> take (Suc k - m) (drop m ns) = take (k - m) (drop m ns) @ [ns ! k]"
  by (simp add: Suc_diff_le take_Suc_conv_app_nth)

lemma create_dirs_cases:
  assumes tree: "tree_ok h" and plain: "\<forall>c\<in>set ns. plain_name c" and k: "k \<le> length ns"
    and c: "create_dirs h (abs_path ns) k = (r, h')"
  shows "(h' = h \<and> (r = None \<longrightarrow> path_is_dir h (abs_path (take k ns)))) \<or> dirs_created h h' ns k (r = None)"
  using k c
proof (induction k arbitrary: r h')
  case 0
  have "path_is_dir h (abs_path [])" by (simp add: path_is_dir_iff lookup_node_def)
  moreover have "mkdir h (abs_path []) = Inl AlreadyExists"
    by (simp add: mkdir_def entry_of_def absolute_names_def abs_path_def lookup_node_def)
  ultimately show ?case using 0 by (simp add: abs_path_def)
next
  case (Suc k)
  define xs where "xs = take k ns"
  define c where "c = ns ! k"
  have tk: "take (Suc k) ns = xs @ [c]" using Suc.prems(1) by (simp add: xs_def c_def take_Suc_conv_app_nth)
  have pc: "plain_name c" using plain Suc.prems(1) by (simp add: c_def)
  have path: "abs_path ns\<lparr>np_names := take (Suc k) (np_names (abs_path ns))\<rparr> = abs_path (xs @ [c])"
    by (simp add: abs_path_def tk)
  note unf = Suc.prems(2) [unfolded create_dirs.simps Let_def path]
  show ?case
  proof (cases "mkdir h (abs_path (xs @ [c]))")
    case (Inr h1)
    with unf have r: "r = None" "h' = h1" by simp_all
    from Inr obtain d where d: "walk h (host_max_links h) [] xs = Inr d" "lookup_node h d = Some Directory"
      "lookup_node h (d @ [c]) = None" "h1 = set_node h (d @ [c]) (Some Directory)"
      by (auto simp: mkdir_snoc [OF pc] split: sum.splits if_splits)
    have chain: "chain_added h h1 d [c]"
      using chain_added_snoc [of h h d "[]" c] d(4) by (simp add: chain_added_def)
    have w1: "walk h1 (host_max_links h1) [] xs = Inr d"
    proof -
      have "extends h h1" by (rule chain_added_extends [OF chain tree]) (simp add: d(3))
      moreover have "host_max_links h1 = host_max_links h" using chain by (simp add: chain_added_def same_env_def)
      ultimately show ?thesis using walk_extends d(1) by metis
    qed
    have "lookup_node h1 d = Some Directory" "lookup_node h1 (d @ [c]) = Some Directory"
      using d by (simp_all add: lookup_set_node)
    then have "walk h1 (host_max_links h1) [] (xs @ [c]) = Inr (d @ [c])"
      using walk_snoc [OF w1 _ pc] by simp
    then have "dirs_created h h1 ns (Suc k) True"
      unfolding dirs_created_def
      using d chain Suc.prems(1) tk
      by (intro exI [of _ k] exI [of _ d] exI [of _ 1])
        (simp add: xs_def [symmetric] c_def [symmetric] hd_drop_conv_nth take_Suc)
    with r show ?thesis by simp
  next
    case (Inl e)
    show ?thesis
    proof (cases "e = NotFound")
      case False
      with unf Inl show ?thesis by (auto simp: tk split: if_splits)
    next
      case True
      have w: "walk h (host_max_links h) [] xs = Inl NotFound"
        using Inl True by (auto simp: mkdir_snoc [OF pc] split: sum.splits if_splits)
      obtain r1 h1 where rec: "create_dirs h (abs_path ns) k = (r1, h1)" by fastforce
      have IH: "(h1 = h \<and> (r1 = None \<longrightarrow> path_is_dir h (abs_path xs))) \<or> dirs_created h h1 ns k (r1 = None)"
        using Suc.IH [OF _ rec] Suc.prems(1) by (simp add: xs_def)
      show ?thesis
      proof (cases r1)
        case (Some e1)
        with unf Inl True rec have "r = Some e1" "h' = h1" by simp_all
        with IH Some show ?thesis
          using dirs_created_weaken [of h h1 ns k "r1 = None" "Suc k"] by auto
      next
        case None
        with IH w have made: "dirs_created h h1 ns k True" by (auto simp: path_is_dir_iff)
        then obtain m d where m: "m < k" and d: "walk h (host_max_links h) [] (take m ns) = Inr d"
          "lookup_node h d = Some Directory" "lookup_node h (d @ [ns ! m]) = None"
          and chain: "chain_added h h1 d (take (k - m) (drop m ns))"
          and w1: "walk h1 (host_max_links h1) [] xs = Inr (d @ take (k - m) (drop m ns))"
          by (auto simp: dirs_created_def xs_def)
        let ?D = "d @ take (k - m) (drop m ns)"
        have hd: "hd (take (k - m) (drop m ns)) = ns ! m" "take (k - m) (drop m ns) \<noteq> []"
          using m Suc.prems(1) by (simp_all add: hd_drop_conv_nth)
        have dirD: "lookup_node h1 ?D = Some Directory"
          using chain m Suc.prems(1) by (auto simp: lookup_node_def chain_added_def intro!: exI [of _ "k - m"])
        have envL: "host_max_links h1 = host_max_links h" using chain by (simp add: chain_added_def same_env_def)
        have noneh: "node_at h (?D @ [c]) = None"
        proof -
          have "?D @ [c] = (d @ [ns ! m]) @ (tl (take (k - m) (drop m ns)) @ [c])"
            using hd by (metis append.assoc append_Cons append_Nil list.collapse)
          with tree_ok_missing [OF tree d(3)] show ?thesis by metis
        qed
        have nonec: "lookup_node h1 (?D @ [c]) = None"
        proof -
          have "\<not> (\<exists>j. 0 < j \<and> j \<le> length (take (k - m) (drop m ns)) \<and>
              ?D @ [c] = d @ take j (take (k - m) (drop m ns)))"
            by (auto dest: arg_cong [where f = length])
          with chain noneh show ?thesis by (auto simp: lookup_node_def chain_added_def)
        qed
        have mk: "mkdir h1 (abs_path (xs @ [c])) =
            (if host_unwritable h1 ?D then Inl PermissionDenied
             else Inr (set_node h1 (?D @ [c]) (Some Directory)))"
          using w1 dirD nonec by (simp add: mkdir_snoc [OF pc])
        have nodir: "\<not> path_is_dir h1 (abs_path (xs @ [c]))"
          using walk_snoc [OF w1 dirD pc] nonec by (simp add: path_is_dir_iff)
        show ?thesis
        proof (cases "host_unwritable h1 ?D")
          case True
          with unf Inl \<open>e = NotFound\<close> rec None mk nodir have "r = Some PermissionDenied" "h' = h1" by simp_all
          with dirs_created_weaken [OF made, of "Suc k"] show ?thesis by simp
        next
          case False
          let ?h2 = "set_node h1 (?D @ [c]) (Some Directory)"
          from False unf Inl \<open>e = NotFound\<close> rec None mk have r: "r = None" "h' = ?h2" by simp_all
          have seg: "take (Suc k - m) (drop m ns) = take (k - m) (drop m ns) @ [c]"
            using take_drop_Suc [of m k ns] m Suc.prems(1) by (simp add: c_def)
          have chain2: "chain_added h ?h2 d (take (Suc k - m) (drop m ns))"
            using chain_added_snoc [OF chain, of c] by (simp add: seg)
          have "extends h1 ?h2"
            using nonec by (auto simp: extends_def lookup_set_node)
          then have "walk ?h2 (host_max_links h1) [] xs = Inr ?D"
            using walk_extends [of h1 ?h2] w1 by (simp add: set_node_def)
          moreover have "lookup_node ?h2 ?D = Some Directory" using dirD by (simp add: lookup_set_node)
          ultimately have "walk ?h2 (host_max_links h1) [] (xs @ [c]) = Inr (?D @ [c])"
            using walk_snoc [of ?h2 "host_max_links h1" "[]" xs ?D c] pc by (simp add: lookup_set_node)
          then have "walk ?h2 (host_max_links ?h2) [] (take (Suc k) ns) = Inr (d @ take (Suc k - m) (drop m ns))"
            by (simp add: tk seg set_node_def)
          with chain2 d m have "dirs_created h ?h2 ns (Suc k) True"
            unfolding dirs_created_def
            by (intro exI [of _ m] exI [of _ d] exI [of _ "Suc k - m"]) simp
          with r show ?thesis by simp
        qed
      qed
    qed
  qed
qed

section \<open>The containment check and a missing path\<close>

lemma existing_ancestor_first:
  assumes "m < n" and "canonicalize h (t\<lparr>np_names := take m (np_names t)\<rparr>) = Inr d"
    and "\<And>j. m < j \<Longrightarrow> j < n \<Longrightarrow> \<exists>e. canonicalize h (t\<lparr>np_names := take j (np_names t)\<rparr>) = Inl e"
  shows "existing_ancestor h t n = Some (m, d)"
  using assms
proof (induction n)
  case 0
  then show ?case by simp
next
  case (Suc n)
  show ?case
  proof (cases "m = n")
    case True
    with Suc.prems(2) show ?thesis by simp
  next
    case False
    with Suc.prems(1) have mn: "m < n" by simp
    with Suc.prems(3) obtain e where "canonicalize h (t\<lparr>np_names := take n (np_names t)\<rparr>) = Inl e" by blast
    with Suc.IH [OF mn Suc.prems(2)] Suc.prems(3) show ?thesis by simp
  qed
qed

text \<open>A path whose deepest existing directory is known lands below it.\<close>

lemma containment_target_missing:
  assumes plain: "\<forall>c\<in>set ns. plain_name c" and m: "m < length ns"
    and d: "walk h (host_max_links h) [] (take m ns) = Inr d" "lookup_node h d = Some Directory"
      "lookup_node h (d @ [ns ! m]) = None"
  shows "containment_target h (abs_path ns) 0 = Some (abs_path (d @ drop m ns))"
proof -
  have pc: "plain_name (ns ! m)" using plain m by simp
  have "plain_names ns" using plain by (auto simp: plain_names_def plain_name_def)
  then have self: "absolutize h (abs_path ns) = abs_path ns"
    by (intro absolutize_absolute) (simp_all add: abs_path_def)
  have fail: "\<exists>e. canonicalize h (abs_path ns\<lparr>np_names := take j ns\<rparr>) = Inl e" if "m < j" for j
  proof -
    have "take j ns = (take m ns @ [ns ! m]) @ drop (Suc m) (take j ns)"
    proof -
      have "take (Suc m) (take j ns) = take (Suc m) ns" using that by (simp add: min_absorb1)
      then have "take j ns = take (Suc m) ns @ drop (Suc m) (take j ns)"
        by (metis append_take_drop_id)
      then show ?thesis using m by (simp add: take_Suc_conv_app_nth)
    qed
    moreover have "walk h (host_max_links h) [] (take m ns @ [ns ! m]) = Inl NotFound"
      using walk_snoc [OF d(1,2) pc] d(3) by simp
    ultimately have "walk h (host_max_links h) [] (take j ns) = Inl NotFound"
      using walk_fails_append by metis
    then show ?thesis by (simp add: canonicalize_def absolute_names_def abs_path_def)
  qed
  from fail [of "length ns"] m obtain e where can: "canonicalize h (abs_path ns) = Inl e"
    by (auto simp: abs_path_def)
  have anc: "existing_ancestor h (abs_path ns) (length ns) = Some (m, d)"
    by (rule existing_ancestor_first [OF m])
      (use d fail in \<open>simp_all add: canonicalize_def absolute_names_def abs_path_def\<close>)
  have sm: "symlink_metadata h (abs_path (d @ [ns ! m])) = Inl NotFound"
    using symlink_metadata_real [OF walk_real_self [OF d(1) real_dir_Nil] d(2) pc refl] d(3) by simp
  have names: "np_names (abs_path ns) = ns" by (simp add: abs_path_def)
  have hd: "hd (drop m ns) = ns ! m" using m by (simp add: hd_drop_conv_nth)
  show ?thesis
    by (subst containment_target.simps) (simp add: self can names anc hd sm Let_def)
qed

section \<open>Writing a file\<close>

text \<open>
  Towards \<open>real\<close>: a change sets that entry, adds directories above it, or replaces a symbolic link.
\<close>

definition changes_towards :: "host \<Rightarrow> host \<Rightarrow> string list \<Rightarrow> bool" where
  "changes_towards h h' real \<longleftrightarrow>
     (\<forall>q. node_at h' q \<noteq> node_at h q \<longrightarrow>
        q = real \<or>
        (strict_prefix q real \<and> node_at h q = None \<and> node_at h' q = Some Directory) \<or>
        (\<exists>t. node_at h q = Some (Symlink t)))"

lemma changes_towards_same: "node_at h' = node_at h \<Longrightarrow> changes_towards h h' real"
  by (simp add: changes_towards_def)

lemma chain_added_changed:
  assumes "chain_added h h' d xs" and "node_at h' q \<noteq> node_at h q"
  shows "\<exists>i. 0 < i \<and> i \<le> length xs \<and> q = d @ take i xs \<and> node_at h' q = Some Directory"
proof -
  have "node_at h' q = (if \<exists>j. 0 < j \<and> j \<le> length xs \<and> q = d @ take j xs then Some Directory else node_at h q)"
    using assms(1) by (simp add: chain_added_def)
  with assms(2) show ?thesis by (metis (full_types))
qed

lemma chain_changes:
  assumes tree: "tree_ok h" and "lookup_node h (d @ [x]) = None"
    and chain: "chain_added h h' d (take j (x # xs))" and "xs \<noteq> []" "j \<le> length xs"
  shows "changes_towards h h' (d @ x # xs)"
  unfolding changes_towards_def
proof (intro allI impI)
  fix q
  assume "node_at h' q \<noteq> node_at h q"
  from chain_added_changed [OF chain this] obtain i where i': "0 < i" "i \<le> length (take j (x # xs))"
    "q = d @ take i (take j (x # xs))" and dir: "node_at h' q = Some Directory" by blast
  then have i: "0 < i" "i \<le> j" "q = d @ take i (x # xs)" by (simp_all add: min_absorb1)
  from i have "q = (d @ [x]) @ take (i - 1) xs" by (cases i) simp_all
  with tree_ok_missing [OF tree assms(2)] have none: "node_at h q = None" by metis
  have "strict_prefix q (d @ x # xs)"
    using i assms(5) by (auto simp: i(3) strict_prefix_def take_is_prefix dest: arg_cong [where f = length])
  with none dir show "q = d @ x # xs \<or>
      (strict_prefix q (d @ x # xs) \<and> node_at h q = None \<and> node_at h' q = Some Directory) \<or>
      (\<exists>t. node_at h q = Some (Symlink t))" by blast
qed

text \<open>The part of a write after its parent directory exists.\<close>

definition write_in_dir :: "host \<Rightarrow> native_path \<Rightarrow> string list \<Rightarrow> string \<Rightarrow> io_error option \<times> host" where
  "write_in_dir h1 path dir content =
     (let tmp = dir @ [host_temp_name h1 dir] in
      if lookup_node h1 dir \<noteq> Some Directory then (Some NotADirectory, h1)
      else if lookup_node h1 tmp \<noteq> None then (Some AlreadyExists, h1)
      else if host_unwritable h1 dir then (Some PermissionDenied, h1)
      else
        (let h2 = set_node h1 tmp (Some (Regular content)) in
         case symlink_metadata h2 path of
           Inl e \<Rightarrow>
             if e \<noteq> NotFound then (Some e, set_node h2 tmp None)
             else (case rename_entry h2 tmp path of
                 Inl e' \<Rightarrow> (Some e', set_node h2 tmp None)
               | Inr h3 \<Rightarrow> (None, h3))
         | Inr _ \<Rightarrow>
             (case rename_entry h2 tmp path of
                Inl e' \<Rightarrow> (Some e', set_node h2 tmp None)
              | Inr h3 \<Rightarrow> (None, h3))))"

lemma write_in_dir_cases:
  assumes walk: "walk h (host_max_links h) [] ps = Inr d" and dir: "lookup_node h d = Some Directory"
    and c: "plain_name c"
    and w: "write_in_dir h (abs_path (ps @ [c])) d content = (r, h')"
  shows "(r \<noteq> None \<and> node_at h' = node_at h \<and> same_env h h') \<or>
    (r = None \<and> node_at h' = (node_at h)(d @ [c] := Some (Regular content)) \<and>
      lookup_node h (d @ [c]) \<noteq> Some Directory \<and> same_env h h')"
proof (cases "lookup_node h (d @ [host_temp_name h d]) \<noteq> None \<or> host_unwritable h d")
  case True
  with w dir show ?thesis by (auto simp: write_in_dir_def Let_def split: if_splits)
next
  case False
  let ?tmp = "d @ [host_temp_name h d]"
  let ?h2 = "set_node h ?tmp (Some (Regular content))"
  have free: "node_at h ?tmp = None" using False by (simp add: lookup_node_def)
  have ext: "extends h ?h2" using False by (auto simp: extends_def lookup_set_node)
  have walk2: "walk ?h2 (host_max_links ?h2) [] ps = Inr d"
    using walk_extends [OF ext _ walk] by (simp add: set_node_def)
  have dir2: "lookup_node ?h2 d = Some Directory" using dir by (simp add: lookup_set_node)
  have entry: "entry_of ?h2 (abs_path (ps @ [c])) = Inr (d @ [c])"
    using walk2 dir2 by (simp add: entry_of_snoc [OF c])
  have undo: "node_at (set_node ?h2 ?tmp None) = node_at h"
    using free by (auto simp: fun_upd_def)
  have env: "same_env h ?h2" "same_env h (set_node ?h2 e n)" for e n
    by (rule same_env_set_node, rule same_env_trans [OF same_env_set_node same_env_set_node])
  have rn: "rename_entry ?h2 ?tmp (abs_path (ps @ [c])) =
      (if lookup_node ?h2 (d @ [c]) = Some Directory then Inl OtherError
       else if d @ [c] = ?tmp then Inr ?h2
       else Inr (set_node (set_node ?h2 (d @ [c]) (Some (Regular content))) ?tmp None))"
    by (simp add: rename_entry_def entry)
  have final: "node_at (set_node (set_node ?h2 (d @ [c]) (Some (Regular content))) ?tmp None) =
      (node_at h)(d @ [c] := Some (Regular content))" if "d @ [c] \<noteq> ?tmp"
    using that free by (auto simp: fun_upd_def)
  have dirc: "lookup_node ?h2 (d @ [c]) \<noteq> Some Directory \<Longrightarrow> lookup_node h (d @ [c]) \<noteq> Some Directory"
    using free by (auto simp: lookup_set_node lookup_node_def split: if_splits)
  have env3: "same_env h (set_node (set_node ?h2 (d @ [c]) (Some (Regular content))) ?tmp None)"
    by (rule same_env_trans [OF env(2) same_env_set_node])
  have body: "(r, h') = (Some e, set_node ?h2 ?tmp None) \<or> (rename_entry ?h2 ?tmp (abs_path (ps @ [c])) = Inr h' \<and> r = None)"
    if "r = Some e \<or> r = None" for e
    using that w dir False
    by (auto simp: write_in_dir_def Let_def split: sum.splits if_splits)
  show ?thesis
  proof (cases r)
    case (Some e)
    with body [of e] undo env show ?thesis by auto
  next
    case None
    with body have "rename_entry ?h2 ?tmp (abs_path (ps @ [c])) = Inr h'" by auto
    with rn final dirc env env3 None show ?thesis
      by (auto split: if_splits)
  qed
qed

lemma write_in_dir_not_dir:
  "lookup_node h d \<noteq> Some Directory \<Longrightarrow> write_in_dir h path d content = (Some NotADirectory, h)"
  by (simp add: write_in_dir_def Let_def)

lemma write_text_file_snoc:
  "write_text_file h (abs_path (ps @ [c])) content =
    (case create_dirs h (abs_path ps) (length ps) of
       (Some e, h1) \<Rightarrow> (Some e, h1)
     | (None, h1) \<Rightarrow>
         (case walk h1 (host_max_links h1) [] ps of
            Inl e \<Rightarrow> (Some e, h1)
          | Inr dir \<Rightarrow> write_in_dir h1 (abs_path (ps @ [c])) dir content))"
proof -
  have "path_parent (abs_path (ps @ [c])) = Some (abs_path ps)"
    by (simp add: path_parent_def abs_path_def)
  then show ?thesis
    by (simp add: write_text_file_def create_dir_all_def write_in_dir_def canonicalize_def
        absolute_names_def abs_path_def Let_def split: prod.split option.split sum.split)
qed

lemma tree_ok_lookup: "tree_ok h \<longleftrightarrow>
    (\<forall>q c. lookup_node h (q @ [c]) \<noteq> None \<longrightarrow> lookup_node h q = Some Directory)"
  by (simp add: tree_ok_def lookup_node_def)

lemma tree_ok_set_leaf:
  assumes tree: "tree_ok h" and old: "lookup_node h (d @ [c]) \<noteq> Some Directory"
    and dir: "lookup_node h d = Some Directory"
    and eq: "node_at h' = (node_at h)(d @ [c] := n)"
  shows "tree_ok h'"
  unfolding tree_ok_def
proof (intro allI impI)
  fix q x
  assume some: "node_at h' (q @ [x]) \<noteq> None"
  have dc: "lookup_node h' p = lookup_node h p" if "p \<noteq> d @ [c]" for p
    using that eq by (simp add: lookup_node_def)
  show "lookup_node h' q = Some Directory"
  proof (cases "q @ [x] = d @ [c]")
    case True
    with dir dc [of d] show ?thesis by simp
  next
    case False
    with some eq have "node_at h (q @ [x]) \<noteq> None" by (auto split: if_splits)
    with tree have "lookup_node h q = Some Directory" by (rule tree_okD)
    with old dc [of q] show ?thesis by metis
  qed
qed

lemma tree_ok_chain:
  assumes tree: "tree_ok h" and dir: "lookup_node h d = Some Directory"
    and chain: "chain_added h h' d xs" and none: "xs \<noteq> [] \<Longrightarrow> lookup_node h (d @ [hd xs]) = None"
  shows "tree_ok h'"
  unfolding tree_ok_def
proof (intro allI impI)
  fix q x
  assume some: "node_at h' (q @ [x]) \<noteq> None"
  have ext: "extends h h'" by (rule chain_added_extends [OF chain tree none])
  show "lookup_node h' q = Some Directory"
  proof (cases "node_at h' (q @ [x]) = node_at h (q @ [x])")
    case True
    with some have "lookup_node h q = Some Directory" by (intro tree_okD [OF tree]) simp
    with ext show ?thesis by (simp add: extends_def)
  next
    case False
    from chain_added_changed [OF chain this] obtain i where i: "0 < i" "i \<le> length xs"
      "q @ [x] = d @ take i xs" by blast
    obtain j where j: "i = Suc j" using i(1) by (cases i) simp_all
    with i have q: "q = d @ take j xs"
      using append1_eq_conv [of q x "d @ take j xs" "xs ! j"] by (simp add: take_Suc_conv_app_nth)
    show ?thesis
    proof (cases j)
      case 0
      with q dir ext show ?thesis by (simp add: extends_def)
    next
      case (Suc j')
      then have "\<exists>i. 0 < i \<and> i \<le> length xs \<and> q = d @ take i xs"
        using q i(2) j by (intro exI [of _ j]) simp
      then have "node_at h' q = Some Directory" using chain by (simp add: chain_added_def)
      then show ?thesis by (simp add: lookup_node_def)
    qed
  qed
qed

text \<open>The last step of a write: one entry replaced, or nothing.\<close>

lemma write_in_dir_effect:
  assumes walk: "walk h (host_max_links h) [] ps = Inr d" and pc: "plain_name c" and tree: "tree_ok h"
    and w: "write_in_dir h (abs_path (ps @ [c])) d content = (r, h')"
  shows "same_env h h' \<and> tree_ok h' \<and>
    (if r = None then lookup_node h d = Some Directory \<and>
       node_at h' = (node_at h)(d @ [c] := Some (Regular content))
     else node_at h' = node_at h)"
proof (cases "lookup_node h d = Some Directory")
  case False
  with w write_in_dir_not_dir [OF False] tree show ?thesis by auto
next
  case dir: True
  from write_in_dir_cases [OF walk dir pc w] show ?thesis
  proof
    assume e: "r \<noteq> None \<and> node_at h' = node_at h \<and> same_env h h'"
    then have "tree_ok h'" using tree_ok_cong [OF _ tree] by simp
    with e show ?thesis by auto
  next
    assume e: "r = None \<and> node_at h' = (node_at h)(d @ [c] := Some (Regular content)) \<and>
        lookup_node h (d @ [c]) \<noteq> Some Directory \<and> same_env h h'"
    then have "tree_ok h'" using tree_ok_set_leaf [OF tree _ dir] by blast
    with e dir show ?thesis by simp
  qed
qed

text \<open>Everything a write does to the file system.\<close>

definition write_effect :: "host \<Rightarrow> host \<Rightarrow> string list \<Rightarrow> string \<Rightarrow> bool \<Rightarrow> bool" where
  "write_effect h h' real content ok \<longleftrightarrow>
     changes_towards h h' real \<and> same_env h h' \<and> tree_ok h' \<and>
     (ok \<longrightarrow> (\<exists>e. node_at h' e = Some (Regular content) \<and>
        (e = real \<or> (\<exists>t. node_at h e = Some (Symlink t)))))"

lemma write_existing_parent:
  assumes tree: "tree_ok h" and plain: "\<forall>x\<in>set (ps @ [c]). plain_name x"
    and target: "containment_target h (abs_path (ps @ [c])) 0 = Some (abs_path real)"
    and walk: "walk h (host_max_links h) [] ps = Inr d"
    and w: "write_in_dir h (abs_path (ps @ [c])) d content = (r, h')"
  shows "write_effect h h' real content (r = None)"
proof -
  have pc: "plain_name c" using plain by simp
  have "plain_names (ps @ [c])" using plain by (auto simp: plain_names_def plain_name_def)
  then have self: "absolutize h (abs_path (ps @ [c])) = abs_path (ps @ [c])"
    by (intro absolutize_absolute) (simp_all add: abs_path_def)
  note e = write_in_dir_effect [OF walk pc tree w]
  show ?thesis
  proof (cases "r = None")
    case False
    with e show ?thesis by (auto simp: write_effect_def changes_towards_same)
  next
    case True
    with e have dir: "lookup_node h d = Some Directory"
      and new: "node_at h' = (node_at h)(d @ [c] := Some (Regular content))" by simp_all
    have "d @ [c] = real \<or> (\<exists>t. node_at h (d @ [c]) = Some (Symlink t))"
    proof (rule disjCI)
      assume "\<nexists>t. node_at h (d @ [c]) = Some (Symlink t)"
      then have link: "lookup_node h (d @ [c]) \<noteq> Some (Symlink t)" for t by (simp add: lookup_node_def)
      have "entry_of h (absolutize h (abs_path (ps @ [c]))) = Inr (d @ [c])"
        using walk dir by (simp add: self entry_of_snoc [OF pc])
      from containment_target_entry [OF this link] target show "d @ [c] = real"
        by (simp add: abs_path_def)
    qed
    with e new True show ?thesis by (auto simp: write_effect_def changes_towards_def)
  qed
qed

lemma write_missing_parent:
  assumes tree: "tree_ok h" and plain: "\<forall>x\<in>set (ps @ [c]). plain_name x"
    and target: "containment_target h (abs_path (ps @ [c])) 0 = Some (abs_path real)"
    and made: "dirs_created h h1 ps (length ps) b"
  shows "changes_towards h h1 real" and "same_env h h1" and "tree_ok h1"
    and "b \<Longrightarrow> walk h1 (host_max_links h1) [] ps = Inr d1 \<Longrightarrow> d1 @ [c] = real"
proof -
  from made obtain m d j where m: "m < length ps" and j: "0 < j" "j \<le> length ps - m" "b \<longrightarrow> j = length ps - m"
    and d: "walk h (host_max_links h) [] (take m ps) = Inr d" "lookup_node h d = Some Directory"
      "lookup_node h (d @ [ps ! m]) = None"
    and chain: "chain_added h h1 d (take j (drop m ps))"
    and walk1: "b \<longrightarrow> walk h1 (host_max_links h1) [] ps = Inr (d @ take (length ps - m) (drop m ps))"
    by (auto simp: dirs_created_def)
  have nth: "(ps @ [c]) ! m = ps ! m" and tk: "take m (ps @ [c]) = take m ps"
    and dm: "drop m (ps @ [c]) = ps ! m # drop (Suc m) ps @ [c]"
    using m by (simp_all add: nth_append Cons_nth_drop_Suc)
  have "containment_target h (abs_path (ps @ [c])) 0 = Some (abs_path (d @ drop m (ps @ [c])))"
    by (rule containment_target_missing [OF plain]) (use m d nth tk in simp_all)
  with target have real: "real = d @ ps ! m # drop (Suc m) ps @ [c]"
    unfolding dm by (simp add: abs_path_def)
  have tj: "take j (drop m ps) = take j (ps ! m # drop (Suc m) ps @ [c])"
  proof -
    have "drop m ps = ps ! m # drop (Suc m) ps" using m by (simp add: Cons_nth_drop_Suc)
    moreover have "j \<le> length (ps ! m # drop (Suc m) ps)" using j m by simp
    ultimately show ?thesis by (metis append_Cons take_append diff_is_0_eq take0 append_Nil2)
  qed
  show "changes_towards h h1 real"
    unfolding real by (rule chain_changes [OF tree d(3) chain [unfolded tj]]) (use j m in simp_all)
  show "same_env h h1" using chain by (simp add: chain_added_def)
  have "take j (drop m ps) \<noteq> []" "hd (take j (drop m ps)) = ps ! m"
    using j m by (simp_all add: hd_drop_conv_nth)
  then show "tree_ok h1" using tree_ok_chain [OF tree d(2) chain] d(3) by simp
  assume b and "walk h1 (host_max_links h1) [] ps = Inr d1"
  with walk1 have "d1 = d @ drop m ps" by simp
  then show "d1 @ [c] = real" using m by (simp add: real Cons_nth_drop_Suc [symmetric])
qed

lemma write_text_file_effect:
  assumes tree: "tree_ok h" and plain: "\<forall>x\<in>set (ps @ [c]). plain_name x"
    and target: "containment_target h (abs_path (ps @ [c])) 0 = Some (abs_path real)"
    and w: "write_text_file h (abs_path (ps @ [c])) content = (r, h')"
  shows "write_effect h h' real content (r = None)"
proof -
  have pc: "plain_name c" and pps: "\<forall>x\<in>set ps. plain_name x" using plain by simp_all
  obtain r1 h1 where cd: "create_dirs h (abs_path ps) (length ps) = (r1, h1)" by fastforce
  from create_dirs_cases [OF tree pps order_refl cd]
  consider "h1 = h" "r1 = None \<Longrightarrow> path_is_dir h (abs_path ps)" | "dirs_created h h1 ps (length ps) (r1 = None)"
    by auto
  then show ?thesis
  proof cases
    case 1
    show ?thesis
    proof (cases r1)
      case (Some e)
      with w cd 1 tree show ?thesis
        by (auto simp: write_text_file_snoc write_effect_def changes_towards_same)
    next
      case None
      with 1(2) obtain d where d: "walk h (host_max_links h) [] ps = Inr d"
        by (auto simp: path_is_dir_iff)
      with w cd None 1(1) have "write_in_dir h (abs_path (ps @ [c])) d content = (r, h')"
        by (simp add: write_text_file_snoc)
      from write_existing_parent [OF tree plain target d this] show ?thesis .
    qed
  next
    case 2
    note made = write_missing_parent [OF tree plain target 2]
    show ?thesis
    proof (cases "r1 = None \<and> (\<exists>d. walk h1 (host_max_links h1) [] ps = Inr d)")
      case False
      then have "h' = h1" "r \<noteq> None"
        using w cd by (auto simp: write_text_file_snoc split: option.splits sum.splits)
      with made show ?thesis by (auto simp: write_effect_def)
    next
      case True
      then obtain d where r1: "r1 = None" and d: "walk h1 (host_max_links h1) [] ps = Inr d" by blast
      with w cd have wd: "write_in_dir h1 (abs_path (ps @ [c])) d content = (r, h')"
        by (simp add: write_text_file_snoc)
      have real: "d @ [c] = real" using made(4) r1 d by simp
      note e = write_in_dir_effect [OF d pc made(3) wd]
      have env: "same_env h h'" using same_env_trans [OF made(2)] e by simp
      have "changes_towards h h' real"
        using e made(1) real unfolding changes_towards_def
        by (cases "r = None") auto
      with e env real show ?thesis by (auto simp: write_effect_def)
    qed
  qed
qed

section \<open>The walk ends\<close>

lemma walk_items_more:
  "walk_items fuel h f stack = Some items \<Longrightarrow> walk_items (fuel + extra) h f stack = Some items"
proof (induction fuel arbitrary: stack items)
  case 0
  then show ?case by (cases extra) (auto split: if_splits)
next
  case (Suc fuel)
  then show ?case by (auto split: list.splits prod.splits)
qed

lemma walk_visit_append:
  "walk_visit h f p sel (stack @ extra) = map_prod id (\<lambda>s. s @ extra) (walk_visit h f p sel stack)"
  by (simp add: walk_visit_def Let_def split: sum.split node.split)

lemma walk_items_append:
  "walk_items m h f s1 = Some xs \<Longrightarrow> walk_items n h f s2 = Some ys \<Longrightarrow>
   walk_items (m + n) h f (s1 @ s2) = Some (xs @ ys)"
proof (induction m arbitrary: s1 xs)
  case 0
  then show ?case by (auto split: if_splits)
next
  case (Suc m)
  show ?case
  proof (cases s1)
    case Nil
    with Suc.prems walk_items_more [OF Suc.prems(2), of "Suc m"] show ?thesis
      by (simp add: add.commute)
  next
    case (Cons x rest)
    obtain p sel where x: "x = (p, sel)" by fastforce
    obtain item stack where v: "walk_visit h f p sel rest = (item, stack)" by fastforce
    from Suc.prems(1) Cons x v obtain zs where z: "walk_items m h f stack = Some zs"
      "xs = (case item of Some i \<Rightarrow> [i] | None \<Rightarrow> []) @ zs" by auto
    have v2: "walk_visit h f p sel (rest @ s2) = (item, stack @ s2)"
      by (simp add: walk_visit_append v)
    from Suc.IH [OF z(1) Suc.prems(2)] z(2) Cons x v2 show ?thesis by simp
  qed
qed

definition walk_ends :: "host \<Rightarrow> (native_path \<Rightarrow> bool) \<Rightarrow> walk_stack \<Rightarrow> bool" where
  "walk_ends h f stack \<longleftrightarrow> (\<exists>fuel items. walk_items fuel h f stack = Some items)"

lemma walk_ends_Nil [simp]: "walk_ends h f []"
  unfolding walk_ends_def by (rule exI [of _ 0]) simp

lemma walk_ends_append: "walk_ends h f s1 \<Longrightarrow> walk_ends h f s2 \<Longrightarrow> walk_ends h f (s1 @ s2)"
  unfolding walk_ends_def using walk_items_append by blast

lemma walk_ends_all: "(\<And>x. x \<in> set stack \<Longrightarrow> walk_ends h f [x]) \<Longrightarrow> walk_ends h f stack"
proof (induction stack)
  case Nil
  then show ?case by simp
next
  case (Cons x stack)
  then have "walk_ends h f ([x] @ stack)" by (intro walk_ends_append) simp_all
  then show ?case by simp
qed

lemma walk_ends_visit:
  assumes "walk_ends h f (snd (walk_visit h f p sel []))" shows "walk_ends h f [(p, sel)]"
proof -
  obtain item stack where v: "walk_visit h f p sel [] = (item, stack)" by fastforce
  with assms obtain fuel items where "walk_items fuel h f stack = Some items"
    by (auto simp: walk_ends_def)
  then have "walk_items (Suc fuel) h f [(p, sel)] = Some ((case item of Some i \<Rightarrow> [i] | None \<Rightarrow> []) @ items)"
    by (simp add: v)
  then show ?thesis unfolding walk_ends_def by blast
qed

text \<open>A finite depth, and directories list plain names only.\<close>

definition depth_bounded :: "nat \<Rightarrow> host \<Rightarrow> bool" where
  "depth_bounded n h \<longleftrightarrow> (\<forall>q. n < length q \<longrightarrow> node_at h q = None) \<and>
     (\<forall>q. \<forall>c\<in>set (host_listing h q). plain_name c)"

lemma set_sort_names: "set (sort_names_js_order names) = set names"
proof -
  have "set (insert_js x xs) = insert x (set xs)" for x xs
    by (induction xs) auto
  then show ?thesis by (induction names) (simp_all add: sort_names_js_order_def)
qed

lemma child_canonical:
  assumes p: "canonicalize h p = Inr real" "lookup_node h real = Some Directory" and c: "plain_name c"
    and m: "symlink_metadata h (walk_child p c) = Inr Directory"
  shows "canonicalize h (walk_child p c) = Inr (real @ [c])" and "lookup_node h (real @ [c]) = Some Directory"
proof -
  obtain names where names: "absolute_names h p = Inr names"
    and w: "walk h (host_max_links h) [] names = Inr real"
    using p(1) by (auto simp: canonicalize_def split: sum.splits)
  have child: "absolute_names h (walk_child p c) = Inr (names @ [c])"
    using names by (auto simp: absolute_names_def walk_child_def split: if_splits option.splits)
  have e: "entry_of h (walk_child p c) = Inr (real @ [c])"
    using child w p(2) c by (simp add: entry_of_def)
  from m e show dir: "lookup_node h (real @ [c]) = Some Directory"
    by (auto simp: symlink_metadata_def split: option.splits)
  from walk_snoc [OF w p(2) c] dir show "canonicalize h (walk_child p c) = Inr (real @ [c])"
    by (simp add: canonicalize_def child)
qed

lemma walk_ends_entered:
  assumes bound: "depth_bounded n h"
    and "canonicalize h p = Inr real" "lookup_node h real = Some Directory"
  shows "walk_ends h f (snd (if \<not> f p then (None :: walk_item option, [])
      else case read_dir h p of
        Inl _ \<Rightarrow> (Some (UnreadableDir p), [])
      | Inr names \<Rightarrow> (None, map (\<lambda>n. (walk_child p n, False)) (sort_names_js_order names) @ [])))"
  using assms(2,3)
proof (induction "Suc n - length real" arbitrary: p real rule: less_induct)
  case less
  show ?case
  proof (cases "\<not> f p \<or> (\<exists>e. read_dir h p = Inl e)")
    case True
    then show ?thesis by auto
  next
    case False
    then obtain names where names: "read_dir h p = Inr names" and enter: "f p"
      by (cases "read_dir h p") auto
    from names less.prems have listing: "names = host_listing h real"
      by (auto simp: read_dir_def split: if_splits)
    have "walk_ends h f [x]" if x: "x \<in> set (map (\<lambda>n. (walk_child p n, False)) (sort_names_js_order names))" for x
    proof -
      from x obtain c where c: "x = (walk_child p c, False)" "c \<in> set names"
        by (auto simp: set_sort_names)
      have plain: "plain_name c" using bound listing c(2) by (auto simp: depth_bounded_def)
      show ?thesis
      proof (cases "symlink_metadata h (walk_child p c) = Inr Directory")
        case True
        note can = child_canonical(1) [OF less.prems plain True]
        note dir = child_canonical(2) [OF less.prems plain True]
        have "length (real @ [c]) \<le> n"
        proof (rule ccontr)
          assume "\<not> length (real @ [c]) \<le> n"
          then have "node_at h (real @ [c]) = None" using bound unfolding depth_bounded_def by (meson not_le)
          with dir show False by (simp add: lookup_node_def)
        qed
        then have "Suc n - length (real @ [c]) < Suc n - length real" by simp
        from less.hyps [OF this can dir] True show ?thesis
          unfolding c(1) by (intro walk_ends_visit) (simp add: walk_visit_def Let_def enter)
      next
        case False
        then have "snd (walk_visit h f (walk_child p c) False []) = []"
          by (auto simp: walk_visit_def Let_def split: sum.split node.split)
        then show ?thesis unfolding c(1) by (intro walk_ends_visit) simp
      qed
    qed
    then have "walk_ends h f (map (\<lambda>n. (walk_child p n, False)) (sort_names_js_order names))"
      by (rule walk_ends_all)
    with enter names show ?thesis by simp
  qed
qed

lemma walk_ends_single:
  assumes bound: "depth_bounded n h" shows "walk_ends h f [(p, sel)]"
proof (rule walk_ends_visit)
  let ?enter = "(if \<not> f p then (None :: walk_item option, [])
      else case read_dir h p of
        Inl _ \<Rightarrow> (Some (UnreadableDir p), [])
      | Inr names \<Rightarrow> (None, map (\<lambda>n. (walk_child p n, False)) (sort_names_js_order names) @ []))"
  have enter: "walk_ends h f (snd ?enter)"
  proof (cases "\<exists>real. canonicalize h p = Inr real \<and> lookup_node h real = Some Directory")
    case True
    then show ?thesis using walk_ends_entered [OF bound] by blast
  next
    case False
    then have "\<exists>e. read_dir h p = Inl e"
      by (auto simp: read_dir_def split: sum.split)
    then show ?thesis by auto
  qed
  have "snd (walk_visit h f p sel []) = [] \<or> snd (walk_visit h f p sel []) = snd ?enter"
    by (simp add: walk_visit_def Let_def split: sum.split node.split)
  then show "walk_ends h f (snd (walk_visit h f p sel []))" using enter by auto
qed



end
