(* ===== verification/Restore.thy ===== *)
theory Restore
  imports Fsutil
begin

text \<open>
  Restore planning, execution and the "off by one folder level" detection
  (\<open>crates/core/src/restore.rs\<close>).  Execution threads the host through every write and delete.
\<close>

section \<open>Plans\<close>

record create_operation =
  co_relative_path :: string
  co_absolute_path :: native_path
  co_content :: string
  co_existed :: bool
  co_root_path :: native_path

record delete_operation =
  do_relative_path :: string
  do_absolute_path :: native_path

datatype skip_reason = AlreadyAbsent | UnresolvedPath | Skip_AmbiguousPath | PlaceholderBody | NonUtf8Target

fun skip_as_str :: "skip_reason \<Rightarrow> string" where
  "skip_as_str AlreadyAbsent = ''ALREADY_ABSENT''"
| "skip_as_str UnresolvedPath = ''UNRESOLVED_PATH''"
| "skip_as_str Skip_AmbiguousPath = ''AMBIGUOUS_PATH''"
| "skip_as_str PlaceholderBody = ''PLACEHOLDER_BODY''"
| "skip_as_str NonUtf8Target = ''NON_UTF8_TARGET''"

datatype skip_detail = ProtectedGitMetadata

record skipped_operation =
  sk_raw_path :: string
  sk_relative_path :: "string option"
  sk_reason :: skip_reason
  sk_detail :: "skip_detail option"

record restore_plan =
  rp_roots :: "native_path list"
  rp_create_operations :: "create_operation list"
  rp_delete_operations :: "delete_operation list"
  rp_skipped_operations :: "skipped_operation list"

definition existing_targets :: "restore_plan \<Rightarrow> nat" where
  "existing_targets plan = length (filter co_existed (rp_create_operations plan))"

record restore_selection =
  sel_overwrite_existing :: bool
  sel_skip_existing :: bool
  sel_unchecked_creates :: "nat set"
  sel_unchecked_deletes :: "nat set"

record restore_execution_result =
  res_created_count :: nat
  res_overwritten_count :: nat
  res_skipped_existing_count :: nat
  res_planned_skipped_count :: nat
  res_deleted_count :: nat
  res_errors :: "string list"

definition usize_max :: nat where "usize_max = 2 ^ 64 - 1"

definition total_skipped :: "restore_execution_result \<Rightarrow> nat" where
  "total_skipped result =
     min usize_max (res_planned_skipped_count result + res_skipped_existing_count result)"

section \<open>Planning\<close>

definition first_line :: "string \<Rightarrow> string" where
  "first_line body = hd (split_char nl body)"

definition is_placeholder_body :: "string \<Rightarrow> bool" where
  "is_placeholder_body content =
     (let first = ascii_trim (first_line (ascii_trim content)) in
      starts_with ''// File skipped: '' first \<or>
      first = ''// Unable to read file content'' \<or>
      first = ''// Error reading file content'')"

definition skip_entry :: "parsed_entry \<Rightarrow> string option \<Rightarrow> skip_reason \<Rightarrow> skipped_operation" where
  "skip_entry entry relative_path reason =
     \<lparr>sk_raw_path = entry_path entry, sk_relative_path = relative_path, sk_reason = reason,
      sk_detail = None\<rparr>"

definition protected :: "parsed_entry \<Rightarrow> skipped_operation" where
  "protected entry = (skip_entry entry None UnresolvedPath)\<lparr>sk_detail := Some ProtectedGitMetadata\<rparr>"

definition push_skipped :: "restore_plan \<Rightarrow> skipped_operation \<Rightarrow> restore_plan" where
  "push_skipped plan op = plan\<lparr>rp_skipped_operations := rp_skipped_operations plan @ [op]\<rparr>"

definition plan_delete :: "host \<Rightarrow> path_resolver \<Rightarrow> restore_plan \<Rightarrow> parsed_entry \<Rightarrow> restore_plan" where
  "plan_delete h r plan entry =
     (case resolve_delete_target h r (entry_path entry) of
        Inr t \<Rightarrow>
          if lands_in_git_dir h (rt_absolute_path t) then push_skipped plan (protected entry)
          else plan\<lparr>rp_delete_operations := rp_delete_operations plan @
            [\<lparr>do_relative_path = rt_relative_path t, do_absolute_path = rt_absolute_path t\<rparr>]\<rparr>
      | Inl e \<Rightarrow>
          (let reason =
             (case rj_reason e of
                MissingPath \<Rightarrow> AlreadyAbsent
              | AmbiguousPath \<Rightarrow> Skip_AmbiguousPath
              | _ \<Rightarrow> UnresolvedPath);
             rel = (if reason = UnresolvedPath then None else rj_relative_path e) in
           push_skipped plan (skip_entry entry rel reason)))"

definition plan_write :: "host \<Rightarrow> path_resolver \<Rightarrow> restore_plan \<Rightarrow> parsed_entry \<Rightarrow> restore_plan" where
  "plan_write h r plan entry =
     (case resolve_write_target h r (entry_path entry) of
        Inl e \<Rightarrow>
          push_skipped plan
            (if rj_reason e = AmbiguousPath
             then skip_entry entry (rj_relative_path e) Skip_AmbiguousPath
             else skip_entry entry None UnresolvedPath)
      | Inr t \<Rightarrow>
          if has_git_segment (rt_relative_path t) \<or> lands_in_git_dir h (rt_absolute_path t)
          then push_skipped plan (protected entry)
          else if must_not_overwrite h (rt_absolute_path t)
          then push_skipped plan (skip_entry entry (Some (rt_relative_path t)) NonUtf8Target)
          else plan\<lparr>rp_create_operations := rp_create_operations plan @
            [\<lparr>co_relative_path = rt_relative_path t,
              co_absolute_path = rt_absolute_path t,
              co_content = entry_content entry,
              co_existed = (rt_existed t \<or> path_exists h (rt_absolute_path t)),
              co_root_path = rt_root_path t\<rparr>]\<rparr>)"

definition plan_entry :: "host \<Rightarrow> path_resolver \<Rightarrow> restore_plan \<Rightarrow> parsed_entry \<Rightarrow> restore_plan" where
  "plan_entry h r plan entry =
     (if has_git_segment (entry_path entry) then push_skipped plan (protected entry)
      else if Deleted \<in> entry_change_types entry then plan_delete h r plan entry
      else if is_placeholder_body (entry_content entry)
      then push_skipped plan (skip_entry entry None PlaceholderBody)
      else plan_write h r plan entry)"

definition plan_restore :: "host \<Rightarrow> string list \<Rightarrow> parsed_entry list \<Rightarrow> restore_plan" where
  "plan_restore h roots entries =
     foldl (plan_entry h (resolver_new h roots None))
       \<lparr>rp_roots = map components roots, rp_create_operations = [], rp_delete_operations = [],
        rp_skipped_operations = []\<rparr>
       entries"

section \<open>Execution\<close>

datatype create_outcome = Created | Overwritten | Skipped

text \<open>\<open>io_text\<close> is the system's text for an I/O error.\<close>

definition run_create ::
  "(io_error \<Rightarrow> string) \<Rightarrow> host \<Rightarrow> native_path list \<Rightarrow> restore_selection \<Rightarrow> create_operation \<Rightarrow>
   (string + create_outcome) \<times> host" where
  "run_create io_text h roots selection op =
     (if escapes_all_roots h roots (co_absolute_path op) \<or> has_git_segment (co_relative_path op) \<or>
         lands_in_git_dir h (co_absolute_path op)
      then (Inl (co_relative_path op @ '': unsafe path''), h)
      else if must_not_overwrite h (co_absolute_path op) then (Inr Skipped, h)
      else
        (let info = metadata h (co_absolute_path op);
             outcome = (case info of Inr _ \<Rightarrow> Overwritten | Inl _ \<Rightarrow> Created) in
         if info = Inr Directory then (Inr Skipped, h)
         else if outcome = Overwritten \<and>
             (sel_skip_existing selection \<or> \<not> sel_overwrite_existing selection)
         then (Inr Skipped, h)
         else
           (case write_text_file h (co_absolute_path op) (co_content op) of
              (Some e, h') \<Rightarrow> (Inl (co_relative_path op @ '': '' @ io_text e), h')
            | (None, h') \<Rightarrow> (Inr outcome, h'))))"

text \<open>The result so far, the writes the observer saw, and the host.\<close>

record restore_run =
  run_result :: restore_execution_result
  run_observed :: "(create_operation \<times> create_outcome) list"
  run_host :: host

definition add_error :: "restore_run \<Rightarrow> string \<Rightarrow> restore_run" where
  "add_error run message =
     run\<lparr>run_result := (run_result run)\<lparr>res_errors := res_errors (run_result run) @ [message]\<rparr>\<rparr>"

definition create_step ::
  "(io_error \<Rightarrow> string) \<Rightarrow> restore_plan \<Rightarrow> restore_selection \<Rightarrow> restore_run \<Rightarrow> nat \<times> create_operation \<Rightarrow>
   restore_run" where
  "create_step io_text plan selection run iop =
     (case iop of (i, op) \<Rightarrow>
        if i \<in> sel_unchecked_creates selection then run
        else
          (let (outcome, h') = run_create io_text (run_host run) (rp_roots plan) selection op;
               run' = run\<lparr>run_host := h'\<rparr>;
               result = run_result run in
           case outcome of
             Inr Created \<Rightarrow>
               run'\<lparr>run_result := result\<lparr>res_created_count := res_created_count result + 1\<rparr>,
                 run_observed := run_observed run @ [(op, Created)]\<rparr>
           | Inr Overwritten \<Rightarrow>
               run'\<lparr>run_result := result\<lparr>res_overwritten_count := res_overwritten_count result + 1\<rparr>,
                 run_observed := run_observed run @ [(op, Overwritten)]\<rparr>
           | Inr Skipped \<Rightarrow>
               run'\<lparr>run_result :=
                 result\<lparr>res_skipped_existing_count := res_skipped_existing_count result + 1\<rparr>\<rparr>
           | Inl message \<Rightarrow> add_error run' message))"

definition delete_step ::
  "(io_error \<Rightarrow> string) \<Rightarrow> restore_plan \<Rightarrow> restore_selection \<Rightarrow> restore_run \<Rightarrow> nat \<times> delete_operation \<Rightarrow>
   restore_run" where
  "delete_step io_text plan selection run iop =
     (case iop of (i, op) \<Rightarrow>
        if i \<in> sel_unchecked_deletes selection then run
        else if escapes_all_roots (run_host run) (rp_roots plan) (do_absolute_path op) \<or>
            has_git_segment (do_relative_path op) \<or>
            lands_in_git_dir (run_host run) (do_absolute_path op)
        then add_error run (do_relative_path op @ '': unsafe path'')
        else if \<not> path_exists (run_host run) (do_absolute_path op) then run
        else
          (case delete_file (run_host run) (do_absolute_path op) of
             (None, h') \<Rightarrow>
               run\<lparr>run_host := h',
                 run_result := (run_result run)\<lparr>res_deleted_count := res_deleted_count (run_result run) + 1\<rparr>\<rparr>
           | (Some e, h') \<Rightarrow>
               add_error (run\<lparr>run_host := h'\<rparr>) (do_relative_path op @ '': '' @ io_text e)))"

definition indexed :: "'a list \<Rightarrow> (nat \<times> 'a) list" where
  "indexed xs = zip [0..<length xs] xs"

definition execute_restore_plan_observed ::
  "(io_error \<Rightarrow> string) \<Rightarrow> host \<Rightarrow> restore_plan \<Rightarrow> restore_selection \<Rightarrow> restore_run" where
  "execute_restore_plan_observed io_text h plan selection =
     (let start =
        \<lparr>run_result =
           \<lparr>res_created_count = 0, res_overwritten_count = 0, res_skipped_existing_count = 0,
            res_planned_skipped_count = length (rp_skipped_operations plan), res_deleted_count = 0,
            res_errors = []\<rparr>,
         run_observed = [], run_host = h\<rparr>;
        created = foldl (create_step io_text plan selection) start (indexed (rp_create_operations plan)) in
      foldl (delete_step io_text plan selection) created (indexed (rp_delete_operations plan)))"

definition execute_restore_plan ::
  "(io_error \<Rightarrow> string) \<Rightarrow> host \<Rightarrow> restore_plan \<Rightarrow> restore_selection \<Rightarrow> restore_execution_result \<times> host" where
  "execute_restore_plan io_text h plan selection =
     (let run = execute_restore_plan_observed io_text h plan selection in
      (run_result run, run_host run))"

definition has_path_dependencies :: "string list \<Rightarrow> bool" where
  "has_path_dependencies paths =
     (let ps = map lossy paths in
      if length (remdups ps) \<noteq> length ps then True
      else list_ex
        (\<lambda>p. list_ex (\<lambda>i. (p ! i = slash \<or> p ! i = backslash) \<and> take i p \<in> set ps) [0..<length p])
        ps)"

section \<open>Off by one folder level\<close>

datatype restore_base = Strip string | Add string

record restore_base_suggestion =
  sug_base :: restore_base
  sug_label :: string
  sug_matched :: nat
  sug_total :: nat

record dir_probe =
  probe_is_dir :: "string \<Rightarrow> bool"
  probe_child_dirs :: "string \<Rightarrow> string list"

definition fs_probe :: "host \<Rightarrow> dir_probe" where
  "fs_probe h =
     \<lparr>probe_is_dir = (\<lambda>p. path_is_dir h (components p)),
      probe_child_dirs = (\<lambda>p.
        case read_dir h (components p) of
          Inl _ \<Rightarrow> []
        | Inr names \<Rightarrow>
            map lossy (filter
              (\<lambda>n. symlink_metadata h (walk_child (components p) n) = Inr Directory) names))\<rparr>"

definition apply_restore_base :: "restore_base \<Rightarrow> string \<Rightarrow> string" where
  "apply_restore_base base relative_path =
     (case base of
        Add prefix \<Rightarrow> prefix @ ''/'' @ relative_path
      | Strip segment \<Rightarrow>
          (case split_once slash relative_path of
             Some (first, rest) \<Rightarrow> if first = segment then rest else relative_path
           | None \<Rightarrow> relative_path))"

definition is_relative :: "string \<Rightarrow> bool" where
  "is_relative p =
     (let drive = (case p of
            a # b # c # _ \<Rightarrow> is_ascii_alphabetic a \<and> b = CHR '':'' \<and> (c = slash \<or> c = backslash)
          | _ \<Rightarrow> False) in
      p \<noteq> [] \<and> \<not> starts_with ''/'' p \<and> \<not> drive \<and> \<not> starts_with [backslash] p)"

definition trim_slashes_end :: "string \<Rightarrow> string" where
  "trim_slashes_end s = trim_end (\<lambda>c. c = slash) s"

definition join_path :: "string \<Rightarrow> string \<Rightarrow> string" where
  "join_path root rel = trim_slashes_end root @ ''/'' @ rel"

definition base_name_of :: "string \<Rightarrow> string" where
  "base_name_of p =
     last (split_char slash (trim_slashes_end (map (\<lambda>c. if c = backslash then slash else c) p)))"

definition parent_exists :: "string \<Rightarrow> string \<Rightarrow> dir_probe \<Rightarrow> bool" where
  "parent_exists primary_root rel probe =
     (case rfind slash rel of
        None \<Rightarrow> False
      | Some i \<Rightarrow> probe_is_dir probe (join_path primary_root (take i rel)))"

definition first_segment :: "string \<Rightarrow> string" where
  "first_segment p = (case split_once slash p of Some (first, _) \<Rightarrow> first | None \<Rightarrow> p)"

definition first_segments :: "string list \<Rightarrow> string list" where
  "first_segments multi = remdups (map first_segment multi)"

definition quoted :: "string \<Rightarrow> string" where
  "quoted s = [CHR 0x22] @ s @ ''/'' @ [CHR 0x22]"

definition strip_label :: "string \<Rightarrow> string" where
  "strip_label segment = ''remove the leading '' @ quoted segment"

definition add_label :: "string \<Rightarrow> string" where
  "add_label prefix = ''place everything under '' @ quoted prefix"

definition multi_paths :: "string list \<Rightarrow> string list" where
  "multi_paths rels = filter (\<lambda>p. slash \<in> set p) rels"

definition suggest_from_source_root ::
  "string \<Rightarrow> string list \<Rightarrow> dir_probe \<Rightarrow> string \<Rightarrow> restore_base_suggestion option" where
  "suggest_from_source_root primary_root rels probe source_root =
     (let target_name = base_name_of primary_root;
          all = (\<lambda>base label. Some \<lparr>sug_base = base, sug_label = label, sug_matched = length rels,
            sug_total = length rels\<rparr>);
          multi = multi_paths rels;
          already_anchored = list_ex (\<lambda>p. parent_exists primary_root p probe) rels in
      if rels = [] then None
      else if target_name = source_root then None
      else if multi \<noteq> [] \<and> first_segments multi = [target_name] then
        (if already_anchored then None else all (Strip target_name) (strip_label target_name))
      else if probe_is_dir probe (trim_slashes_end primary_root @ ''/'' @ source_root) then
        (if already_anchored then None else all (Add source_root) (add_label source_root))
      else None)"

definition base_score ::
  "string \<Rightarrow> string list \<Rightarrow> dir_probe \<Rightarrow> restore_base option \<Rightarrow> nat" where
  "base_score primary_root multi probe base =
     length (filter
       (\<lambda>p. case base of
          Some b \<Rightarrow> parent_exists primary_root (apply_restore_base b p) probe
        | None \<Rightarrow> parent_exists primary_root p probe)
       multi)"

definition base_candidates ::
  "string \<Rightarrow> string list \<Rightarrow> dir_probe \<Rightarrow> (restore_base \<times> nat \<times> string) list" where
  "base_candidates primary_root multi probe =
     (let segment = base_name_of primary_root;
          scored = (\<lambda>b label. (b, base_score primary_root multi probe (Some b), label)) in
      (if first_segments multi = [segment] then [scored (Strip segment) (strip_label segment)] else []) @
      map (\<lambda>prefix. scored (Add prefix) (add_label prefix)) (probe_child_dirs probe primary_root))"

definition is_strip :: "restore_base \<Rightarrow> bool" where
  "is_strip b = (case b of Strip _ \<Rightarrow> True | Add _ \<Rightarrow> False)"

definition best_candidate ::
  "(restore_base \<times> nat \<times> string) list \<Rightarrow> (restore_base \<times> nat \<times> string) option" where
  "best_candidate candidates =
     (let max_score = foldl max 0 (map (\<lambda>(_, s, _). s) candidates);
          top = filter (\<lambda>(_, s, _). s = max_score) candidates in
      if length top = 1 then Some (hd top) else find (\<lambda>(b, _, _). is_strip b) top)"

definition suggest_restore_base ::
  "string \<Rightarrow> string list \<Rightarrow> dir_probe \<Rightarrow> string option \<Rightarrow> restore_base_suggestion option" where
  "suggest_restore_base primary_root relative_paths probe source_root =
     (let rels = filter is_relative relative_paths in
      case non_empty source_root of
        Some source \<Rightarrow> suggest_from_source_root primary_root rels probe source
      | None \<Rightarrow>
          (let multi = multi_paths rels;
               identity_score = base_score primary_root multi probe None;
               candidates = base_candidates primary_root multi probe in
           if length multi < 2 then None
           else if candidates = [] then None
           else (case best_candidate candidates of
               None \<Rightarrow> None
             | Some (base, score, label) \<Rightarrow>
                 if score \<le> identity_score \<or> score * 2 < length multi then None
                 else Some \<lparr>sug_base = base, sug_label = label, sug_matched = score,
                   sug_total = length multi\<rparr>)))"

end
