(* ===== verification/Restore_Correct.thy ===== *)
theory Restore_Correct
  imports Restore Fsutil_Correct
begin

text \<open>
  Facts about \<open>Restore\<close>: what a plan admits, and that running one changes nothing outside the roots.
\<close>

section \<open>One step of a restore\<close>

definition in_git_dir :: "host \<Rightarrow> string list \<Rightarrow> bool" where
  "in_git_dir h q \<longleftrightarrow> list_ex (is_git_dir h) (ancestors (abs_path q))"

text \<open>
  What one operation may change: an entry inside the real location of a root and in no Git
  directory, a new directory on the way to a root, or an entry that was a symbolic link.
\<close>

definition change_ok :: "native_path list \<Rightarrow> host \<Rightarrow> host \<Rightarrow> string list \<Rightarrow> bool" where
  "change_ok roots h h' q \<longleftrightarrow>
     (\<not> in_git_dir h q \<and>
       (\<exists>root\<in>set roots. is_contained (abs_path q) (real_or_self h root) \<or>
          is_contained (real_or_self h root) (abs_path q) \<and>
          node_at h q = None \<and> node_at h' q = Some Directory)) \<or>
     (\<exists>t. node_at h q = Some (Symlink t))"

definition restore_step :: "native_path list \<Rightarrow> host \<Rightarrow> host \<Rightarrow> bool" where
  "restore_step roots h h' \<longleftrightarrow> tree_ok h \<and> tree_ok h' \<and>
     (\<forall>q. node_at h' q \<noteq> node_at h q \<longrightarrow> change_ok roots h h' q)"

lemma starts_with_prefix: "starts_with p s \<longleftrightarrow> prefix p s"
  by (auto simp: starts_with_iff prefix_def)

lemma contained_prefix:
  assumes "is_contained (abs_path real) root" and "prefix q real"
  shows "is_contained (abs_path q) root \<or> is_contained root (abs_path q)"
proof (cases "np_absolute root")
  case True
  with assms have "prefix (np_names root) real" by (auto simp: is_contained_def starts_with_prefix abs_path_def)
  with assms(2) have "prefix (np_names root) q \<or> prefix q (np_names root)"
    using prefix_same_cases by blast
  with True show ?thesis by (auto simp: is_contained_def starts_with_prefix abs_path_def)
next
  case False
  with assms(1) have "np_names root = []" by (auto simp: is_contained_def abs_path_def)
  with False show ?thesis by (simp add: is_contained_def starts_with_prefix abs_path_def)
qed

lemma in_git_dir_iff:
  "in_git_dir h q \<longleftrightarrow> (\<exists>k. k \<le> length q \<and> is_git_dir h (abs_path (take k q)))"
  by (auto simp: in_git_dir_def ancestors_def list_ex_iff abs_path_def less_Suc_eq_le simp del: upt_Suc)

lemma in_git_dir_prefix: "prefix q real \<Longrightarrow> in_git_dir h q \<Longrightarrow> in_git_dir h real"
proof -
  assume q: "prefix q real" and g: "in_git_dir h q"
  from g obtain k where k: "k \<le> length q" "is_git_dir h (abs_path (take k q))"
    by (auto simp: in_git_dir_iff)
  from q k(1) have "take k q = take k real" "k \<le> length real"
    by (auto simp: prefix_def)
  with k(2) show ?thesis by (auto simp: in_git_dir_iff)
qed

text \<open>A checked target: somewhere inside a root, and in no Git directory.\<close>

lemma checked_target:
  assumes "\<not> escapes_all_roots h roots p" and "\<not> lands_in_git_dir h p"
  shows "\<exists>real. containment_target h p 0 = Some real \<and> \<not> list_ex (is_git_dir h) (ancestors real) \<and>
    (\<exists>root\<in>set roots. is_contained real (real_or_self h root))"
  using assms by (auto simp: escapes_all_roots_def lands_in_git_dir_def list_ex_iff split: option.splits)

lemma contained_absolute:
  "containment_target h p n = Some real \<Longrightarrow> np_absolute p \<Longrightarrow> np_absolute real"
proof (induction h p n rule: containment_target.induct)
  case (1 h p n)
  have ab: "np_absolute (absolutize h p)"
    using "1.prems"(2) by (simp add: absolutize_def absolute_names_def abs_path_def)
  have joined: "np_absolute (path_join (path_join (abs_path d) q) \<lparr>np_absolute = False, np_names = xs\<rparr>)"
    for d q xs
    by (simp add: path_join_def abs_path_def)
  note unf = "1.prems"(1) [unfolded containment_target.simps [of h p n] Let_def]
  show ?case
  proof (cases "canonicalize h (absolutize h p)")
    case (Inr d)
    with unf show ?thesis by (auto simp: abs_path_def)
  next
    case (Inl e)
    with unf have n: "\<not> 40 < n" by (auto split: if_splits)
    show ?thesis
    proof (cases "existing_ancestor h (absolutize h p) (length (np_names (absolutize h p)))")
      case None
      with unf Inl n ab show ?thesis by auto
    next
      case (Some kd)
      obtain k d where kd: "kd = (k, d)" by fastforce
      let ?rest = "drop k (np_names (absolutize h p))"
      let ?first = "d @ [hd ?rest]"
      show ?thesis
      proof (cases "\<exists>t link. symlink_metadata h (abs_path ?first) = Inr (Symlink t) \<and>
          read_link h (abs_path ?first) = Inr link")
        case True
        then obtain t link where l: "symlink_metadata h (abs_path ?first) = Inr (Symlink t)"
          "read_link h (abs_path ?first) = Inr link" by blast
        with unf Inl n Some kd have rec: "containment_target h
            (path_join (path_join (abs_path d) (components link))
              \<lparr>np_absolute = False, np_names = tl ?rest\<rparr>) (n + 1) = Some real"
          by simp
        from "1.IH" [OF refl Inl n Some kd [symmetric] refl refl l(1) refl l(2) rec joined] show ?thesis .
      next
        case False
        with unf Inl n Some kd have "real = abs_path (d @ ?rest)"
          by (auto split: sum.splits node.splits)
        then show ?thesis by (simp add: abs_path_def)
      qed
    qed
  qed
qed

lemma changes_towards_step:
  assumes "tree_ok h" "tree_ok h'" and "changes_towards h h' real" and "\<not> in_git_dir h real"
    and "\<exists>root\<in>set roots. is_contained (abs_path real) (real_or_self h root)"
  shows "restore_step roots h h'"
  unfolding restore_step_def
proof (intro conjI allI impI)
  fix q
  assume changed: "node_at h' q \<noteq> node_at h q"
  have "q = real \<or> (strict_prefix q real \<and> node_at h q = None \<and> node_at h' q = Some Directory) \<or>
      (\<exists>t. node_at h q = Some (Symlink t))"
    by (rule mp [OF spec [OF assms(3) [unfolded changes_towards_def]] changed])
  then consider "q = real"
    | "strict_prefix q real" "node_at h q = None" "node_at h' q = Some Directory"
    | "\<exists>t. node_at h q = Some (Symlink t)"
    by iprover
  then show "change_ok roots h h' q"
  proof cases
    case 1
    with assms(4,5) show ?thesis by (auto simp: change_ok_def)
  next
    case 2
    then have p: "prefix q real" by (simp add: strict_prefix_def)
    with assms(4) have "\<not> in_git_dir h q" using in_git_dir_prefix by blast
    moreover from assms(5) contained_prefix [OF _ p] obtain root where "root \<in> set roots"
      "is_contained (abs_path q) (real_or_self h root) \<or> is_contained (real_or_self h root) (abs_path q)"
      by blast
    ultimately show ?thesis using 2 by (auto simp: change_ok_def)
  qed (simp add: change_ok_def)
qed (use assms in simp_all)

lemma restore_step_refl: "tree_ok h \<Longrightarrow> restore_step roots h h"
  by (simp add: restore_step_def)

text \<open>The paths of a plan: absolute, plain names only.\<close>

definition path_ok :: "native_path \<Rightarrow> bool" where
  "path_ok p \<longleftrightarrow> np_absolute p \<and> (\<forall>c\<in>set (np_names p). plain_name c)"

definition plan_ok :: "restore_plan \<Rightarrow> bool" where
  "plan_ok plan \<longleftrightarrow> (\<forall>op\<in>set (rp_create_operations plan). path_ok (co_absolute_path op)) \<and>
     (\<forall>op\<in>set (rp_delete_operations plan). path_ok (do_absolute_path op))"

lemma checked_write_step:
  assumes tree: "tree_ok h" and p: "path_ok p" and "np_names p \<noteq> []"
    and check: "\<not> escapes_all_roots h roots p" "\<not> lands_in_git_dir h p"
    and w: "write_text_file h p content = (r, h')"
  shows "restore_step roots h h'"
proof -
  obtain ps c where pc: "np_names p = ps @ [c]" using assms(3) by (metis rev_exhaust)
  have pe: "p = abs_path (ps @ [c])" using p pc by (simp add: path_ok_def abs_path_def)
  have plain: "\<forall>x\<in>set (ps @ [c]). plain_name x" using p pc by (simp add: path_ok_def)
  from checked_target [OF check] obtain real where t: "containment_target h p 0 = Some real"
    and g: "\<not> list_ex (is_git_dir h) (ancestors real)"
    and root: "\<exists>root\<in>set roots. is_contained real (real_or_self h root)" by blast
  from contained_absolute [OF t] p have re: "real = abs_path (np_names real)"
    by (simp add: path_ok_def abs_path_def)
  note eff = write_text_file_effect [OF tree plain, of "np_names real" content r h']
  have "write_effect h h' (np_names real) content (r = None)"
    using eff t re w pe by simp
  then show ?thesis
    using g root tree
    by (intro changes_towards_step [where real = "np_names real"])
      (simp_all add: write_effect_def in_git_dir_def re [symmetric])
qed

lemma metadata_root: "metadata h (abs_path []) = Inr Directory"
  by (simp add: metadata_def canonicalize_def absolute_names_def abs_path_def lookup_node_def)

lemma run_create_step:
  assumes tree: "tree_ok h" and p: "path_ok (co_absolute_path op)"
    and r: "run_create io h roots sel op = (outcome, h')"
  shows "restore_step roots h h'"
proof (cases "escapes_all_roots h roots (co_absolute_path op) \<or> has_git_segment (co_relative_path op) \<or>
      lands_in_git_dir h (co_absolute_path op) \<or> must_not_overwrite h (co_absolute_path op) \<or>
      metadata h (co_absolute_path op) = Inr Directory \<or>
      (\<exists>n. metadata h (co_absolute_path op) = Inr n) \<and> (sel_skip_existing sel \<or> \<not> sel_overwrite_existing sel)")
  case True
  with r have "h' = h"
    by (auto simp: run_create_def Let_def split: if_splits sum.splits)
  with tree show ?thesis by (simp add: restore_step_refl)
next
  case False
  let ?p = "co_absolute_path op"
  have ne: "np_names ?p \<noteq> []"
  proof
    assume "np_names ?p = []"
    with p have "?p = abs_path []" by (simp add: path_ok_def abs_path_def)
    with False metadata_root show False by simp
  qed
  obtain e h1 where w: "write_text_file h ?p (co_content op) = (e, h1)" by fastforce
  from False r w have "h' = h1"
    by (auto simp: run_create_def Let_def split: if_splits sum.splits option.splits)
  with checked_write_step [OF tree p ne _ _ w] False show ?thesis by simp
qed

lemma delete_file_step:
  assumes tree: "tree_ok h" and p: "path_ok p"
    and check: "\<not> escapes_all_roots h roots p" "\<not> lands_in_git_dir h p"
    and d: "delete_file h p = (r, h')"
  shows "restore_step roots h h'"
proof (cases r)
  case (Some e)
  with d have "h' = h" by (auto simp: delete_file_def split: sum.splits option.splits node.splits if_splits)
  with tree show ?thesis by (simp add: restore_step_refl)
next
  case None
  with d obtain e n where e: "entry_of h p = Inr e" and n: "lookup_node h e = Some n" "n \<noteq> Directory"
    and h': "h' = set_node h e None"
    by (auto simp: delete_file_def split: sum.splits option.splits node.splits if_splits)
  have ne: "np_names p \<noteq> []"
  proof
    assume "np_names p = []"
    with p have "p = abs_path []" by (simp add: path_ok_def abs_path_def)
    with e n show False by (simp add: entry_of_def absolute_names_def abs_path_def lookup_node_def)
  qed
  obtain ps c where pc: "np_names p = ps @ [c]" using ne by (metis rev_exhaust)
  have pe: "p = abs_path (ps @ [c])" using p pc by (simp add: path_ok_def abs_path_def)
  have plain: "plain_name c" using p pc by (simp add: path_ok_def)
  from e obtain x where x: "e = x @ [c]" "lookup_node h x = Some Directory"
    unfolding pe by (auto simp: entry_of_snoc [OF plain] split: sum.splits if_splits)
  have tree': "tree_ok h'"
    using tree_ok_set_leaf [OF tree, of x c h' None] n x h' by simp
  have "plain_names (ps @ [c])" using p pc by (auto simp: path_ok_def plain_names_def plain_name_def)
  then have self: "absolutize h p = p"
    unfolding pe by (intro absolutize_absolute) (simp_all add: abs_path_def)
  from checked_target [OF check] obtain real where t: "containment_target h p 0 = Some real"
    and g: "\<not> list_ex (is_git_dir h) (ancestors real)"
    and root: "\<exists>root\<in>set roots. is_contained real (real_or_self h root)" by blast
  from contained_absolute [OF t] p have re: "real = abs_path (np_names real)"
    by (simp add: path_ok_def abs_path_def)
  have "changes_towards h h' (np_names real)"
    unfolding changes_towards_def
  proof (intro allI impI)
    fix q
    assume "node_at h' q \<noteq> node_at h q"
    with h' have q: "q = e" by (auto split: if_splits)
    have ee: "e \<noteq> []" using x by simp
    show "q = np_names real \<or>
        (strict_prefix q (np_names real) \<and> node_at h q = None \<and> node_at h' q = Some Directory) \<or>
        (\<exists>t. node_at h q = Some (Symlink t))"
    proof (cases n)
      case (Symlink l)
      with n ee q show ?thesis by (auto simp: lookup_node_def)
    next
      case (Regular b)
      with containment_target_entry [of h p e] e n self t have "real = abs_path e" by simp
      with q show ?thesis by (simp add: abs_path_def)
    next
      case Special
      with containment_target_entry [of h p e] e n self t have "real = abs_path e" by simp
      with q show ?thesis by (simp add: abs_path_def)
    qed (use n in simp)
  qed
  then show ?thesis
    using g root tree tree'
    by (intro changes_towards_step [where real = "np_names real"])
      (simp_all add: in_git_dir_def re [symmetric])
qed

section \<open>A whole run\<close>

text \<open>Every change of host during a run is a chain of checked steps.\<close>

abbreviation restore_steps :: "native_path list \<Rightarrow> host \<Rightarrow> host \<Rightarrow> bool" where
  "restore_steps roots \<equiv> (restore_step roots)\<^sup>*\<^sup>*"

lemma restore_steps_tree: "restore_steps roots h h' \<Longrightarrow> tree_ok h \<Longrightarrow> tree_ok h'"
  by (induction rule: rtranclp_induct) (auto simp: restore_step_def)

lemma create_step_host:
  assumes "tree_ok (run_host run)" and "path_ok (co_absolute_path op)"
  shows "restore_steps (rp_roots plan) (run_host run) (run_host (create_step io plan sel run (i, op)))"
proof (cases "i \<in> sel_unchecked_creates sel")
  case True
  then show ?thesis by (simp add: create_step_def)
next
  case False
  obtain outcome h' where r: "run_create io (run_host run) (rp_roots plan) sel op = (outcome, h')" by fastforce
  have "run_host (create_step io plan sel run (i, op)) = h'"
    using False r
    by (simp add: create_step_def add_error_def Let_def split: sum.split create_outcome.split)
  with run_create_step [OF assms r] show ?thesis by simp
qed

lemma delete_step_host:
  assumes tree: "tree_ok (run_host run)" and p: "path_ok (do_absolute_path op)"
  shows "restore_steps (rp_roots plan) (run_host run) (run_host (delete_step io plan sel run (i, op)))"
proof (cases "i \<in> sel_unchecked_deletes sel \<or>
    escapes_all_roots (run_host run) (rp_roots plan) (do_absolute_path op) \<or>
    has_git_segment (do_relative_path op) \<or> lands_in_git_dir (run_host run) (do_absolute_path op) \<or>
    \<not> path_exists (run_host run) (do_absolute_path op)")
  case True
  then have "run_host (delete_step io plan sel run (i, op)) = run_host run"
    by (auto simp: delete_step_def add_error_def)
  then show ?thesis by simp
next
  case False
  obtain r h' where d: "delete_file (run_host run) (do_absolute_path op) = (r, h')" by fastforce
  have "run_host (delete_step io plan sel run (i, op)) = h'"
    using False d by (auto simp: delete_step_def add_error_def split: option.splits)
  with delete_file_step [OF tree p _ _ d] False show ?thesis by (simp add: r_into_rtranclp)
qed

lemma fold_steps:
  assumes "\<And>run x. x \<in> set xs \<Longrightarrow> tree_ok (run_host run) \<Longrightarrow>
      restore_steps roots (run_host run) (run_host (f run x))"
    and "tree_ok (run_host run)"
  shows "restore_steps roots (run_host run) (run_host (foldl f run xs))"
  using assms
proof (induction xs arbitrary: run)
  case Nil
  then show ?case by simp
next
  case (Cons x xs)
  have s: "restore_steps roots (run_host run) (run_host (f run x))" using Cons.prems by simp
  then have "tree_ok (run_host (f run x))" using Cons.prems(2) by (rule restore_steps_tree)
  with Cons.IH [of "f run x"] Cons.prems(1) s show ?case by (auto intro: rtranclp_trans)
qed

lemma execute_steps:
  assumes tree: "tree_ok h" and plan: "plan_ok plan"
  shows "restore_steps (rp_roots plan) h (run_host (execute_restore_plan_observed io h plan sel))"
proof -
  let ?start = "\<lparr>run_result =
           \<lparr>res_created_count = 0, res_overwritten_count = 0, res_skipped_existing_count = 0,
            res_planned_skipped_count = length (rp_skipped_operations plan), res_deleted_count = 0,
            res_errors = []\<rparr>,
         run_observed = [], run_host = h\<rparr>"
  let ?created = "foldl (create_step io plan sel) ?start (indexed (rp_create_operations plan))"
  have c: "restore_steps (rp_roots plan) (run_host ?start) (run_host ?created)"
  proof (rule fold_steps)
    show "restore_steps (rp_roots plan) (run_host run) (run_host (create_step io plan sel run x))"
      if "x \<in> set (indexed (rp_create_operations plan))" and "tree_ok (run_host run)" for run x
    proof -
      obtain i op where x: "x = (i, op)" by fastforce
      with that(1) have "op \<in> set (rp_create_operations plan)"
        by (auto simp: indexed_def dest: set_zip_rightD)
      with plan have "path_ok (co_absolute_path op)" by (simp add: plan_ok_def)
      with create_step_host [OF that(2)] x show ?thesis by simp
    qed
  qed (simp add: tree)
  then have tree1: "tree_ok (run_host ?created)" using tree restore_steps_tree by simp
  have d: "restore_steps (rp_roots plan) (run_host ?created)
      (run_host (foldl (delete_step io plan sel) ?created (indexed (rp_delete_operations plan))))"
  proof (rule fold_steps)
    show "restore_steps (rp_roots plan) (run_host run) (run_host (delete_step io plan sel run x))"
      if "x \<in> set (indexed (rp_delete_operations plan))" and "tree_ok (run_host run)" for run x
    proof -
      obtain i op where x: "x = (i, op)" by fastforce
      with that(1) have "op \<in> set (rp_delete_operations plan)"
        by (auto simp: indexed_def dest: set_zip_rightD)
      with plan have "path_ok (do_absolute_path op)" by (simp add: plan_ok_def)
      with delete_step_host [OF that(2)] x show ?thesis by simp
    qed
  qed (rule tree1)
  from c d show ?thesis
    by (simp add: execute_restore_plan_observed_def Let_def)
qed

section \<open>What a plan admits\<close>

definition create_ok :: "host \<Rightarrow> path_resolver \<Rightarrow> parsed_entry \<Rightarrow> create_operation \<Rightarrow> bool" where
  "create_ok h r entry op \<longleftrightarrow>
     Deleted \<notin> entry_change_types entry \<and> \<not> is_placeholder_body (entry_content entry) \<and>
     co_content op = entry_content entry \<and>
     (\<exists>t. resolve_write_target h r (entry_path entry) = Inr t \<and>
        co_relative_path op = rt_relative_path t \<and> co_absolute_path op = rt_absolute_path t \<and>
        co_root_path op = rt_root_path t) \<and>
     \<not> lands_in_git_dir h (co_absolute_path op) \<and> \<not> must_not_overwrite h (co_absolute_path op)"

definition delete_ok :: "host \<Rightarrow> path_resolver \<Rightarrow> parsed_entry \<Rightarrow> delete_operation \<Rightarrow> bool" where
  "delete_ok h r entry op \<longleftrightarrow>
     Deleted \<in> entry_change_types entry \<and>
     (\<exists>t. resolve_delete_target h r (entry_path entry) = Inr t \<and>
        do_relative_path op = rt_relative_path t \<and> do_absolute_path op = rt_absolute_path t) \<and>
     \<not> lands_in_git_dir h (do_absolute_path op)"

text \<open>Every entry adds exactly one item to the plan.\<close>

lemma plan_entry_cases:
  "(\<exists>op. plan_entry h r plan e = push_skipped plan op \<and> sk_raw_path op = entry_path e) \<or>
   (\<exists>op. create_ok h r e op \<and>
      plan_entry h r plan e = plan\<lparr>rp_create_operations := rp_create_operations plan @ [op]\<rparr>) \<or>
   (\<exists>op. delete_ok h r e op \<and>
      plan_entry h r plan e = plan\<lparr>rp_delete_operations := rp_delete_operations plan @ [op]\<rparr>)"
proof -
  have skip: "sk_raw_path (skip_entry e rel reason) = entry_path e"
    "sk_raw_path (protected e) = entry_path e" for rel reason
    by (simp_all add: skip_entry_def protected_def)
  consider "has_git_segment (entry_path e) \<or>
      (Deleted \<notin> entry_change_types e \<and> is_placeholder_body (entry_content e))"
    | "\<not> has_git_segment (entry_path e)" "Deleted \<in> entry_change_types e"
    | "\<not> has_git_segment (entry_path e)" "Deleted \<notin> entry_change_types e"
      "\<not> is_placeholder_body (entry_content e)"
    by blast
  then show ?thesis
  proof cases
    case 1
    then show ?thesis using skip by (auto simp: plan_entry_def)
  next
    case 2
    then have p: "plan_entry h r plan e = plan_delete h r plan e" by (simp add: plan_entry_def)
    show ?thesis
    proof (cases "resolve_delete_target h r (entry_path e)")
      case (Inl x)
      with p skip show ?thesis by (auto simp: plan_delete_def Let_def)
    next
      case (Inr t)
      show ?thesis
      proof (cases "lands_in_git_dir h (rt_absolute_path t)")
        case True
        with p skip Inr show ?thesis by (auto simp: plan_delete_def)
      next
        case False
        let ?op = "\<lparr>do_relative_path = rt_relative_path t, do_absolute_path = rt_absolute_path t\<rparr>"
        have "delete_ok h r e ?op" using 2 Inr False by (simp add: delete_ok_def)
        moreover have "plan_entry h r plan e =
            plan\<lparr>rp_delete_operations := rp_delete_operations plan @ [?op]\<rparr>"
          using p Inr False by (simp add: plan_delete_def)
        ultimately show ?thesis by blast
      qed
    qed
  next
    case 3
    then have p: "plan_entry h r plan e = plan_write h r plan e" by (simp add: plan_entry_def)
    show ?thesis
    proof (cases "resolve_write_target h r (entry_path e)")
      case (Inl x)
      with p skip show ?thesis by (auto simp: plan_write_def)
    next
      case (Inr t)
      let ?op = "\<lparr>co_relative_path = rt_relative_path t, co_absolute_path = rt_absolute_path t,
        co_content = entry_content e, co_existed = (rt_existed t \<or> path_exists h (rt_absolute_path t)),
        co_root_path = rt_root_path t\<rparr>"
      show ?thesis
      proof (cases "has_git_segment (rt_relative_path t) \<or> lands_in_git_dir h (rt_absolute_path t) \<or>
          must_not_overwrite h (rt_absolute_path t)")
        case True
        with p skip Inr show ?thesis by (auto simp: plan_write_def)
      next
        case False
        have "create_ok h r e ?op" using 3 Inr False by (simp add: create_ok_def)
        moreover have "plan_entry h r plan e =
            plan\<lparr>rp_create_operations := rp_create_operations plan @ [?op]\<rparr>"
          using p Inr False by (simp add: plan_write_def)
        ultimately show ?thesis by blast
      qed
    qed
  qed
qed

definition plan_inv :: "host \<Rightarrow> path_resolver \<Rightarrow> parsed_entry list \<Rightarrow> restore_plan \<Rightarrow> bool" where
  "plan_inv h r es plan \<longleftrightarrow>
     length (rp_create_operations plan) + length (rp_delete_operations plan) +
       length (rp_skipped_operations plan) = length es \<and>
     (\<forall>op\<in>set (rp_create_operations plan). \<exists>e\<in>set es. create_ok h r e op) \<and>
     (\<forall>op\<in>set (rp_delete_operations plan). \<exists>e\<in>set es. delete_ok h r e op) \<and>
     (\<forall>op\<in>set (rp_skipped_operations plan). \<exists>e\<in>set es. sk_raw_path op = entry_path e)"

lemma plan_inv_step:
  assumes "plan_inv h r es plan" shows "plan_inv h r (es @ [e]) (plan_entry h r plan e)"
  using plan_entry_cases [of h r plan e]
proof (elim disjE exE conjE)
  fix op
  assume "plan_entry h r plan e = push_skipped plan op" "sk_raw_path op = entry_path e"
  with assms show ?thesis by (auto simp: plan_inv_def push_skipped_def)
next
  fix op
  assume "create_ok h r e op"
    "plan_entry h r plan e = plan\<lparr>rp_create_operations := rp_create_operations plan @ [op]\<rparr>"
  with assms show ?thesis by (auto simp: plan_inv_def)
next
  fix op
  assume "delete_ok h r e op"
    "plan_entry h r plan e = plan\<lparr>rp_delete_operations := rp_delete_operations plan @ [op]\<rparr>"
  with assms show ?thesis by (auto simp: plan_inv_def)
qed

lemma plan_inv_fold:
  "plan_inv h r es plan \<Longrightarrow> plan_inv h r (es @ es') (foldl (plan_entry h r) plan es')"
proof (induction es' arbitrary: es plan)
  case Nil
  then show ?case by simp
next
  case (Cons e es')
  from Cons.IH [OF plan_inv_step [OF Cons.prems, of e]] show ?case by simp
qed

lemma plan_restore_inv: "plan_inv h (resolver_new h roots None) entries (plan_restore h roots entries)"
proof -
  have "plan_inv h (resolver_new h roots None) ([] @ entries) (plan_restore h roots entries)"
    unfolding plan_restore_def by (rule plan_inv_fold) (simp add: plan_inv_def)
  then show ?thesis by simp
qed

lemma rp_roots_entry: "rp_roots (plan_entry h r plan e) = rp_roots plan"
  using plan_entry_cases [of h r plan e] by (auto simp: push_skipped_def)

lemma rp_roots_fold: "rp_roots (foldl (plan_entry h r) plan es) = rp_roots plan"
  by (induction es arbitrary: plan) (simp_all add: rp_roots_entry)

lemma plan_restore_roots: "rp_roots (plan_restore h roots entries) = map components roots"
  by (simp add: plan_restore_def rp_roots_fold)

text \<open>With a working directory, the targets of a plan are absolute.\<close>

definition cwd_ok :: "host \<Rightarrow> bool" where
  "cwd_ok h \<longleftrightarrow> (\<exists>cwd. host_cwd h = Some cwd \<and> [] \<notin> set cwd)"

lemma absolutize_path_ok:
  assumes "cwd_ok h" and "root \<noteq> []"
  shows "path_ok (absolutize h (native root))"
proof -
  obtain cwd where cwd: "host_cwd h = Some cwd" "[] \<notin> set cwd" using assms(1) by (auto simp: cwd_ok_def)
  have ne: "[] \<notin> set (np_names (native root))"
    by (auto simp: native_def components_def Let_def dot_def)
  obtain names where n: "absolute_names h (native root) = Inr names" "[] \<notin> set names"
  proof (cases "np_absolute (native root)")
    case True
    with ne show ?thesis by (intro that [of "np_names (native root)"]) (simp_all add: absolute_names_def)
  next
    case False
    with native_not_empty [OF assms(2)] cwd ne show ?thesis
      by (intro that [of "cwd @ np_names (native root)"]) (simp_all add: absolute_names_def)
  qed
  have "[] \<notin> set (foldl push_component out names)" if "[] \<notin> set out" for out
    using that n(2)
    by (induction names arbitrary: out) (auto simp: push_component_def dest: in_set_butlastD)
  then have "[] \<notin> set (np_names (absolutize h (native root)))"
    by (simp add: absolutize_def n Let_def abs_path_def)
  moreover have "np_absolute (absolutize h (native root))"
    by (simp add: absolutize_def n Let_def abs_path_def)
  ultimately show ?thesis
    using absolutize_plain [of h "native root"] by (auto simp: path_ok_def plain_name_def plain_names_def)
qed

lemma target_path_ok:
  assumes "cwd_ok h" and "target_ok h (resolver_new h roots primary) t"
  shows "path_ok (rt_absolute_path t)"
proof -
  from assms(2) obtain root where root: "root \<in> set (pr_ordered_roots (resolver_new h roots primary))"
    and rel: "rt_relative_path t = [] \<or> clean_rel (rt_relative_path t)"
    and t: "rt_absolute_path t =
        below (absolutize h (native (re_path root))) (rel_names (rt_relative_path t))"
    by (auto simp: target_ok_def)
  have "re_path root \<noteq> []"
    using resolver_new_ok root by (auto simp: resolver_ok_def root_ok_def)
  with absolutize_path_ok [OF assms(1)] have "path_ok (absolutize h (native (re_path root)))" by simp
  moreover have "\<forall>c\<in>set (rel_names (rt_relative_path t)). plain_name c"
    using rel by (auto simp: rel_names_def clean_rel_def plain_name_def bad_segment_def)
  ultimately show ?thesis by (auto simp: t below_def path_ok_def)
qed

lemma plan_restore_ok:
  assumes "cwd_ok h" shows "plan_ok (plan_restore h roots entries)"
proof -
  let ?r = "resolver_new h roots None"
  have inv: "plan_inv h ?r entries (plan_restore h roots entries)" by (rule plan_restore_inv)
  have w: "path_ok (rt_absolute_path t)" if "resolve_write_target h ?r raw = Inr t" for raw t
    using write_target_ok [OF resolver_new_ok that] target_path_ok [OF assms] by blast
  have d: "path_ok (rt_absolute_path t)" if "resolve_delete_target h ?r raw = Inr t" for raw t
    using delete_target_ok [OF resolver_new_ok that] target_path_ok [OF assms] by blast
  from inv w d show ?thesis
    by (fastforce simp: plan_inv_def plan_ok_def create_ok_def delete_ok_def)
qed

section \<open>Accounting\<close>

definition tally :: "restore_execution_result \<Rightarrow> nat" where
  "tally r = res_created_count r + res_overwritten_count r + res_skipped_existing_count r +
     res_deleted_count r + length (res_errors r)"

definition observed_ok :: "restore_run \<Rightarrow> bool" where
  "observed_ok run \<longleftrightarrow>
     length (run_observed run) =
       res_created_count (run_result run) + res_overwritten_count (run_result run)"

lemma create_step_tally:
  "tally (run_result (create_step io plan sel run (i, op))) =
     tally (run_result run) + (if i \<in> sel_unchecked_creates sel then 0 else 1) \<and>
   (observed_ok run \<longrightarrow> observed_ok (create_step io plan sel run (i, op)))"
proof (cases "i \<in> sel_unchecked_creates sel")
  case True
  then show ?thesis by (simp add: create_step_def)
next
  case False
  obtain outcome h' where r: "run_create io (run_host run) (rp_roots plan) sel op = (outcome, h')" by fastforce
  show ?thesis
  proof (cases outcome)
    case (Inl m)
    with False r show ?thesis by (simp add: create_step_def add_error_def tally_def observed_ok_def)
  next
    case (Inr oc)
    with False r show ?thesis
      by (cases oc) (simp_all add: create_step_def tally_def observed_ok_def Let_def)
  qed
qed

lemma create_fold_tally:
  "tally (run_result (foldl (create_step io plan sel) run xs)) =
     tally (run_result run) + length (filter (\<lambda>(i, _). i \<notin> sel_unchecked_creates sel) xs) \<and>
   (observed_ok run \<longrightarrow> observed_ok (foldl (create_step io plan sel) run xs))"
proof (induction xs arbitrary: run)
  case Nil
  then show ?case by simp
next
  case (Cons x xs)
  obtain i op where x: "x = (i, op)" by fastforce
  from Cons.IH [of "create_step io plan sel run x"] create_step_tally [of io plan sel run i op]
  show ?case by (simp add: x)
qed

lemma delete_step_tally:
  "tally (run_result run) \<le> tally (run_result (delete_step io plan sel run (i, op))) \<and>
   tally (run_result (delete_step io plan sel run (i, op))) \<le>
     tally (run_result run) + (if i \<in> sel_unchecked_deletes sel then 0 else 1) \<and>
   (observed_ok run \<longrightarrow> observed_ok (delete_step io plan sel run (i, op)))"
  by (auto simp: delete_step_def add_error_def tally_def observed_ok_def
      split: prod.splits option.splits)

lemma delete_fold_tally:
  "tally (run_result run) \<le> tally (run_result (foldl (delete_step io plan sel) run xs)) \<and>
   tally (run_result (foldl (delete_step io plan sel) run xs)) \<le>
     tally (run_result run) + length (filter (\<lambda>(i, _). i \<notin> sel_unchecked_deletes sel) xs) \<and>
   (observed_ok run \<longrightarrow> observed_ok (foldl (delete_step io plan sel) run xs))"
proof (induction xs arbitrary: run)
  case Nil
  then show ?case by simp
next
  case (Cons x xs)
  obtain i op where x: "x = (i, op)" by fastforce
  from Cons.IH [of "delete_step io plan sel run x"] delete_step_tally [of run io plan sel i op]
  show ?case by (auto simp: x)
qed

section \<open>The best base\<close>

lemma fold_max_start: "(m::nat) \<le> foldl max m xs"
proof (induction xs arbitrary: m)
  case Nil
  then show ?case by simp
next
  case (Cons y ys)
  from Cons.IH [of "max m y"] show ?case by simp
qed

lemma fold_max: "x \<in> set xs \<Longrightarrow> (x::nat) \<le> foldl max m xs"
proof (induction xs arbitrary: m)
  case Nil
  then show ?case by simp
next
  case (Cons y ys)
  from Cons.prems have "x = y \<or> x \<in> set ys" by simp
  then show ?case
  proof
    assume "x = y"
    with fold_max_start [of "max m y" ys] show ?thesis by simp
  next
    assume "x \<in> set ys"
    with Cons.IH show ?thesis by simp
  qed
qed

lemma best_candidate_max:
  assumes "best_candidate cs = Some (b, s, l)"
  shows "(b, s, l) \<in> set cs" and "\<And>b' s' l'. (b', s', l') \<in> set cs \<Longrightarrow> s' \<le> s"
proof -
  let ?m = "foldl max 0 (map (\<lambda>(_, s, _). s) cs)"
  let ?top = "filter (\<lambda>(_, s, _). s = ?m) cs"
  have "(b, s, l) \<in> set ?top"
  proof (cases "length ?top = 1")
    case True
    with assms have "hd ?top = (b, s, l)" by (simp add: best_candidate_def Let_def)
    with True show ?thesis by (metis hd_in_set list.size(3) zero_neq_one)
  next
    case False
    with assms have "find (\<lambda>(b, _, _). is_strip b) ?top = Some (b, s, l)"
      by (simp add: best_candidate_def Let_def)
    then show ?thesis by (rule find_in)
  qed
  then have c: "(b, s, l) \<in> set cs" and s: "s = ?m" by auto
  from c show "(b, s, l) \<in> set cs" .
  show "s' \<le> s" if "(b', s', l') \<in> set cs" for b' s' l'
    unfolding s by (rule fold_max) (use that in force)
qed

lemma base_candidates_score:
  "(b, s, l) \<in> set (base_candidates root multi probe) \<Longrightarrow>
   s = base_score root multi probe (Some b) \<and>
   (b = Strip (base_name_of root) \<or> (\<exists>p\<in>set (probe_child_dirs probe root). b = Add p))"
  by (auto simp: base_candidates_def Let_def split: if_splits)

section \<open>The properties\<close>



lemma demo_tree_ok: "tree_ok demo_host"
proof -
  have "lookup_node demo_host q = Some Directory" if "node_at demo_host (q @ [c]) \<noteq> None" for q c
  proof -
    from that have "q @ [c] \<in> set [[''w''], [''w'', ''src''], [''w'', ''src'', ''a''], [''o''], [''o'', ''x''], [''w'', ''d'']]"
      by (auto simp: demo_host_def demo_tree_def split: if_splits)
    then have "q \<in> {[], [''w''], [''w'', ''src''], [''o'']}"
      by (cases q rule: rev_cases) (auto simp: append_eq_Cons_conv)
    then show ?thesis by (auto simp: lookup_node_def demo_host_def demo_tree_def)
  qed
  then show ?thesis by (simp add: tree_ok_def)
qed

definition demo_entry :: parsed_entry where
  "demo_entry = \<lparr>entry_path = ''src/b'', entry_content = ''new'', entry_change_types = {}\<rparr>"





lemma path_dependencies_split:
  "has_path_dependencies paths \<longleftrightarrow>
     \<not> distinct (map lossy paths) \<or>
     (\<exists>p\<in>set (map lossy paths). \<exists>q\<in>set (map lossy paths). \<exists>c rest.
        p = q @ c # rest \<and> (c = slash \<or> c = backslash))"
proof -
  have key: "(\<exists>i<length p. (p ! i = slash \<or> p ! i = backslash) \<and> take i p \<in> set ps) \<longleftrightarrow>
      (\<exists>q\<in>set ps. \<exists>c rest. p = q @ c # rest \<and> (c = slash \<or> c = backslash))" for p ps
  proof
    assume "\<exists>i<length p. (p ! i = slash \<or> p ! i = backslash) \<and> take i p \<in> set ps"
    then obtain i where i: "i < length p" "p ! i = slash \<or> p ! i = backslash" "take i p \<in> set ps" by blast
    from i(1) have "p = take i p @ p ! i # drop (Suc i) p" by (simp add: id_take_nth_drop)
    with i(2,3) show "\<exists>q\<in>set ps. \<exists>c rest. p = q @ c # rest \<and> (c = slash \<or> c = backslash)" by blast
  next
    assume "\<exists>q\<in>set ps. \<exists>c rest. p = q @ c # rest \<and> (c = slash \<or> c = backslash)"
    then obtain q c rest where "q \<in> set ps" "p = q @ c # rest" "c = slash \<or> c = backslash" by blast
    then show "\<exists>i<length p. (p ! i = slash \<or> p ! i = backslash) \<and> take i p \<in> set ps"
      by (intro exI [of _ "length q"]) simp
  qed
  have ex: "list_ex (\<lambda>i. (p ! i = slash \<or> p ! i = backslash) \<and> take i p \<in> set ps) [0..<length p] \<longleftrightarrow>
      (\<exists>i<length p. (p ! i = slash \<or> p ! i = backslash) \<and> take i p \<in> set ps)" for p ps
    by (auto simp: list_ex_iff)
  have dup: "length (remdups ps) \<noteq> length ps \<longleftrightarrow> \<not> distinct ps" for ps :: "string list"
    by simp
  show ?thesis
    unfolding has_path_dependencies_def Let_def dup ex key
    by (simp only: list_ex_iff if_bool_eq_disj simp_thms) blast
qed

text \<open>Two operations whose order matters: the paths are equal or one is above the other.\<close>

definition depends_on :: "string \<Rightarrow> string \<Rightarrow> bool" where
  "depends_on p q \<longleftrightarrow> p = q \<or> (\<exists>c rest. p = q @ c # rest \<and> (c = slash \<or> c = backslash))"

text \<open>
  Two paths depend on each other exactly when they are equal or one is the other followed by
  a separator: such operations are the ones whose order matters.
\<close>

theorem path_dependencies_iff:
  "has_path_dependencies paths \<longleftrightarrow>
     (\<exists>i<length paths. \<exists>j<length paths. i \<noteq> j \<and>
        depends_on (lossy (paths ! i)) (lossy (paths ! j)))"
proof
  assume "has_path_dependencies paths"
  then consider "\<not> distinct (map lossy paths)"
    | p q c rest where "p \<in> set (map lossy paths)" "q \<in> set (map lossy paths)" "p = q @ c # rest"
        "c = slash \<or> c = backslash"
    unfolding path_dependencies_split by blast
  then show "\<exists>i<length paths. \<exists>j<length paths. i \<noteq> j \<and>
      depends_on (lossy (paths ! i)) (lossy (paths ! j))"
  proof cases
    case 1
    then show ?thesis by (auto simp: distinct_conv_nth depends_on_def)
  next
    case 2
    then obtain i j where "i < length paths" "lossy (paths ! i) = p" "j < length paths" "lossy (paths ! j) = q"
      by (auto simp: in_set_conv_nth)
    moreover have "p \<noteq> q" using 2(3) by simp
    ultimately show ?thesis
      using 2(3,4) by (intro exI [of _ i] conjI exI [of _ j]) (auto simp: depends_on_def)
  qed
next
  assume "\<exists>i<length paths. \<exists>j<length paths. i \<noteq> j \<and>
      depends_on (lossy (paths ! i)) (lossy (paths ! j))"
  then obtain i j where ij: "i < length paths" "j < length paths" "i \<noteq> j"
    "depends_on (lossy (paths ! i)) (lossy (paths ! j))" by blast
  then have m: "lossy (paths ! i) \<in> set (map lossy paths)" "lossy (paths ! j) \<in> set (map lossy paths)"
    by simp_all
  show "has_path_dependencies paths"
  proof (cases "lossy (paths ! i) = lossy (paths ! j)")
    case True
    with ij have "\<not> distinct (map lossy paths)" by (auto simp: distinct_conv_nth)
    then show ?thesis by (simp only: path_dependencies_split simp_thms)
  next
    case False
    with ij(4) obtain c rest where "lossy (paths ! i) = lossy (paths ! j) @ c # rest"
      "c = slash \<or> c = backslash" by (auto simp: depends_on_def)
    with m show ?thesis unfolding path_dependencies_split by blast
  qed
qed

text \<open>
  A suggested base is confident: at least two nested paths were considered, the base is the
  workspace's own name stripped or an existing child directory added, strictly more parents exist
  under it than unshifted, at least half of all, and no other candidate does better.
\<close>

theorem suggested_base_confident:
  assumes "suggest_restore_base root paths probe source = Some s" and "non_empty source = None"
  shows "let multi = multi_paths (filter is_relative paths) in
    2 \<le> length multi \<and> sug_total s = length multi \<and>
    sug_matched s = base_score root multi probe (Some (sug_base s)) \<and>
    base_score root multi probe None < sug_matched s \<and> sug_total s \<le> 2 * sug_matched s \<and>
    (sug_base s = Strip (base_name_of root) \<or>
       (\<exists>p\<in>set (probe_child_dirs probe root). sug_base s = Add p)) \<and>
    (\<forall>(b, score, l)\<in>set (base_candidates root multi probe). score \<le> sug_matched s)"
proof -
  let ?multi = "multi_paths (filter is_relative paths)"
  from assms obtain b score l where best: "best_candidate (base_candidates root ?multi probe) = Some (b, score, l)"
    and len: "\<not> length ?multi < 2"
    and conf: "\<not> score \<le> base_score root ?multi probe None" "\<not> score * 2 < length ?multi"
    and s: "s = \<lparr>sug_base = b, sug_label = l, sug_matched = score, sug_total = length ?multi\<rparr>"
    by (auto simp: suggest_restore_base_def Let_def split: if_splits option.splits)
  from base_candidates_score [OF best_candidate_max(1) [OF best]] best_candidate_max(2) [OF best] len conf
  show ?thesis by (auto simp: Let_def s)
qed

theorem suggested_base_confident_witness:
  "base_score ''/w'' [''src/a'', ''src/b''] \<lparr>probe_is_dir = (\<lambda>p. p = ''/w/app/src''), probe_child_dirs = (\<lambda>_. [''app''])\<rparr> None
     < 2"
proof -
  let ?probe = "\<lparr>probe_is_dir = (\<lambda>p. p = ''/w/app/src''), probe_child_dirs = (\<lambda>_. [''app''])\<rparr>"
  let ?s = "\<lparr>sug_base = Add ''app'', sug_label = add_label ''app'', sug_matched = 2, sug_total = 2\<rparr>"
  have "suggest_restore_base ''/w'' [''src/a'', ''src/b''] ?probe None = Some ?s" by code_simp
  moreover have "non_empty None = None" by (simp add: non_empty_def)
  moreover have "multi_paths (filter is_relative [''src/a'', ''src/b'']) = [''src/a'', ''src/b'']" by code_simp
  ultimately show ?thesis
    using suggested_base_confident [of "''/w''" "[''src/a'', ''src/b'']" ?probe None ?s] by (simp add: Let_def)
qed

end
