(* ===== verification/Copy.thy ===== *)
theory Copy
  imports Fsutil Filters Stats
begin

text \<open>
  File-mode copy: collect files and build the payload (\<open>crates/core/src/copy.rs\<close>).
\<close>

section \<open>Data\<close>

record copy_result =
  cr_files :: "payload_file list"
  cr_payload :: string
  cr_copied_file_count :: nat
  cr_skipped_file_size_count :: nat
  cr_skipped_unreadable_count :: nat
  cr_file_limit_reached :: bool

definition copy_stats :: "copy_result \<Rightarrow> payload_stats" where
  "copy_stats result = payload_stats (cr_payload result)"

record copy_text_file =
  ctf_absolute_path :: native_path
  ctf_content :: string
  ctf_size_bytes :: "nat option"

record copy_state =
  cs_files :: "payload_file list"
  cs_seen :: "native_path set"
  cs_copied_file_count :: nat
  cs_skipped_file_size_count :: nat
  cs_skipped_unreadable_count :: nat
  cs_file_limit_reached :: bool

definition copy_start :: copy_state where
  "copy_start =
     \<lparr>cs_files = [], cs_seen = {}, cs_copied_file_count = 0, cs_skipped_file_size_count = 0,
      cs_skipped_unreadable_count = 0, cs_file_limit_reached = False\<rparr>"

datatype content = Text string | Unreadable

text \<open>\<open>n as f64 >= limit\<close> and \<open>n as f64 > limit * 1024.0\<close>; a comparison with NaN is false.\<close>

definition count_reaches :: "nat \<Rightarrow> f64 \<Rightarrow> bool" where
  "count_reaches n limit = (case limit of Fin q \<Rightarrow> q \<le> uint_as_f64 n | Not_Finite \<Rightarrow> False)"

definition size_exceeds_kb :: "nat \<Rightarrow> f64 \<Rightarrow> bool" where
  "size_exceeds_kb n limit = (case limit of Fin q \<Rightarrow> q * 1024 < uint_as_f64 n | Not_Finite \<Rightarrow> False)"

section \<open>The collector\<close>

definition limit_hit :: "settings \<Rightarrow> copy_state \<Rightarrow> bool \<times> copy_state" where
  "limit_hit s st =
     (let st' = (if set_max_file_count s \<and> count_reaches (cs_copied_file_count st) (file_count_limit s)
            then st\<lparr>cs_file_limit_reached := True\<rparr> else st) in
      (cs_file_limit_reached st', st'))"

definition admit ::
  "(string \<Rightarrow> (string \<Rightarrow> bool) option) \<Rightarrow> host \<Rightarrow> string list \<Rightarrow> native_path \<Rightarrow> settings \<Rightarrow> copy_state \<Rightarrow>
   string option \<times> copy_state" where
  "admit rx h roots absolute s st =
     (if absolute \<in> cs_seen st then (None, st)
      else
        (let st' = st\<lparr>cs_seen := insert absolute (cs_seen st)\<rparr>;
             relative = to_clipboard_path_from_roots h roots (path_string absolute) None in
         if use_filters s \<and>
            \<not> file_matches_filters rx relative (filter_rules s) (use_include_filters s)
                (use_exclude_filters s) (Some (lossy (path_string absolute)))
         then (None, st')
         else (Some relative, st')))"

definition empty_file :: "string \<Rightarrow> payload_file" where
  "empty_file path =
     \<lparr>file_path = path, file_content = None, file_change_type = None, file_skipped_reason = None\<rparr>"

definition push_file :: "string \<Rightarrow> nat \<Rightarrow> settings \<Rightarrow> content \<Rightarrow> copy_state \<Rightarrow> copy_state" where
  "push_file relative_path n s read st =
     (if size_exceeds_kb n (max_file_size_kb s) then
        st\<lparr>cs_skipped_file_size_count := cs_skipped_file_size_count st + 1,
           cs_files := cs_files st @
             [(empty_file relative_path)\<lparr>file_skipped_reason :=
                Some (''size exceeds limit ('' @ show_nat n @ '' bytes)'')\<rparr>]\<rparr>
      else case read of
        Text t \<Rightarrow>
          st\<lparr>cs_files := cs_files st @ [(empty_file relative_path)\<lparr>file_content := Some t\<rparr>],
             cs_copied_file_count := cs_copied_file_count st + 1\<rparr>
      | Unreadable \<Rightarrow> st\<lparr>cs_skipped_unreadable_count := cs_skipped_unreadable_count st + 1\<rparr>)"

definition finish :: "string list \<Rightarrow> settings \<Rightarrow> copy_state \<Rightarrow> copy_result" where
  "finish roots s st =
     \<lparr>cr_files = cs_files st,
      cr_payload = build_payload
        \<lparr>opt_header_format = header_format s, opt_pre_text = pre_text s, opt_post_text = post_text s,
         opt_add_extra_line_between_files = add_extra_line_between_files s,
         opt_files = cs_files st, opt_source_root = source_root_name roots\<rparr>,
      cr_copied_file_count = cs_copied_file_count st,
      cr_skipped_file_size_count = cs_skipped_file_size_count st,
      cr_skipped_unreadable_count = cs_skipped_unreadable_count st,
      cr_file_limit_reached = cs_file_limit_reached st\<rparr>"

section \<open>Files on disk\<close>

definition prune ::
  "(string \<Rightarrow> (string \<Rightarrow> bool) option) \<Rightarrow> host \<Rightarrow> string list \<Rightarrow> settings \<Rightarrow> native_path \<Rightarrow> bool" where
  "prune rx h roots s dir =
     (if \<not> use_filters s \<or> \<not> use_exclude_filters s then True
      else
        (let absolute = absolutize h dir in
         \<not> directory_excluded rx (to_clipboard_path_from_roots h roots (path_string absolute) None)
             (filter_rules s) (Some (lossy (path_string absolute)))))"

text \<open>One item of the walk; the flag says that the limit ended the whole copy.\<close>

definition collect_item ::
  "(string \<Rightarrow> (string \<Rightarrow> bool) option) \<Rightarrow> host \<Rightarrow> string list \<Rightarrow> settings \<Rightarrow> walk_item \<Rightarrow> copy_state \<Rightarrow>
   bool \<times> copy_state" where
  "collect_item rx h roots s item st =
     (case item of
        UnreadableDir _ \<Rightarrow>
          (False, st\<lparr>cs_skipped_unreadable_count := cs_skipped_unreadable_count st + 1\<rparr>)
      | File path \<Rightarrow>
          (let (stop, st1) = limit_hit s st in
           if stop then (True, st1)
           else
             (case admit rx h roots path s st1 of
                (None, st2) \<Rightarrow> (False, st2)
              | (Some relative, st2) \<Rightarrow>
                  (case metadata h path of
                     Inl _ \<Rightarrow>
                       (False, st2\<lparr>cs_skipped_unreadable_count := cs_skipped_unreadable_count st2 + 1\<rparr>)
                   | Inr meta \<Rightarrow>
                       (False, push_file relative (node_len meta) s
                         (case read_text_file h path of Inr (Some t) \<Rightarrow> Text t | _ \<Rightarrow> Unreadable) st2)))))"

fun collect_items ::
  "(string \<Rightarrow> (string \<Rightarrow> bool) option) \<Rightarrow> host \<Rightarrow> string list \<Rightarrow> settings \<Rightarrow> walk_item list \<Rightarrow>
   copy_state \<Rightarrow> bool \<times> copy_state" where
  "collect_items rx h roots s [] st = (False, st)"
| "collect_items rx h roots s (item # items) st =
     (case collect_item rx h roots s item st of
        (True, st') \<Rightarrow> (True, st')
      | (False, st') \<Rightarrow> collect_items rx h roots s items st')"

text \<open>The inputs one after the other; \<open>None\<close> when the fuel of a walk did not suffice.\<close>

fun collect_inputs ::
  "nat \<Rightarrow> (string \<Rightarrow> (string \<Rightarrow> bool) option) \<Rightarrow> host \<Rightarrow> string list \<Rightarrow> settings \<Rightarrow> native_path list \<Rightarrow>
   copy_state \<Rightarrow> copy_state option" where
  "collect_inputs fuel rx h roots s [] st = Some st"
| "collect_inputs fuel rx h roots s (input # inputs) st =
     (case list_files_recursive fuel h (absolutize h input) (prune rx h roots s) of
        None \<Rightarrow> None
      | Some items \<Rightarrow>
          (case collect_items rx h roots s items st of
             (True, st') \<Rightarrow> Some st'
           | (False, st') \<Rightarrow> collect_inputs fuel rx h roots s inputs st'))"

definition collect_copy_files ::
  "nat \<Rightarrow> (string \<Rightarrow> (string \<Rightarrow> bool) option) \<Rightarrow> host \<Rightarrow> string list \<Rightarrow> native_path list \<Rightarrow> settings \<Rightarrow>
   copy_result option" where
  "collect_copy_files fuel rx h roots inputs s =
     map_option (finish roots s) (collect_inputs fuel rx h roots s inputs copy_start)"

section \<open>Text in memory\<close>

fun collect_texts ::
  "(string \<Rightarrow> (string \<Rightarrow> bool) option) \<Rightarrow> host \<Rightarrow> string list \<Rightarrow> settings \<Rightarrow> copy_text_file list \<Rightarrow>
   copy_state \<Rightarrow> copy_state" where
  "collect_texts rx h roots s [] st = st"
| "collect_texts rx h roots s (f # fs) st =
     (let (stop, st1) = limit_hit s st in
      if stop then st1
      else
        (case admit rx h roots (absolutize h (ctf_absolute_path f)) s st1 of
           (None, st2) \<Rightarrow> collect_texts rx h roots s fs st2
         | (Some relative, st2) \<Rightarrow>
             collect_texts rx h roots s fs
               (push_file relative
                 (case ctf_size_bytes f of Some n \<Rightarrow> n | None \<Rightarrow> length (ctf_content f)) s
                 (Text (ctf_content f)) st2)))"

definition collect_copy_text_files ::
  "(string \<Rightarrow> (string \<Rightarrow> bool) option) \<Rightarrow> host \<Rightarrow> string list \<Rightarrow> copy_text_file list \<Rightarrow> settings \<Rightarrow> copy_result" where
  "collect_copy_text_files rx h roots input_files s =
     finish roots s (collect_texts rx h roots s input_files copy_start)"

section \<open>The collector's invariant\<close>

text \<open>
  The counters describe the list of files, the limit was never exceeded, and every file listed
  either has its text or says why it was left out.
\<close>

definition copy_inv :: "settings \<Rightarrow> copy_state \<Rightarrow> bool" where
  "copy_inv s st \<longleftrightarrow>
     cs_copied_file_count st = length (filter (\<lambda>f. file_content f \<noteq> None) (cs_files st)) \<and>
     cs_skipped_file_size_count st = length (filter (\<lambda>f. file_skipped_reason f \<noteq> None) (cs_files st)) \<and>
     length (cs_files st) = cs_copied_file_count st + cs_skipped_file_size_count st \<and>
     (set_max_file_count s \<longrightarrow> cs_copied_file_count st \<noteq> 0 \<longrightarrow>
        \<not> count_reaches (cs_copied_file_count st - 1) (file_count_limit s))"

lemma copy_inv_start: "copy_inv s copy_start"
  by (simp add: copy_inv_def copy_start_def)

lemma copy_inv_limit:
  assumes "copy_inv s st" and "limit_hit s st = (b, st')"
  shows "copy_inv s st'" and "\<not> b \<Longrightarrow> set_max_file_count s \<Longrightarrow>
    \<not> count_reaches (cs_copied_file_count st') (file_count_limit s)"
  using assms by (auto simp: limit_hit_def Let_def copy_inv_def split: if_splits)

lemma admit_same:
  "admit rx h roots p s st = (r, st') \<Longrightarrow>
   cs_files st' = cs_files st \<and> cs_copied_file_count st' = cs_copied_file_count st \<and>
   cs_skipped_file_size_count st' = cs_skipped_file_size_count st"
  by (auto simp: admit_def Let_def split: if_splits)

lemma copy_inv_push:
  assumes "copy_inv s st"
    and "set_max_file_count s \<Longrightarrow> \<not> count_reaches (cs_copied_file_count st) (file_count_limit s)"
  shows "copy_inv s (push_file p n s c st)"
  using assms by (cases c) (auto simp: copy_inv_def push_file_def empty_file_def)

lemma copy_inv_admit:
  assumes "copy_inv s st" and "admit rx h roots p s st = (r, st')" shows "copy_inv s st'"
proof -
  from admit_same [OF assms(2)] have "cs_files st' = cs_files st"
    "cs_copied_file_count st' = cs_copied_file_count st"
    "cs_skipped_file_size_count st' = cs_skipped_file_size_count st" by simp_all
  with assms(1) show ?thesis unfolding copy_inv_def by metis
qed

lemma copy_inv_texts: "copy_inv s st \<Longrightarrow> copy_inv s (collect_texts rx h roots s fs st)"
proof (induction rx h roots s fs st rule: collect_texts.induct)
  case (1 rx h roots s st)
  then show ?case by simp
next
  case (2 rx h roots s f fs st)
  obtain stop st1 where l: "limit_hit s st = (stop, st1)" by fastforce
  note i1 = copy_inv_limit [OF "2.prems" l]
  show ?case
  proof (cases stop)
    case True
    with l i1 show ?thesis by simp
  next
    case False
    obtain r st2 where a: "admit rx h roots (absolutize h (ctf_absolute_path f)) s st1 = (r, st2)" by fastforce
    note i2 = copy_inv_admit [OF i1(1) a]
    show ?thesis
    proof (cases r)
      case None
      with "2.IH"(1) [OF l [symmetric] refl _ a [symmetric] None i2] False l a show ?thesis by simp
    next
      case (Some relative)
      have "copy_inv s (push_file relative
          (case ctf_size_bytes f of Some n \<Rightarrow> n | None \<Rightarrow> length (ctf_content f)) s (Text (ctf_content f)) st2)"
        by (rule copy_inv_push [OF i2]) (use i1(2) False admit_same [OF a] in simp)
      with "2.IH"(2) [OF l [symmetric] refl _ a [symmetric] Some this] False l a Some show ?thesis by simp
    qed
  qed
qed

lemma copy_inv_unreadable [simp]:
  "copy_inv s (st\<lparr>cs_skipped_unreadable_count := m\<rparr>) = copy_inv s st"
  unfolding copy_inv_def by (cases st) simp

lemma copy_inv_item:
  assumes "copy_inv s st" and "collect_item rx h roots s item st = (b, st')"
  shows "copy_inv s st'"
proof (cases item)
  case (UnreadableDir d)
  with assms show ?thesis by (auto simp: collect_item_def)
next
  case (File path)
  obtain stop st1 where l: "limit_hit s st = (stop, st1)" by fastforce
  note i1 = copy_inv_limit [OF assms(1) l]
  show ?thesis
  proof (cases stop)
    case True
    with assms l i1 File show ?thesis by (simp add: collect_item_def)
  next
    case False
    obtain r st2 where a: "admit rx h roots path s st1 = (r, st2)" by fastforce
    note i2 = copy_inv_admit [OF i1(1) a]
    have push: "copy_inv s (push_file p n s c st2)" for p n c
      by (rule copy_inv_push [OF i2]) (use i1(2) False admit_same [OF a] in simp)
    have un: "copy_inv s (st2\<lparr>cs_skipped_unreadable_count := m\<rparr>)" for m
      using i2 by simp
    from assms(2) File l False a i2 push un show ?thesis
      by (auto simp: collect_item_def split: option.splits sum.splits)
  qed
qed

lemma copy_inv_items:
  "copy_inv s st \<Longrightarrow> collect_items rx h roots s items st = (b, st') \<Longrightarrow> copy_inv s st'"
proof (induction items arbitrary: st)
  case Nil
  then show ?case by simp
next
  case (Cons item items)
  obtain b1 st1 where c: "collect_item rx h roots s item st = (b1, st1)" by fastforce
  from Cons.IH [OF copy_inv_item [OF Cons.prems(1) c]] copy_inv_item [OF Cons.prems(1) c] Cons.prems(2) c
  show ?case by (cases b1) auto
qed

lemma copy_inv_inputs:
  "copy_inv s st \<Longrightarrow> collect_inputs fuel rx h roots s inputs st = Some st' \<Longrightarrow> copy_inv s st'"
proof (induction inputs arbitrary: st)
  case Nil
  then show ?case by simp
next
  case (Cons input inputs)
  then show ?case
    by (auto split: option.splits prod.splits bool.splits dest: copy_inv_items)
qed

definition counts_ok :: "settings \<Rightarrow> copy_result \<Rightarrow> bool" where
  "counts_ok s r \<longleftrightarrow>
     cr_copied_file_count r = length (filter (\<lambda>f. file_content f \<noteq> None) (cr_files r)) \<and>
     cr_skipped_file_size_count r = length (filter (\<lambda>f. file_skipped_reason f \<noteq> None) (cr_files r)) \<and>
     length (cr_files r) = cr_copied_file_count r + cr_skipped_file_size_count r \<and>
     (set_max_file_count s \<longrightarrow> cr_copied_file_count r \<noteq> 0 \<longrightarrow>
        \<not> count_reaches (cr_copied_file_count r - 1) (file_count_limit s))"

lemma counts_ok_finish: "counts_ok s (finish roots s st) = copy_inv s st"
  by (simp only: counts_ok_def copy_inv_def finish_def copy_result.simps)

section \<open>The properties\<close>

text \<open>
  A copy's numbers describe its files: every file listed has text or a reason and is counted
  as such, and the file limit was not yet reached when the last file was copied.
\<close>

theorem copy_counts:
  "counts_ok s (collect_copy_text_files rx h roots texts s) \<and>
   (case collect_copy_files fuel rx h roots inputs s of Some r \<Rightarrow> counts_ok s r | None \<Rightarrow> True)"
proof -
  have "counts_ok s (collect_copy_text_files rx h roots texts s)"
    by (simp add: collect_copy_text_files_def counts_ok_finish copy_inv_texts [OF copy_inv_start])
  moreover have "copy_inv s st" if "collect_inputs fuel rx h roots s inputs copy_start = Some st" for st
    using copy_inv_inputs [OF copy_inv_start that] .
  ultimately show ?thesis
    by (auto simp: collect_copy_files_def counts_ok_finish split: option.split)
qed

end
