(* ===== verification/Graph.thy ===== *)
theory Graph
  imports "HOL-Library.Word" Float64 Utf8
begin

text \<open>
  The layout of the commit graph (\<open>crates/core/src/graph.rs\<close>): commits in log order become rows
  with a node on a lane, rails that run from child to parent, links into merge parents, and a
  checkpoint from which the next page continues.  The loop of \<open>compute_graph_layout\<close> is
  \<open>layout_rows\<close>, one row is \<open>layout_row\<close>, and its blocks are the definitions before it.

  The two words of the module, the hash and the colour mask, have 32 bits.  Coordinates are
  rationals: exact arithmetic, as it is on \<open>f64\<close> for the default spacing (12, 1 and 10) while the
  values stay below \<open>2 ^ 52\<close>.  A \<open>HashMap\<close> is the function that looks a key up.
\<close>

unbundle bit_operations_syntax

section \<open>Data\<close>

record commit_summary =
  sha :: string
  parents :: "string list"
  author_name :: string
  author_email :: string
  author_date :: string
  subject :: string

record git_reference =
  ref_name :: string
  ref_sha :: string

definition COLOR_PALETTE :: "string list" where
  "COLOR_PALETTE =
     [''#63b0f4'', ''#73d13d'', ''#ff7a45'', ''#b37feb'', ''#f759ab'', ''#36cfc9'',
      ''#ffc53d'', ''#ff4d4f'', ''#597ef7'', ''#9254de'', ''#43e8d8'', ''#faad14'']"

definition MAX_SHA_LEN :: nat where "MAX_SHA_LEN = 128"

definition MAX_REF_NAME_LEN :: nat where "MAX_REF_NAME_LEN = 1024"

record point =
  pt_x :: rat
  pt_y :: rat

record graph_path =
  path_points :: "point list"
  path_color :: nat
  path_color_override :: "string option"
  path_highlighted :: bool
  path_rail_id :: nat

record graph_link =
  link_start :: point
  link_control :: point
  link_end :: point
  link_color :: nat
  link_color_override :: "string option"
  link_highlighted :: bool
  link_target_rail_id :: nat

datatype node_type = Normal | Head | Merge | ShallowRoot | Uncommitted

record graph_node =
  node_lane :: nat
  node_color_index :: nat
  node_color_override :: "string option"
  node_kind :: node_type
  node_is_head :: bool
  node_highlighted :: bool
  node_rail_id :: "nat option"

datatype continuation_kind =
  Resolved | UnresolvedPageBoundary | ShallowBoundary | FilteredGap | Terminated

record parent_edge =
  edge_parent_sha :: string
  edge_parent_index :: nat
  edge_from_lane :: nat
  edge_to_lane :: nat
  edge_to_row :: "nat option"
  edge_color_index :: nat
  edge_color_override :: "string option"
  edge_continuation :: continuation_kind
  edge_rail_id :: nat

record passing_lane =
  pass_lane :: nat
  pass_color_index :: nat
  pass_color_override :: "string option"
  pass_rail_id :: nat

datatype ref_kind = Head_Ref | Branch | RemoteBranch string string | Tag | Other_Ref

record ref_info =
  raw_name :: string
  display_name :: string
  kind :: ref_kind

record graph_row =
  row_sha :: string
  row_index :: nat
  global_row :: nat
  row_node :: graph_node
  passing_lanes :: "passing_lane list"
  parent_edges :: "parent_edge list"
  row_refs :: "ref_info list"
  max_lane :: nat

record frontier_rail =
  fr_next_sha :: string
  fr_lane :: nat
  fr_last_x :: rat
  fr_last_y :: rat
  fr_color_index :: nat
  fr_color_override :: "string option"
  fr_highlighted :: bool
  fr_rail_id :: nat

record graph_checkpoint =
  cp_frontier :: "frontier_rail list"
  cp_next_global_row :: nat
  cp_next_rail_id :: nat
  cp_used_colors_mask :: "32 word"
  cp_last_seen_sha :: "string option"

record graph_config =
  max_frontier_size :: nat
  max_rows :: nat
  max_refs :: nat
  max_total_bytes :: nat
  unit_x :: f64
  unit_y :: f64
  offset_x :: f64
  shallow_roots :: "string set"
  filtered_commits :: "string set"
  hold_root_lanes :: bool

definition default_config :: graph_config where
  "default_config =
     \<lparr>max_frontier_size = 64, max_rows = 10000, max_refs = 10000,
      max_total_bytes = 10 * 1024 * 1024,
      unit_x = Fin 12, unit_y = Fin 1, offset_x = Fin 10,
      shallow_roots = {}, filtered_commits = {}, hold_root_lanes = False\<rparr>"

datatype graph_error =
    InvalidConfig string
  | FrontierLimitExceeded nat nat
  | RowLimitExceeded nat nat
  | RefLimitExceeded nat nat
  | ByteLimitExceeded nat nat
  | InvalidInput string
  | DuplicateCommit string nat
  | ContinuityError string

record graph_layout =
  lay_rows :: "graph_row list"
  lay_paths :: "graph_path list"
  lay_links :: "graph_link list"
  commit_left_margin :: "rat list"
  lay_checkpoint :: "graph_checkpoint option"
  is_fallback :: bool

section \<open>Colours and references\<close>

definition hash_string_to_index :: "string \<Rightarrow> nat" where
  "hash_string_to_index name =
     nat (uint (foldl (\<lambda>h u. h * 31 + of_nat u) (0 :: 32 word) (encode_utf16 name)) mod
       int (length COLOR_PALETTE))"

definition mask_free :: "32 word \<Rightarrow> nat \<Rightarrow> bool" where
  "mask_free used_mask i \<longleftrightarrow> used_mask AND push_bit i 1 = 0"

definition pick_color :: "32 word \<Rightarrow> nat option \<Rightarrow> nat" where
  "pick_color used_mask preferred =
     (let first_free =
        (case find (mask_free used_mask) [0..<length COLOR_PALETTE] of Some i \<Rightarrow> i | None \<Rightarrow> 0) in
      case preferred of
        Some pref \<Rightarrow>
          if pref < length COLOR_PALETTE \<and> mask_free used_mask pref then pref else first_free
      | None \<Rightarrow> first_free)"

definition parse_ref_name :: "string \<Rightarrow> ref_info" where
  "parse_ref_name name =
     (if name = ''HEAD'' \<or> name = ''refs/heads/HEAD''
      then \<lparr>raw_name = name, display_name = ''HEAD'', kind = Head_Ref\<rparr>
      else case strip_prefix ''refs/heads/'' name of
        Some branch \<Rightarrow> \<lparr>raw_name = name, display_name = branch, kind = Branch\<rparr>
      | None \<Rightarrow>
          (case strip_prefix ''refs/remotes/'' name of
             Some remote_ref \<Rightarrow>
               (case split_once (CHR ''/'') remote_ref of
                  Some (remote, branch) \<Rightarrow>
                    \<lparr>raw_name = name, display_name = remote_ref, kind = RemoteBranch remote branch\<rparr>
                | None \<Rightarrow> \<lparr>raw_name = name, display_name = remote_ref, kind = Other_Ref\<rparr>)
           | None \<Rightarrow>
               (case strip_prefix ''refs/tags/'' name of
                  Some tag \<Rightarrow> \<lparr>raw_name = name, display_name = tag, kind = Tag\<rparr>
                | None \<Rightarrow> \<lparr>raw_name = name, display_name = name, kind = Other_Ref\<rparr>)))"

type_synonym ref_index = "string \<Rightarrow> ref_info list option"

text \<open>\<open>refs_by_commit\<close>: the references of a commit in their order, or no entry.\<close>

definition refs_by_commit :: "git_reference list \<Rightarrow> ref_index" where
  "refs_by_commit refs s =
     (case filter (\<lambda>r. ref_sha r = s) refs of
        [] \<Rightarrow> None
      | rs \<Rightarrow> Some (map (\<lambda>r. parse_ref_name (ref_name r)) rs))"

text \<open>\<open>hash_index\<close>: the row of a commit on the page, the last one if it is repeated.\<close>

definition hash_index :: "commit_summary list \<Rightarrow> string \<Rightarrow> nat option" where
  "hash_index commits = foldl (\<lambda>m (i, c). m(sha c \<mapsto> i)) Map.empty (enumerate 0 commits)"

fun is_remote :: "ref_kind \<Rightarrow> bool" where
  "is_remote (RemoteBranch _ _) = True"
| "is_remote _ = False"

definition find_naming_ref :: "string \<Rightarrow> ref_index \<Rightarrow> ref_info option" where
  "find_naming_ref commit_sha index =
     (case index commit_sha of
        None \<Rightarrow> None
      | Some refs \<Rightarrow>
          (case find (\<lambda>r. kind r = Head_Ref) refs of
             Some r \<Rightarrow> Some r
           | None \<Rightarrow>
               (case find (\<lambda>r. kind r = Branch) refs of
                  Some r \<Rightarrow> Some r
                | None \<Rightarrow> find (\<lambda>r. is_remote (kind r)) refs)))"

definition preferred_index_for_commit :: "string \<Rightarrow> ref_index \<Rightarrow> nat option" where
  "preferred_index_for_commit commit_sha index =
     map_option (\<lambda>r. hash_string_to_index (display_name r)) (find_naming_ref commit_sha index)"

definition carries_head :: "ref_index \<Rightarrow> string \<Rightarrow> bool" where
  "carries_head index s =
     (case index s of None \<Rightarrow> False | Some rs \<Rightarrow> list_ex (\<lambda>r. kind r = Head_Ref) rs)"

section \<open>Checking the input\<close>

definition validate_config :: "graph_config \<Rightarrow> graph_error + unit" where
  "validate_config config =
     (if max_frontier_size config = 0
      then Inl (InvalidConfig ''max_frontier_size must be greater than 0'')
      else if max_rows config = 0 then Inl (InvalidConfig ''max_rows must be greater than 0'')
      else if max_refs config = 0 then Inl (InvalidConfig ''max_refs must be greater than 0'')
      else if max_total_bytes config = 0
      then Inl (InvalidConfig ''max_total_bytes must be greater than 0'')
      else if \<not> f64_is_finite (unit_x config) \<or> f64_value (unit_x config) \<le> 0
      then Inl (InvalidConfig ''unit_x must be positive and finite'')
      else if \<not> f64_is_finite (unit_y config) \<or> f64_value (unit_y config) \<le> 0
      then Inl (InvalidConfig ''unit_y must be positive and finite'')
      else if \<not> f64_is_finite (offset_x config) \<or> f64_value (offset_x config) < 0
      then Inl (InvalidConfig ''offset_x must be non-negative and finite'')
      else Inr ())"

definition bad_sha :: "string \<Rightarrow> bool" where
  "bad_sha s \<longleftrightarrow> s = [] \<or> MAX_SHA_LEN < length s"

fun count_parents :: "string \<Rightarrow> nat \<Rightarrow> string list \<Rightarrow> nat \<Rightarrow> graph_error + nat" where
  "count_parents s i [] tot = Inr tot"
| "count_parents s i (p # ps) tot =
     (if bad_sha p
      then Inl (InvalidInput (''parent SHA '' @ show_nat i @ '' for commit '' @ s @
        '' is empty or exceeds 128 bytes''))
      else count_parents s (Suc i) ps (sat_add tot (length p)))"

fun count_commits :: "nat \<Rightarrow> commit_summary list \<Rightarrow> nat \<Rightarrow> graph_error + nat" where
  "count_commits row [] tot = Inr tot"
| "count_commits row (c # cs) tot =
     (if bad_sha (sha c)
      then Inl (InvalidInput (''commit SHA at row '' @ show_nat row @
        '' is empty or exceeds 128 bytes''))
      else and_then
        (count_parents (sha c) 0 (parents c)
          (sat_add (sat_add (sat_add (sat_add (sat_add tot
            (length (sha c))) (length (author_name c))) (length (author_email c)))
            (length (author_date c))) (length (subject c))))
        (\<lambda>tot. count_commits (Suc row) cs tot))"

fun count_refs :: "nat \<Rightarrow> git_reference list \<Rightarrow> nat \<Rightarrow> graph_error + nat" where
  "count_refs i [] tot = Inr tot"
| "count_refs i (r # rs) tot =
     (if bad_sha (ref_sha r)
      then Inl (InvalidInput (''ref SHA at index '' @ show_nat i @ '' is empty or exceeds 128 bytes''))
      else if ref_name r = [] \<or> MAX_REF_NAME_LEN < length (ref_name r)
      then Inl (InvalidInput (''ref name at index '' @ show_nat i @
        '' is empty or exceeds 1024 bytes''))
      else count_refs (Suc i) rs (sat_add (sat_add tot (length (ref_sha r))) (length (ref_name r))))"

fun count_frontier :: "frontier_rail list \<Rightarrow> nat \<Rightarrow> graph_error + nat" where
  "count_frontier [] tot = Inr tot"
| "count_frontier (rail # rails) tot =
     (if bad_sha (fr_next_sha rail)
      then Inl (InvalidInput ''frontier rail next_sha is empty or exceeds 128 bytes'')
      else (let tot = sat_add tot (length (fr_next_sha rail)) in
        count_frontier rails
          (case fr_color_override rail of None \<Rightarrow> tot | Some co \<Rightarrow> sat_add tot (length co))))"

definition count_checkpoint :: "graph_checkpoint option \<Rightarrow> nat \<Rightarrow> graph_error + nat" where
  "count_checkpoint checkpoint tot =
     (case checkpoint of
        None \<Rightarrow> Inr tot
      | Some cp \<Rightarrow> and_then (count_frontier (cp_frontier cp) tot) (\<lambda>tot.
          case cp_last_seen_sha cp of
            None \<Rightarrow> Inr tot
          | Some last_sha \<Rightarrow>
              if bad_sha last_sha
              then Inl (InvalidInput ''checkpoint last_seen_sha is empty or exceeds 128 bytes'')
              else Inr (sat_add tot (length last_sha))))"

definition validate_input_bounds ::
  "commit_summary list \<Rightarrow> git_reference list \<Rightarrow> graph_config \<Rightarrow> graph_checkpoint option \<Rightarrow>
   graph_error + unit" where
  "validate_input_bounds commits refs config checkpoint =
     (if max_rows config < length commits
      then Inl (RowLimitExceeded (length commits) (max_rows config))
      else if max_refs config < length refs
      then Inl (RefLimitExceeded (length refs) (max_refs config))
      else and_then (count_commits 0 commits 0) (\<lambda>tot.
        and_then (count_refs 0 refs tot) (\<lambda>tot.
        and_then (count_checkpoint checkpoint tot) (\<lambda>tot.
          if max_total_bytes config < tot
          then Inl (ByteLimitExceeded tot (max_total_bytes config))
          else Inr ()))))"

section \<open>Rails\<close>

text \<open>\<open>PathHelper\<close>: a rail on its way down to the commit it waits for.\<close>

record path_helper =
  held :: bool
  ph_next :: string
  ph_color :: nat
  ph_color_override :: "string option"
  ph_highlighted :: bool
  ph_rail_id :: nat
  ph_points :: "point list"
  last_x :: rat
  last_y :: rat
  end_y :: rat

definition usize_max :: nat where "usize_max = 2 ^ 64 - 1"

definition new_start :: "string \<Rightarrow> nat \<Rightarrow> point \<Rightarrow> nat \<Rightarrow> path_helper" where
  "new_start nxt color start rid =
     \<lparr>held = False, ph_next = nxt, ph_color = color, ph_color_override = None,
      ph_highlighted = False, ph_rail_id = rid, ph_points = [start],
      last_x = pt_x start, last_y = pt_y start, end_y = pt_y start\<rparr>"

definition new_merge :: "string \<Rightarrow> nat \<Rightarrow> point \<Rightarrow> point \<Rightarrow> nat \<Rightarrow> path_helper" where
  "new_merge nxt color start to rid =
     \<lparr>held = False, ph_next = nxt, ph_color = color, ph_color_override = None,
      ph_highlighted = False, ph_rail_id = rid, ph_points = [start, to],
      last_x = pt_x to, last_y = pt_y to, end_y = pt_y to\<rparr>"

definition held_lane :: "rat \<Rightarrow> rat \<Rightarrow> path_helper" where
  "held_lane x y =
     \<lparr>held = True, ph_next = [], ph_color = usize_max, ph_color_override = None,
      ph_highlighted = False, ph_rail_id = usize_max, ph_points = [],
      last_x = x, last_y = y, end_y = y\<rparr>"

definition add_point :: "rat \<Rightarrow> rat \<Rightarrow> path_helper \<Rightarrow> path_helper" where
  "add_point x y self =
     (if end_y self < y
      then self\<lparr>ph_points := ph_points self @ [\<lparr>pt_x = x, pt_y = y\<rparr>], end_y := y\<rparr>
      else self)"

definition from_frontier :: "rat \<Rightarrow> frontier_rail \<Rightarrow> path_helper" where
  "from_frontier page_top rail =
     (let helper =
        \<lparr>held = False, ph_next = fr_next_sha rail, ph_color = fr_color_index rail,
         ph_color_override = fr_color_override rail, ph_highlighted = fr_highlighted rail,
         ph_rail_id = fr_rail_id rail,
         ph_points = [\<lparr>pt_x = fr_last_x rail, pt_y = fr_last_y rail\<rparr>],
         last_x = fr_last_x rail, last_y = fr_last_y rail, end_y = fr_last_y rail\<rparr>;
          helper = add_point (fr_last_x rail) page_top helper in
      helper\<lparr>last_y := max (last_y helper) page_top\<rparr>)"

definition at_point :: "rat \<Rightarrow> rat \<Rightarrow> path_helper \<Rightarrow> path_helper" where
  "at_point x y self = self\<lparr>last_x := x, last_y := y\<rparr>"

definition pass_row :: "rat \<Rightarrow> rat \<Rightarrow> rat \<Rightarrow> path_helper \<Rightarrow> path_helper" where
  "pass_row x y half_h self =
     at_point x y
       (if last_x self < x
        then add_point x (y - half_h) (add_point (last_x self) (last_y self) self)
        else if x < last_x self
        then add_point x (y + half_h) (add_point (last_x self) (y - half_h) self)
        else self)"

definition goto_row :: "rat \<Rightarrow> rat \<Rightarrow> rat \<Rightarrow> path_helper \<Rightarrow> path_helper" where
  "goto_row x y half_h self =
     at_point x y
       (if last_x self < x
        then add_point x (y - half_h) (add_point (last_x self) (last_y self) self)
        else if x < last_x self
        then
          (let min_y = y - half_h;
               min_y = (if last_y self < min_y then min_y - half_h else min_y) in
           add_point x y (add_point (last_x self) min_y self))
        else self)"

definition end_row :: "rat \<Rightarrow> rat \<Rightarrow> rat \<Rightarrow> path_helper \<Rightarrow> path_helper" where
  "end_row x y half_h self =
     at_point x y (add_point x y
       (if last_x self < x
        then add_point x (y - half_h) (add_point (last_x self) (last_y self) self)
        else if x < last_x self
        then add_point (last_x self) (y - half_h) self
        else self))"

definition to_graph_path :: "path_helper \<Rightarrow> graph_path" where
  "to_graph_path self =
     \<lparr>path_points = ph_points self, path_color = ph_color self,
      path_color_override = ph_color_override self, path_highlighted = ph_highlighted self,
      path_rail_id = ph_rail_id self\<rparr>"

text \<open>
  \<open>GraphPath::clip_y\<close>: the binary search is on points in the order of \<open>y\<close>, where the partition
  point is the number of points at the top.
\<close>

fun clip_windows :: "rat \<Rightarrow> rat \<Rightarrow> point list \<Rightarrow> point list \<Rightarrow> point list" where
  "clip_windows y0 y1 (a # b # ps) out =
     (if y1 \<le> pt_y a then out
      else if pt_y b \<le> y0 then clip_windows y0 y1 (b # ps) out
      else
        (let cut = (\<lambda>y. \<lparr>pt_x = pt_x a + (pt_x b - pt_x a) * (y - pt_y a) / (pt_y b - pt_y a), pt_y = y\<rparr>);
             start = (if pt_y a < y0 then cut y0 else a);
             stop = (if y1 < pt_y b then cut y1 else b);
             out = (if out \<noteq> [] \<and> last out = start then out else out @ [start]) in
         clip_windows y0 y1 (b # ps) (out @ [stop])))"
| "clip_windows y0 y1 ps out = out"

definition clip_y :: "graph_path \<Rightarrow> rat \<Rightarrow> rat \<Rightarrow> point list" where
  "clip_y self y0 y1 =
     (let pts = path_points self;
          first = length (takeWhile (\<lambda>p. pt_y p \<le> y0) pts) - 1 in
      clip_windows y0 y1 (drop (min first (length pts)) pts) [])"

section \<open>One row\<close>

text \<open>What the loop reads and does not change.\<close>

record layout_env =
  env_config :: graph_config
  env_refs :: ref_index
  env_hash_index :: "string \<Rightarrow> nat option"
  env_head :: "string option"
  env_has_head_reference :: bool
  env_row_offset :: nat

definition env_unit_w :: "layout_env \<Rightarrow> rat" where
  "env_unit_w env = f64_value (unit_x (env_config env))"

definition env_half_w :: "layout_env \<Rightarrow> rat" where
  "env_half_w env = env_unit_w env / 2"

definition env_unit_h :: "layout_env \<Rightarrow> rat" where
  "env_unit_h env = f64_value (unit_y (env_config env))"

definition env_half_h :: "layout_env \<Rightarrow> rat" where
  "env_half_h env = env_unit_h env / 2"

definition env_offset_x :: "layout_env \<Rightarrow> rat" where
  "env_offset_x env = f64_value (offset_x (env_config env))"

text \<open>\<open>((x - config.offset_x) / unit_w).round().max(0.0) as usize\<close>\<close>

definition lane_of :: "layout_env \<Rightarrow> rat \<Rightarrow> nat" where
  "lane_of env x = nat (round ((x - env_offset_x env) / env_unit_w env))"

definition is_head_commit :: "layout_env \<Rightarrow> commit_summary \<Rightarrow> bool" where
  "is_head_commit env commit =
     (case env_head env of
        None \<Rightarrow> carries_head (env_refs env) (sha commit)
      | Some h \<Rightarrow> sha commit = h)"

definition first_parent_of :: "layout_env \<Rightarrow> commit_summary \<Rightarrow> string option" where
  "first_parent_of env commit =
     (case parents commit of
        [] \<Rightarrow> None
      | p # _ \<Rightarrow> if p \<in> filtered_commits (env_config env) then None else Some p)"

text \<open>The rail that carries the node: its index, \<open>x\<close>, id and colour.\<close>

record major_rail =
  major_idx :: nat
  major_x :: rat
  major_rail_id :: nat
  major_color :: nat

record row_scan =
  scan_offset_x :: rat
  scan_major :: "major_rail option"
  scan_passing :: "passing_lane list"
  scan_incoming_highlighted :: bool

text \<open>The loop over the open rails: the first one that waits for the commit carries it.\<close>

definition advance_rail ::
  "layout_env \<Rightarrow> commit_summary \<Rightarrow> rat \<Rightarrow> nat \<Rightarrow> path_helper \<Rightarrow> row_scan \<Rightarrow> path_helper \<times> row_scan" where
  "advance_rail env commit y i rail scan =
     (if held rail
      then (rail, scan\<lparr>scan_offset_x := max (scan_offset_x scan + env_unit_w env) (last_x rail)\<rparr>)
      else if ph_next rail = sha commit
      then
        (case scan_major scan of
           None \<Rightarrow>
             (let x = scan_offset_x scan + env_unit_w env;
                  lit = (ph_highlighted rail \<or> is_head_commit env commit);
                  rail' = (if lit then rail\<lparr>ph_highlighted := True\<rparr> else rail) in
              (case first_parent_of env commit of
                 Some parent \<Rightarrow> goto_row x y (env_half_h env) (rail'\<lparr>ph_next := parent\<rparr>)
               | None \<Rightarrow> end_row x y (env_half_h env) rail',
               scan\<lparr>scan_offset_x := x,
                 scan_major := Some \<lparr>major_idx = i, major_x = x, major_rail_id = ph_rail_id rail,
                   major_color = ph_color rail\<rparr>,
                 scan_incoming_highlighted := scan_incoming_highlighted scan \<or> lit\<rparr>))
         | Some m \<Rightarrow> (end_row (major_x m) y (env_half_h env) rail, scan))
      else
        (let x = scan_offset_x scan + env_unit_w env in
         (pass_row x y (env_half_h env) rail,
          scan\<lparr>scan_offset_x := x,
            scan_passing := scan_passing scan @
              [\<lparr>pass_lane = lane_of env x, pass_color_index = ph_color rail,
                pass_color_override = ph_color_override rail, pass_rail_id = ph_rail_id rail\<rparr>]\<rparr>)))"

fun advance_rails ::
  "layout_env \<Rightarrow> commit_summary \<Rightarrow> rat \<Rightarrow> nat \<Rightarrow> path_helper list \<Rightarrow> row_scan \<Rightarrow>
   path_helper list \<times> row_scan" where
  "advance_rails env commit y i [] scan = ([], scan)"
| "advance_rails env commit y i (rail # rails) scan =
     (let (rail', scan') = advance_rail env commit y i rail scan;
          (rails', scan'') = advance_rails env commit y (Suc i) rails scan' in
      (rail' # rails', scan''))"

text \<open>Separating the ended rails; a held lane lasts one row.  Answers (remaining, ended).\<close>

fun separate_rails ::
  "layout_env \<Rightarrow> commit_summary \<Rightarrow> nat option \<Rightarrow> nat \<Rightarrow> path_helper list \<Rightarrow>
   path_helper list \<times> path_helper list" where
  "separate_rails env commit major i [] = ([], [])"
| "separate_rails env commit major i (rail # rails) =
     (let (remaining, ended) = separate_rails env commit major (Suc i) rails in
      if held rail then (remaining, ended)
      else if major = Some i then
        (if first_parent_of env commit = None
         then ((if hold_root_lanes (env_config env)
                then held_lane (last_x rail) (last_y rail) # remaining else remaining),
               rail # ended)
         else (rail # remaining, ended))
      else if ph_next rail = sha commit then (remaining, rail # ended)
      else (rail # remaining, ended))"

definition separate_ended ::
  "layout_env \<Rightarrow> commit_summary \<Rightarrow> nat option \<Rightarrow> path_helper list \<Rightarrow>
   path_helper list \<times> path_helper list" where
  "separate_ended env commit major unsolved =
     (if major \<noteq> None \<or> list_ex held unsolved
      then separate_rails env commit major 0 unsolved else (unsolved, []))"

text \<open>The mask of the colours in use; \<open>1 << color\<close> only below 32.\<close>

definition color_mask :: "path_helper list \<Rightarrow> 32 word" where
  "color_mask rails =
     foldl (\<lambda>mask r. if ph_color r < 32 then mask OR push_bit (ph_color r) 1 else mask) 0 rails"

text \<open>The rails, the finished paths and the rows so far.\<close>

record layout_state =
  ls_unsolved :: "path_helper list"
  ls_ended :: "path_helper list"
  ls_links :: "graph_link list"
  ls_rows :: "graph_row list"
  ls_margins :: "rat list"
  ls_next_rail_id :: nat

text \<open>The node's \<open>x\<close>, its rail's id and colour, if it has one, and the \<open>x\<close> reached by the row.\<close>

record row_node_place =
  place_x :: rat
  place_rail :: "(nat \<times> nat) option"
  place_offset_x :: rat
  place_unsolved :: "path_helper list"
  place_next_rail_id :: nat

text \<open>A commit no rail waits for starts a rail of its own.\<close>

definition start_branch ::
  "layout_env \<Rightarrow> commit_summary \<Rightarrow> rat \<Rightarrow> bool \<Rightarrow> rat option \<Rightarrow> rat \<Rightarrow> path_helper list \<Rightarrow> nat \<Rightarrow>
   graph_error + row_node_place" where
  "start_branch env commit y highlighted prev_last_x x0 unsolved next_rail_id =
     (let config = env_config env;
          x1 =
            (if hold_root_lanes config then
               (if unsolved = [] then env_offset_x env - env_unit_w env
                else case prev_last_x of Some l \<Rightarrow> max x0 l | None \<Rightarrow> x0)
             else x0);
          x = x1 + env_unit_w env in
      case first_parent_of env commit of
        None \<Rightarrow> Inr \<lparr>place_x = x, place_rail = None, place_offset_x = x,
          place_unsolved = unsolved, place_next_rail_id = next_rail_id\<rparr>
      | Some parent \<Rightarrow>
          if max_frontier_size config \<le> length unsolved
          then Inl (FrontierLimitExceeded (length unsolved + 1) (max_frontier_size config))
          else
            (let color = pick_color (color_mask unsolved)
                   (preferred_index_for_commit (sha commit) (env_refs env));
                 rail = (new_start parent color \<lparr>pt_x = x, pt_y = y\<rparr> next_rail_id)
                   \<lparr>ph_highlighted := highlighted\<rparr> in
             Inr \<lparr>place_x = x, place_rail = Some (ph_rail_id rail, color), place_offset_x = x,
               place_unsolved = unsolved @ [rail], place_next_rail_id = next_rail_id + 1\<rparr>))"

text \<open>The loop over the further parents.\<close>

record merge_scan =
  ms_offset_x :: rat
  ms_unsolved :: "path_helper list"
  ms_links :: "graph_link list"
  ms_next_rail_id :: nat
  ms_info :: "(nat \<times> nat \<times> nat) list"

definition merge_parent ::
  "layout_env \<Rightarrow> point \<Rightarrow> bool \<Rightarrow> (nat \<times> nat \<times> nat) \<Rightarrow> string \<Rightarrow> merge_scan \<Rightarrow> graph_error + merge_scan" where
  "merge_parent env node_pos highlighted own parent_sha scan =
     (let config = env_config env; unsolved = ms_unsolved scan in
      if parent_sha \<in> filtered_commits config
      then Inr (scan\<lparr>ms_info := ms_info scan @ [own]\<rparr>)
      else case find (\<lambda>r. ph_next r = parent_sha) unsolved of
        Some target_rail \<Rightarrow>
          Inr (scan\<lparr>
            ms_links := ms_links scan @
              [\<lparr>link_start = node_pos,
                link_control = \<lparr>pt_x = last_x target_rail, pt_y = pt_y node_pos\<rparr>,
                link_end = \<lparr>pt_x = last_x target_rail, pt_y = pt_y node_pos + env_half_h env\<rparr>,
                link_color = ph_color target_rail,
                link_color_override = ph_color_override target_rail,
                link_highlighted = highlighted,
                link_target_rail_id = ph_rail_id target_rail\<rparr>],
            ms_info := ms_info scan @
              [(ph_rail_id target_rail, lane_of env (last_x target_rail), ph_color target_rail)]\<rparr>)
      | None \<Rightarrow>
          (let x = ms_offset_x scan + env_unit_w env in
           if max_frontier_size config \<le> length unsolved
           then Inl (FrontierLimitExceeded (length unsolved + 1) (max_frontier_size config))
           else
             (let color = pick_color (color_mask unsolved)
                    (preferred_index_for_commit parent_sha (env_refs env));
                  rail = (new_merge parent_sha color node_pos
                    \<lparr>pt_x = x, pt_y = pt_y node_pos + env_half_h env\<rparr> (ms_next_rail_id scan))
                    \<lparr>ph_highlighted := highlighted\<rparr> in
              Inr (scan\<lparr>ms_offset_x := x, ms_unsolved := unsolved @ [rail],
                ms_next_rail_id := ms_next_rail_id scan + 1,
                ms_info := ms_info scan @ [(ph_rail_id rail, lane_of env x, color)]\<rparr>))))"

fun merge_parents ::
  "layout_env \<Rightarrow> point \<Rightarrow> bool \<Rightarrow> (nat \<times> nat \<times> nat) \<Rightarrow> string list \<Rightarrow> merge_scan \<Rightarrow>
   graph_error + merge_scan" where
  "merge_parents env node_pos highlighted own [] scan = Inr scan"
| "merge_parents env node_pos highlighted own (p # ps) scan =
     and_then (merge_parent env node_pos highlighted own p scan)
       (merge_parents env node_pos highlighted own ps)"

definition node_type_of :: "graph_config \<Rightarrow> bool \<Rightarrow> commit_summary \<Rightarrow> node_type" where
  "node_type_of config is_head commit =
     (if sha commit = ''UNCOMMITTED'' then Uncommitted
      else if sha commit \<in> shallow_roots config then ShallowRoot
      else if 1 < length (parents commit) then Merge
      else if is_head then Head
      else Normal)"

definition continuation_of ::
  "(string \<Rightarrow> nat option) \<Rightarrow> graph_config \<Rightarrow> string \<Rightarrow> continuation_kind \<times> nat option" where
  "continuation_of index config p =
     (case index p of
        Some row \<Rightarrow> (Resolved, Some row)
      | None \<Rightarrow>
          if p \<in> filtered_commits config then (FilteredGap, None) else (UnresolvedPageBoundary, None))"

text \<open>The boundary edge of a shallow root without parents.\<close>

definition shallow_edge :: "nat \<Rightarrow> nat \<Rightarrow> nat \<Rightarrow> parent_edge" where
  "shallow_edge lane color rid =
     \<lparr>edge_parent_sha = [], edge_parent_index = 0, edge_from_lane = lane, edge_to_lane = lane,
      edge_to_row = None, edge_color_index = color, edge_color_override = None,
      edge_continuation = ShallowBoundary, edge_rail_id = rid\<rparr>"

text \<open>The edge to the parent of an index; \<open>own\<close> is the node's rail id, lane and colour.\<close>

definition parent_edge_of ::
  "layout_env \<Rightarrow> (nat \<times> nat \<times> nat) \<Rightarrow> (nat \<times> nat \<times> nat) list \<Rightarrow> nat \<times> string \<Rightarrow> parent_edge" where
  "parent_edge_of env own info ip =
     (case ip of (i, p) \<Rightarrow>
        (let (rid, lane, color) =
               (if i = 0 then own else if i - 1 < length info then info ! (i - 1) else own);
             (continuation, to_row) = continuation_of (env_hash_index env) (env_config env) p in
         \<lparr>edge_parent_sha = p, edge_parent_index = i, edge_from_lane = fst (snd own),
          edge_to_lane = lane, edge_to_row = to_row, edge_color_index = color,
          edge_color_override = None, edge_continuation = continuation, edge_rail_id = rid\<rparr>))"

definition parent_edges_of ::
  "layout_env \<Rightarrow> commit_summary \<Rightarrow> (nat \<times> nat \<times> nat) \<Rightarrow> (nat \<times> nat \<times> nat) list \<Rightarrow> parent_edge list" where
  "parent_edges_of env commit own info =
     (if sha commit \<in> shallow_roots (env_config env) \<and> parents commit = []
      then [shallow_edge (fst (snd own)) (snd (snd own)) (fst own)]
      else map (parent_edge_of env own info) (enumerate 0 (parents commit)))"

text \<open>The node's place: on the rail that waited for it, or on a new branch.\<close>

definition place_node ::
  "layout_env \<Rightarrow> commit_summary \<Rightarrow> rat \<Rightarrow> bool \<Rightarrow> rat option \<Rightarrow> row_scan \<Rightarrow> path_helper list \<Rightarrow> nat \<Rightarrow>
   graph_error + row_node_place" where
  "place_node env commit y highlighted prev_last_x scan unsolved next_rail_id =
     (case scan_major scan of
        Some m \<Rightarrow> Inr \<lparr>place_x = major_x m, place_rail = Some (major_rail_id m, major_color m),
          place_offset_x = scan_offset_x scan, place_unsolved = unsolved,
          place_next_rail_id = next_rail_id\<rparr>
      | None \<Rightarrow> start_branch env commit y highlighted prev_last_x (scan_offset_x scan) unsolved
          next_rail_id)"

definition row_y :: "layout_env \<Rightarrow> nat \<Rightarrow> rat" where
  "row_y env row_idx = of_nat (env_row_offset env + row_idx) * env_unit_h env + env_half_h env"

definition start_scan :: "layout_env \<Rightarrow> row_scan" where
  "start_scan env =
     \<lparr>scan_offset_x = env_offset_x env - env_unit_w env, scan_major = None, scan_passing = [],
      scan_incoming_highlighted = False\<rparr>"

definition node_highlight :: "layout_env \<Rightarrow> commit_summary \<Rightarrow> row_scan \<Rightarrow> bool" where
  "node_highlight env commit scan =
     (if env_has_head_reference env
      then is_head_commit env commit \<or> scan_incoming_highlighted scan \<or>
        (sha commit = ''UNCOMMITTED'' \<and> is_head_commit env commit)
      else True)"

text \<open>The row once the rails are placed and the further parents are connected.\<close>

definition finish_row ::
  "layout_env \<Rightarrow> nat \<Rightarrow> commit_summary \<Rightarrow> row_scan \<Rightarrow> bool \<Rightarrow> row_node_place \<Rightarrow>
   (nat \<times> nat \<times> nat) \<Rightarrow> (nat \<times> nat \<times> nat) list \<Rightarrow> rat \<Rightarrow> graph_row" where
  "finish_row env row_idx commit scan highlighted place own info left_margin =
     \<lparr>row_sha = sha commit, row_index = row_idx, global_row = env_row_offset env + row_idx,
      row_node =
        \<lparr>node_lane = fst (snd own), node_color_index = snd (snd own), node_color_override = None,
         node_kind = node_type_of (env_config env) (is_head_commit env commit) commit,
         node_is_head = is_head_commit env commit, node_highlighted = highlighted,
         node_rail_id = map_option fst (place_rail place)\<rparr>,
      passing_lanes = scan_passing scan,
      parent_edges = parent_edges_of env commit own info,
      row_refs = (case env_refs env (sha commit) of None \<Rightarrow> [] | Some rs \<Rightarrow> rs),
      max_lane = nat \<lceil>(left_margin - env_offset_x env) / env_unit_w env\<rceil>\<rparr>"

definition layout_row ::
  "layout_env \<Rightarrow> nat \<Rightarrow> commit_summary \<Rightarrow> layout_state \<Rightarrow> graph_error + layout_state" where
  "layout_row env row_idx commit st =
     (let y = row_y env row_idx;
          unsolved = ls_unsolved st;
          prev_last_x = (if unsolved \<noteq> [] \<and> hold_root_lanes (env_config env)
            then Some (last_x (last unsolved)) else None);
          max_offset_old = (if unsolved = [] then env_offset_x env else last_x (last unsolved));
          (rails, scan) = advance_rails env commit y 0 unsolved (start_scan env);
          (remaining, ended) =
            separate_ended env commit (map_option major_idx (scan_major scan)) rails;
          highlighted = node_highlight env commit scan in
      and_then
        (place_node env commit y highlighted prev_last_x scan remaining (ls_next_rail_id st))
        (\<lambda>place.
          let lane = lane_of env (place_x place);
              rid = (case place_rail place of Some (rid, _) \<Rightarrow> rid | None \<Rightarrow> 0);
              color = (case place_rail place of
                  Some (_, c) \<Rightarrow> c
                | None \<Rightarrow>
                    (case preferred_index_for_commit (sha commit) (env_refs env) of
                       Some c \<Rightarrow> c | None \<Rightarrow> 0));
              own = (rid, lane, color) in
          and_then
            (merge_parents env \<lparr>pt_x = place_x place, pt_y = y\<rparr> highlighted own
              (drop 1 (parents commit))
              \<lparr>ms_offset_x = place_offset_x place, ms_unsolved = place_unsolved place,
               ms_links = ls_links st, ms_next_rail_id = place_next_rail_id place, ms_info = []\<rparr>)
            (\<lambda>ms.
              let left_margin = max (ms_offset_x ms) max_offset_old + env_half_w env + 2 in
              Inr
                \<lparr>ls_unsolved = ms_unsolved ms, ls_ended = ls_ended st @ ended,
                 ls_links = ms_links ms,
                 ls_rows = ls_rows st @
                   [finish_row env row_idx commit scan highlighted place own (ms_info ms)
                      left_margin],
                 ls_margins = ls_margins st @ [left_margin],
                 ls_next_rail_id = ms_next_rail_id ms\<rparr>)))"

fun layout_rows ::
  "layout_env \<Rightarrow> nat \<Rightarrow> commit_summary list \<Rightarrow> layout_state \<Rightarrow> graph_error + layout_state" where
  "layout_rows env row_idx [] st = Inr st"
| "layout_rows env row_idx (c # cs) st =
     and_then (layout_row env row_idx c st) (layout_rows env (Suc row_idx) cs)"

section \<open>The whole page\<close>

definition check_checkpoint ::
  "graph_config \<Rightarrow> commit_summary list \<Rightarrow> graph_checkpoint option \<Rightarrow> graph_error + unit" where
  "check_checkpoint config commits checkpoint =
     (case checkpoint of
        None \<Rightarrow> Inr ()
      | Some cp \<Rightarrow>
          if max_frontier_size config < length (cp_frontier cp)
          then Inl (FrontierLimitExceeded (length (cp_frontier cp)) (max_frontier_size config))
          else
            (case (cp_last_seen_sha cp, commits) of
               (Some last_sha, c # _) \<Rightarrow>
                 if sha c = last_sha
                 then Inl (ContinuityError (''first commit '' @ last_sha @
                   '' duplicates last commit of previous page''))
                 else Inr ()
             | _ \<Rightarrow> Inr ()))"

fun check_page :: "graph_config \<Rightarrow> string set \<Rightarrow> nat \<Rightarrow> commit_summary list \<Rightarrow> graph_error + unit" where
  "check_page config seen i [] = Inr ()"
| "check_page config seen i (c # cs) =
     (if sha c \<in> seen then Inl (DuplicateCommit (sha c) i)
      else if max_frontier_size config < length (parents c)
      then Inl (FrontierLimitExceeded (length (parents c)) (max_frontier_size config))
      else check_page config (insert (sha c) seen) (Suc i) cs)"

definition layout_env_of ::
  "commit_summary list \<Rightarrow> git_reference list \<Rightarrow> string option \<Rightarrow> graph_config \<Rightarrow>
   graph_checkpoint option \<Rightarrow> layout_env" where
  "layout_env_of commits refs head config checkpoint =
     (let index = refs_by_commit refs in
      \<lparr>env_config = config, env_refs = index, env_hash_index = hash_index commits,
       env_head = head,
       env_has_head_reference =
         (head \<noteq> None \<or> list_ex (\<lambda>c. carries_head index (sha c)) commits),
       env_row_offset = (case checkpoint of None \<Rightarrow> 0 | Some cp \<Rightarrow> cp_next_global_row cp)\<rparr>)"

definition layout_start :: "layout_env \<Rightarrow> graph_checkpoint option \<Rightarrow> layout_state" where
  "layout_start env checkpoint =
     \<lparr>ls_unsolved =
        (case checkpoint of
           None \<Rightarrow> []
         | Some cp \<Rightarrow>
             map (from_frontier (of_nat (env_row_offset env) * env_unit_h env)) (cp_frontier cp)),
      ls_ended = [], ls_links = [], ls_rows = [], ls_margins = [],
      ls_next_rail_id = (case checkpoint of None \<Rightarrow> 0 | Some cp \<Rightarrow> cp_next_rail_id cp)\<rparr>"

definition frontier_of :: "layout_env \<Rightarrow> path_helper \<Rightarrow> frontier_rail" where
  "frontier_of env r =
     \<lparr>fr_next_sha = ph_next r, fr_lane = lane_of env (last_x r), fr_last_x = last_x r,
      fr_last_y = last_y r, fr_color_index = ph_color r,
      fr_color_override = ph_color_override r, fr_highlighted = ph_highlighted r,
      fr_rail_id = ph_rail_id r\<rparr>"

definition checkpoint_of ::
  "layout_env \<Rightarrow> commit_summary list \<Rightarrow> graph_checkpoint option \<Rightarrow> layout_state \<Rightarrow> graph_checkpoint" where
  "checkpoint_of env commits checkpoint st =
     \<lparr>cp_frontier = map (frontier_of env) (filter (\<lambda>r. \<not> held r) (ls_unsolved st)),
      cp_next_global_row = env_row_offset env + length commits,
      cp_next_rail_id = ls_next_rail_id st,
      cp_used_colors_mask = color_mask (ls_unsolved st),
      cp_last_seen_sha =
        (if commits \<noteq> [] then Some (sha (last commits))
         else Option.bind checkpoint cp_last_seen_sha)\<rparr>"

text \<open>Open rails run to the bottom edge of the page.\<close>

definition close_rail :: "layout_env \<Rightarrow> nat \<Rightarrow> path_helper \<Rightarrow> graph_path" where
  "close_rail env n r =
     (let bottom = (of_nat (env_row_offset env + n) - 1 / 2) * env_unit_h env in
      to_graph_path (end_row (last_x r) (bottom + env_half_h env) (env_half_h env) r))"

definition layout_finish ::
  "layout_env \<Rightarrow> commit_summary list \<Rightarrow> graph_checkpoint option \<Rightarrow> layout_state \<Rightarrow> graph_layout" where
  "layout_finish env commits checkpoint st =
     \<lparr>lay_rows = ls_rows st,
      lay_paths = map to_graph_path (ls_ended st) @
        map (close_rail env (length commits)) (filter (\<lambda>r. \<not> held r) (ls_unsolved st)),
      lay_links = ls_links st,
      commit_left_margin = ls_margins st,
      lay_checkpoint = Some (checkpoint_of env commits checkpoint st),
      is_fallback = False\<rparr>"

definition compute_graph_layout ::
  "commit_summary list \<Rightarrow> git_reference list \<Rightarrow> string option \<Rightarrow> graph_config \<Rightarrow>
   graph_checkpoint option \<Rightarrow> graph_error + graph_layout" where
  "compute_graph_layout commits refs head config checkpoint =
     and_then (validate_config config) (\<lambda>_.
     and_then (validate_input_bounds commits refs config checkpoint) (\<lambda>_.
     and_then (check_checkpoint config commits checkpoint) (\<lambda>_.
     and_then (check_page config {} 0 commits) (\<lambda>_.
       let env = layout_env_of commits refs head config checkpoint in
       and_then (layout_rows env 0 commits (layout_start env checkpoint)) (\<lambda>st.
         Inr (layout_finish env commits checkpoint st))))))"

definition build_graph_layout ::
  "commit_summary list \<Rightarrow> git_reference list \<Rightarrow> string option \<Rightarrow> graph_error + graph_layout" where
  "build_graph_layout commits refs head =
     compute_graph_layout commits refs head default_config None"

section \<open>The fallback\<close>

definition fallback_row ::
  "layout_env \<Rightarrow> nat \<times> commit_summary \<Rightarrow> graph_row" where
  "fallback_row env ic =
     (case ic of (i, commit) \<Rightarrow>
        \<lparr>row_sha = sha commit, row_index = i, global_row = i,
         row_node =
           \<lparr>node_lane = 0, node_color_index = 0, node_color_override = None,
            node_kind = node_type_of (env_config env) (is_head_commit env commit) commit,
            node_is_head = is_head_commit env commit, node_highlighted = True,
            node_rail_id = None\<rparr>,
         passing_lanes = [],
         parent_edges = parent_edges_of env commit (0, 0, 0) [],
         row_refs = (case env_refs env (sha commit) of None \<Rightarrow> [] | Some rs \<Rightarrow> rs),
         max_lane = 0\<rparr>)"

definition fallback_linear_layout ::
  "commit_summary list \<Rightarrow> git_reference list \<Rightarrow> string option \<Rightarrow> graph_config \<Rightarrow>
   graph_error + graph_layout" where
  "fallback_linear_layout commits refs head config =
     and_then (validate_config config) (\<lambda>_.
     and_then (validate_input_bounds commits refs config None) (\<lambda>_.
       let env = layout_env_of commits refs head config None in
       Inr
         \<lparr>lay_rows = map (fallback_row env) (enumerate 0 commits),
          lay_paths = [], lay_links = [],
          commit_left_margin = map (\<lambda>_. env_offset_x env + env_unit_w env + 2) commits,
          lay_checkpoint = None, is_fallback = True\<rparr>))"

section \<open>The verifier\<close>

datatype invariant_error =
    RowCountMismatch nat nat
  | ShaMismatch nat string string
  | DuplicateCommitNode string
  | EdgeHashMismatch nat string string
  | InvalidEdgeRow nat nat
  | InvalidCoordinate rat rat
  | DanglingRailId nat nat

fun verify_shas ::
  "nat \<Rightarrow> string set \<Rightarrow> graph_row list \<Rightarrow> commit_summary list \<Rightarrow> invariant_error + unit" where
  "verify_shas i seen (row # rows) (c # cs) =
     (if row_sha row \<noteq> sha c then Inl (ShaMismatch i (sha c) (row_sha row))
      else if row_sha row \<in> seen then Inl (DuplicateCommitNode (row_sha row))
      else verify_shas (Suc i) (insert (row_sha row) seen) rows cs)"
| "verify_shas i seen _ _ = Inr ()"

definition verify_edge :: "graph_row list \<Rightarrow> nat \<Rightarrow> parent_edge \<Rightarrow> invariant_error option" where
  "verify_edge rows i edge =
     (if edge_continuation edge \<noteq> Resolved then None
      else case edge_to_row edge of
        None \<Rightarrow> Some (InvalidEdgeRow usize_max (length rows))
      | Some target \<Rightarrow>
          if length rows \<le> target then Some (InvalidEdgeRow target (length rows))
          else if row_sha (rows ! target) \<noteq> edge_parent_sha edge
          then Some (EdgeHashMismatch i (edge_parent_sha edge) (row_sha (rows ! target)))
          else None)"

fun first_error :: "('a \<Rightarrow> 'e option) \<Rightarrow> 'a list \<Rightarrow> 'e + unit" where
  "first_error f [] = Inr ()"
| "first_error f (x # xs) = (case f x of Some e \<Rightarrow> Inl e | None \<Rightarrow> first_error f xs)"

definition verify_row ::
  "graph_row list \<Rightarrow> nat set \<Rightarrow> nat \<times> graph_row \<Rightarrow> invariant_error option" where
  "verify_row rows known ir =
     (case ir of (i, row) \<Rightarrow>
        (case node_rail_id (row_node row) of
           Some rid \<Rightarrow> if rid \<in> known then None else Some (DanglingRailId i rid)
         | None \<Rightarrow> None))"

definition verify_row_edges :: "graph_row list \<Rightarrow> nat \<times> graph_row \<Rightarrow> invariant_error option" where
  "verify_row_edges rows ir =
     (case ir of (i, row) \<Rightarrow>
        (case first_error (verify_edge rows i) (parent_edges row) of Inl e \<Rightarrow> Some e | Inr _ \<Rightarrow> None))"

definition verify_point :: "point \<Rightarrow> invariant_error option" where
  "verify_point pt =
     (if pt_x pt < 0 \<or> pt_y pt < 0 then Some (InvalidCoordinate (pt_x pt) (pt_y pt)) else None)"

definition verify_graph_invariants ::
  "graph_layout \<Rightarrow> commit_summary list \<Rightarrow> invariant_error + unit" where
  "verify_graph_invariants layout commits =
     (let rows = lay_rows layout; known = set (map path_rail_id (lay_paths layout)) in
      if length rows \<noteq> length commits
      then Inl (RowCountMismatch (length rows) (length commits))
      else
        and_then (verify_shas 0 {} rows commits) (\<lambda>_.
        and_then (first_error
          (\<lambda>ir. case verify_row rows known ir of
             Some e \<Rightarrow> Some e | None \<Rightarrow> verify_row_edges rows ir)
          (enumerate 0 rows)) (\<lambda>_.
        and_then (first_error verify_point (concat (map path_points (lay_paths layout)))) (\<lambda>_.
          first_error verify_point
            (concat (map (\<lambda>l. [link_start l, link_control l, link_end l]) (lay_links layout)))))))"

end
