(* ===== verification/Graph_Correct.thy ===== *)
theory Graph_Correct
  imports "HOL-Library.Multiset" Graph
begin

text \<open>
  What the layout guarantees: its output passes the module's own verifier, edges that leave the
  page are carried on by the checkpoint, and pages fit together.
\<close>

section \<open>Rails move down and keep their identity\<close>

text \<open>One row moves a rail: a held lane stays, every other one passes, turns to a parent or ends.\<close>

inductive rail_move ::
  "layout_env \<Rightarrow> commit_summary \<Rightarrow> rat \<Rightarrow> path_helper \<Rightarrow> path_helper \<Rightarrow> bool"
  for env commit y where
  Stay: "held r \<Longrightarrow> rail_move env commit y r r"
| Pass: "\<lbrakk>\<not> held r; ph_next r \<noteq> sha commit; env_offset_x env \<le> x\<rbrakk> \<Longrightarrow>
    rail_move env commit y r (pass_row x y (env_half_h env) r)"
| Turn: "\<lbrakk>\<not> held r; ph_next r = sha commit; env_offset_x env \<le> x;
      first_parent_of env commit = Some p; r' = r\<lparr>ph_highlighted := lit, ph_next := p\<rparr>\<rbrakk> \<Longrightarrow>
    rail_move env commit y r (goto_row x y (env_half_h env) r')"
| Stop: "\<lbrakk>\<not> held r; ph_next r = sha commit; env_offset_x env \<le> x; r' = r\<lparr>ph_highlighted := lit\<rparr>\<rbrakk> \<Longrightarrow>
    rail_move env commit y r (end_row x y (env_half_h env) r')"

inductive_cases rail_moveE: "rail_move env commit y r r'"

text \<open>The columns a row has reached never lie left of the first lane.\<close>

definition scan_ok :: "layout_env \<Rightarrow> row_scan \<Rightarrow> bool" where
  "scan_ok env scan \<longleftrightarrow>
     env_offset_x env - env_unit_w env \<le> scan_offset_x scan \<and>
     (case scan_major scan of None \<Rightarrow> True | Some m \<Rightarrow> env_offset_x env \<le> major_x m)"

lemma advance_rail_move:
  assumes "advance_rail env commit y i rail scan = (rail', scan')"
    and "scan_ok env scan" and "0 < env_unit_w env"
  shows "rail_move env commit y rail rail' \<and> scan_ok env scan'"
proof (cases "held rail")
  case True
  with assms show ?thesis by (auto simp: advance_rail_def scan_ok_def intro: rail_move.Stay)
next
  case nh: False
  show ?thesis
  proof (cases "ph_next rail = sha commit")
    case False
    with nh assms show ?thesis
      by (auto simp: advance_rail_def scan_ok_def Let_def intro!: rail_move.Pass split: option.splits)
  next
    case True
    show ?thesis
    proof (cases "scan_major scan")
      case None
      define x where "x = scan_offset_x scan + env_unit_w env"
      define lit where "lit = (ph_highlighted rail \<or> is_head_commit env commit)"
      have l: "(if lit then rail\<lparr>ph_highlighted := True\<rparr> else rail) = rail\<lparr>ph_highlighted := lit\<rparr>"
        by (cases rail) (auto simp: lit_def)
      have x: "env_offset_x env \<le> x" using assms(2) by (simp add: x_def scan_ok_def)
      show ?thesis
      proof (cases "first_parent_of env commit")
        case n: None
        with assms(1) nh True None have "rail' = end_row x y (env_half_h env) (rail\<lparr>ph_highlighted := lit\<rparr>)"
          unfolding l [symmetric]
          by (simp add: advance_rail_def x_def [symmetric] lit_def [symmetric] Let_def)
        moreover from assms(1) nh True None n x have "scan_ok env scan'"
          using assms(2,3) by (auto simp: advance_rail_def scan_ok_def Let_def x_def)
        ultimately show ?thesis using rail_move.Stop [OF nh True x refl] by simp
      next
        case (Some p)
        with assms(1) nh True None
        have "rail' = goto_row x y (env_half_h env) (rail\<lparr>ph_highlighted := lit, ph_next := p\<rparr>)"
          unfolding l [symmetric]
          by (simp add: advance_rail_def x_def [symmetric] lit_def [symmetric] Let_def l)
        moreover from assms(1) nh True None Some x have "scan_ok env scan'"
          using assms(2,3) by (auto simp: advance_rail_def scan_ok_def Let_def x_def)
        ultimately show ?thesis using rail_move.Turn [OF nh True x Some refl] by simp
      qed
    next
      case (Some m)
      with assms nh True have "rail' = end_row (major_x m) y (env_half_h env) rail" "scan' = scan"
        by (auto simp: advance_rail_def)
      moreover have "env_offset_x env \<le> major_x m" using assms(2) Some by (simp add: scan_ok_def)
      moreover have "rail = rail\<lparr>ph_highlighted := ph_highlighted rail\<rparr>" by (cases rail) simp
      ultimately show ?thesis using rail_move.Stop [OF nh True _ refl] assms(2) by metis
    qed
  qed
qed

lemma advance_rails_move:
  assumes "advance_rails env commit y i rails scan = (rails', scan')"
    and "scan_ok env scan" and "0 < env_unit_w env"
  shows "list_all2 (rail_move env commit y) rails rails' \<and> scan_ok env scan'"
  using assms
proof (induction rails arbitrary: i scan rails' scan')
  case (Cons r rails)
  obtain r1 scan1 where 1: "advance_rail env commit y i r scan = (r1, scan1)" by force
  obtain rails2 scan2 where 2: "advance_rails env commit y (Suc i) rails scan1 = (rails2, scan2)"
    by force
  from Cons.prems(1) have e: "rails' = r1 # rails2" "scan' = scan2" by (simp_all add: 1 2)
  from advance_rail_move [OF 1 Cons.prems(2,3)] have m: "rail_move env commit y r r1" "scan_ok env scan1"
    by simp_all
  from Cons.IH [OF 2 m(2) Cons.prems(3)] m(1) show ?case by (simp add: e)
qed simp

text \<open>A rail that is drawn: its points go strictly down and lie at no negative coordinate.\<close>

fun descending :: "point list \<Rightarrow> bool" where
  "descending (a # b # ps) \<longleftrightarrow> pt_y a < pt_y b \<and> descending (b # ps)"
| "descending _ \<longleftrightarrow> True"

definition point_ok :: "point \<Rightarrow> bool" where
  "point_ok p \<longleftrightarrow> 0 \<le> pt_x p \<and> 0 \<le> pt_y p"

definition rail_ok :: "path_helper \<Rightarrow> bool" where
  "rail_ok r \<longleftrightarrow>
     0 \<le> last_x r \<and> 0 \<le> last_y r \<and>
     (held r \<or> ph_points r \<noteq> [] \<and> descending (ph_points r) \<and>
        list_all point_ok (ph_points r) \<and> pt_y (last (ph_points r)) = end_y r)"

lemma descending_snoc:
  "descending (ps @ [p]) \<longleftrightarrow> descending ps \<and> (ps \<noteq> [] \<longrightarrow> pt_y (last ps) < pt_y p)"
  by (induction ps rule: descending.induct) auto

lemma rail_ok_end: "rail_ok r \<Longrightarrow> \<not> held r \<Longrightarrow> 0 \<le> end_y r"
  by (auto simp: rail_ok_def list_all_iff point_ok_def) (metis last_in_set)

lemma rail_ok_add_point:
  assumes "rail_ok r" and "\<not> held r" and "0 \<le> x"
  shows "rail_ok (add_point x y r)"
  using assms rail_ok_end [OF assms(1,2)]
  by (auto simp: add_point_def rail_ok_def descending_snoc point_ok_def)

lemma add_point_simps [simp]:
  "held (add_point x y r) = held r" "ph_next (add_point x y r) = ph_next r"
  "ph_rail_id (add_point x y r) = ph_rail_id r" "last_x (add_point x y r) = last_x r"
  "last_y (add_point x y r) = last_y r" "ph_color (add_point x y r) = ph_color r"
  "ph_color_override (add_point x y r) = ph_color_override r"
  "ph_highlighted (add_point x y r) = ph_highlighted r"
  by (simp_all add: add_point_def)

lemma rail_ok_at_point: "rail_ok r \<Longrightarrow> 0 \<le> x \<Longrightarrow> 0 \<le> y \<Longrightarrow> rail_ok (at_point x y r)"
  by (simp add: rail_ok_def at_point_def)

lemma at_point_simps [simp]:
  "held (at_point x y r) = held r" "ph_next (at_point x y r) = ph_next r"
  "ph_rail_id (at_point x y r) = ph_rail_id r" "last_x (at_point x y r) = x"
  "last_y (at_point x y r) = y" "ph_color (at_point x y r) = ph_color r"
  "ph_color_override (at_point x y r) = ph_color_override r"
  "ph_highlighted (at_point x y r) = ph_highlighted r"
  by (simp_all add: at_point_def)

lemma row_move_simps [simp]:
  "held (pass_row x y h r) = held r" "held (goto_row x y h r) = held r" "held (end_row x y h r) = held r"
  "ph_next (pass_row x y h r) = ph_next r" "ph_next (goto_row x y h r) = ph_next r"
  "ph_next (end_row x y h r) = ph_next r"
  "ph_rail_id (pass_row x y h r) = ph_rail_id r" "ph_rail_id (goto_row x y h r) = ph_rail_id r"
  "ph_rail_id (end_row x y h r) = ph_rail_id r"
  "ph_color (pass_row x y h r) = ph_color r" "ph_color (goto_row x y h r) = ph_color r"
  "ph_color (end_row x y h r) = ph_color r"
  "last_x (pass_row x y h r) = x" "last_x (goto_row x y h r) = x" "last_x (end_row x y h r) = x"
  by (auto simp: pass_row_def goto_row_def end_row_def Let_def)

lemma rail_ok_moves:
  assumes "rail_ok r" and "\<not> held r" and "0 \<le> x" and "0 \<le> y"
  shows "rail_ok (pass_row x y h r)" and "rail_ok (goto_row x y h r)" and "rail_ok (end_row x y h r)"
proof -
  have lx: "0 \<le> last_x r" using assms(1) by (simp add: rail_ok_def)
  note add = rail_ok_add_point
  show "rail_ok (pass_row x y h r)" "rail_ok (goto_row x y h r)" "rail_ok (end_row x y h r)"
    unfolding pass_row_def goto_row_def end_row_def Let_def
    using assms lx by (auto intro!: rail_ok_at_point add)
qed

lemma rail_ok_update [simp]:
  "rail_ok (r\<lparr>ph_highlighted := l\<rparr>) = rail_ok r"
  "rail_ok (r\<lparr>ph_highlighted := l, ph_next := n\<rparr>) = rail_ok r"
  by (simp_all add: rail_ok_def)

lemma rail_move_ok:
  assumes "rail_move env commit y r r'" and "rail_ok r" and "0 \<le> env_offset_x env" and "0 \<le> y"
  shows "rail_ok r'"
  using assms by cases (auto intro!: rail_ok_moves)

lemma rail_move_keeps:
  assumes "rail_move env commit y r r'"
  shows "held r' = held r" and "ph_rail_id r' = ph_rail_id r" and "ph_color r' = ph_color r"
    and "\<not> held r \<Longrightarrow> ph_next r \<noteq> sha commit \<Longrightarrow> ph_next r' = ph_next r"
  using assms by (cases; simp)+

section \<open>Which rails stay open\<close>

definition live :: "path_helper list \<Rightarrow> path_helper list" where
  "live rails = filter (\<lambda>r. \<not> held r) rails"

lemma live_simps [simp]:
  "live [] = []" "live (r # rs) = (if held r then live rs else r # live rs)"
  "live (a @ b) = live a @ live b" "set (live rs) = {r \<in> set rs. \<not> held r}"
  by (simp_all add: live_def)

lemma separate_rails_mset:
  "separate_rails env commit m i rails = (rem, fin) \<Longrightarrow> mset (live rem) + mset fin = mset (live rails)"
proof (induction env commit m i rails arbitrary: rem fin rule: separate_rails.induct)
  case (2 env commit m i r rails)
  obtain rem' fin' where 1: "separate_rails env commit m (Suc i) rails = (rem', fin')" by force
  show ?case using "2.prems" "2.IH" [OF 1] by (auto simp: 1 held_lane_def split: if_splits)
qed simp

lemma separate_rails_in:
  "separate_rails env commit m i rails = (rem, fin) \<Longrightarrow> r \<in> set rem \<Longrightarrow>
   (r \<in> set rails \<and> \<not> held r) \<or> (\<exists>r0\<in>set rails. \<not> held r0 \<and> r = held_lane (last_x r0) (last_y r0))"
proof (induction env commit m i rails arbitrary: rem fin rule: separate_rails.induct)
  case (2 env commit m i r' rails)
  obtain rem' fin' where 1: "separate_rails env commit m (Suc i) rails = (rem', fin')" by force
  show ?case using "2.prems" "2.IH" [OF 1] by (auto simp: 1 split: if_splits)
qed simp

lemma separate_rails_held:
  "separate_rails env commit m i rails = (rem, fin) \<Longrightarrow> \<not> hold_root_lanes (env_config env) \<Longrightarrow>
   r \<in> set rem \<Longrightarrow> \<not> held r"
proof (induction env commit m i rails arbitrary: rem fin rule: separate_rails.induct)
  case (2 env commit m i r' rails)
  obtain rem' fin' where 1: "separate_rails env commit m (Suc i) rails = (rem', fin')" by force
  show ?case using "2.prems" "2.IH" [OF 1] by (auto simp: 1 split: if_splits)
qed simp

lemma separate_rails_length:
  "separate_rails env commit m i rails = (rem, fin) \<Longrightarrow> length rem \<le> length rails"
proof (induction env commit m i rails arbitrary: rem fin rule: separate_rails.induct)
  case (2 env commit m i r rails)
  obtain rem' fin' where 1: "separate_rails env commit m (Suc i) rails = (rem', fin')" by force
  show ?case using "2.prems" "2.IH" [OF 1] by (auto simp: 1 split: if_splits)
qed simp

lemma separate_rails_stays:
  "separate_rails env commit m i rails = (rem, fin) \<Longrightarrow> k < length rails \<Longrightarrow> \<not> held (rails ! k) \<Longrightarrow>
   (if m = Some (i + k) then first_parent_of env commit \<noteq> None else ph_next (rails ! k) \<noteq> sha commit) \<Longrightarrow>
   rails ! k \<in> set rem"
proof (induction env commit m i rails arbitrary: rem fin k rule: separate_rails.induct)
  case (2 env commit m i r rails)
  obtain rem' fin' where 1: "separate_rails env commit m (Suc i) rails = (rem', fin')" by force
  show ?case
  proof (cases k)
    case 0
    with "2.prems" show ?thesis by (auto simp: 1 split: if_splits)
  next
    case (Suc j)
    have j: "rails ! j \<in> set rem'"
      using "2.prems"(2-4) by (intro "2.IH" [OF 1]) (auto simp: Suc split: if_splits)
    with "2.prems"(1) show ?thesis by (auto simp: 1 Suc split: if_splits)
  qed
qed simp

lemma separate_ended_facts:
  assumes "separate_ended env commit m rails = (rem, fin)"
  shows "mset (live rem) + mset fin = mset (live rails)"
    and "\<And>r. r \<in> set rem \<Longrightarrow> r \<in> set rails \<or>
      (\<exists>r0\<in>set rails. \<not> held r0 \<and> r = held_lane (last_x r0) (last_y r0))"
    and "length rem \<le> length rails"
    and "\<And>k. \<lbrakk>k < length rails; \<not> held (rails ! k);
      if m = Some k then first_parent_of env commit \<noteq> None else ph_next (rails ! k) \<noteq> sha commit\<rbrakk> \<Longrightarrow>
      rails ! k \<in> set rem"
    and "\<not> hold_root_lanes (env_config env) \<Longrightarrow> \<forall>r\<in>set rails. \<not> held r \<Longrightarrow> \<forall>r\<in>set rem. \<not> held r"
proof -
  show "mset (live rem) + mset fin = mset (live rails)"
    using assms separate_rails_mset by (auto simp: separate_ended_def split: if_splits)
  show "r \<in> set rails \<or> (\<exists>r0\<in>set rails. \<not> held r0 \<and> r = held_lane (last_x r0) (last_y r0))"
    if "r \<in> set rem" for r
  proof (cases "m \<noteq> None \<or> list_ex held rails")
    case True
    with assms have "separate_rails env commit m 0 rails = (rem, fin)" by (simp add: separate_ended_def)
    from separate_rails_in [OF this that] show ?thesis by blast
  next
    case False
    with assms that show ?thesis by (simp add: separate_ended_def)
  qed
  show "length rem \<le> length rails"
    using assms separate_rails_length by (auto simp: separate_ended_def split: if_splits)
  show "rails ! k \<in> set rem"
    if "k < length rails" "\<not> held (rails ! k)"
      "if m = Some k then first_parent_of env commit \<noteq> None else ph_next (rails ! k) \<noteq> sha commit" for k
    using assms separate_rails_stays [where i = 0, OF _ that(1,2)] that
    by (auto simp: separate_ended_def split: if_splits)
  show "\<forall>r\<in>set rem. \<not> held r" if "\<not> hold_root_lanes (env_config env)" "\<forall>r\<in>set rails. \<not> held r"
    using assms separate_rails_held [OF _ that(1)] that by (auto simp: separate_ended_def split: if_splits)
qed

section \<open>The rail that carries the node\<close>

lemma advance_rail_major:
  assumes "advance_rail env commit y i rail scan = (rail', scan')"
  shows "scan_major scan = Some m \<Longrightarrow> scan_major scan' = Some m"
    and "scan_major scan = None \<Longrightarrow> scan_major scan' = Some m \<Longrightarrow>
      major_idx m = i \<and> \<not> held rail \<and> ph_rail_id rail = major_rail_id m \<and> ph_color rail = major_color m \<and>
      ph_next rail = sha commit \<and>
      (\<forall>p. first_parent_of env commit = Some p \<longrightarrow> ph_next rail' = p)"
  using assms
  by (auto simp: advance_rail_def Let_def split: if_splits option.splits)

lemma advance_rails_major_kept:
  "advance_rails env commit y i rails scan = (rails', scan') \<Longrightarrow> scan_major scan = Some m \<Longrightarrow>
   scan_major scan' = Some m"
  by (induction rails arbitrary: i scan rails' scan')
    (auto split: prod.splits dest: advance_rail_major(1))

lemma advance_rails_major:
  assumes "advance_rails env commit y i rails scan = (rails', scan')"
    and "scan_major scan = None" and "scan_major scan' = Some m"
  shows "\<exists>k<length rails. major_idx m = i + k \<and> \<not> held (rails ! k) \<and>
    ph_rail_id (rails ! k) = major_rail_id m \<and> ph_color (rails ! k) = major_color m \<and>
    ph_next (rails ! k) = sha commit \<and>
    (\<forall>p. first_parent_of env commit = Some p \<longrightarrow> ph_next (rails' ! k) = p)"
  using assms
proof (induction rails arbitrary: i scan rails' scan')
  case (Cons r rails)
  obtain r1 scan1 where 1: "advance_rail env commit y i r scan = (r1, scan1)" by force
  obtain rails2 scan2 where 2: "advance_rails env commit y (Suc i) rails scan1 = (rails2, scan2)"
    by force
  from Cons.prems(1) have e: "rails' = r1 # rails2" "scan' = scan2" by (simp_all add: 1 2)
  show ?case
  proof (cases "scan_major scan1")
    case None
    from Cons.IH [OF 2 None] Cons.prems(3) obtain k where "k < length rails" "major_idx m = Suc i + k"
      "\<not> held (rails ! k)" "ph_rail_id (rails ! k) = major_rail_id m" "ph_color (rails ! k) = major_color m"
      "ph_next (rails ! k) = sha commit"
      "\<forall>p. first_parent_of env commit = Some p \<longrightarrow> ph_next (rails2 ! k) = p"
      by (auto simp: e)
    then show ?thesis by (intro exI [of _ "Suc k"]) (simp add: e)
  next
    case (Some m1)
    with advance_rails_major_kept [OF 2] Cons.prems(3) have m: "m1 = m" by (simp add: e)
    from advance_rail_major(2) [OF 1 Cons.prems(2)] Some show ?thesis
      by (intro exI [of _ 0]) (simp add: e m)
  qed
qed simp

section \<open>New rails\<close>

text \<open>Rails are only added at the right, with the next ids, and never beyond the limit.\<close>

definition grown ::
  "layout_env \<Rightarrow> path_helper list \<Rightarrow> nat \<Rightarrow> path_helper list \<Rightarrow> nat \<Rightarrow> bool" where
  "grown env rails n rails' n' \<longleftrightarrow>
     (\<exists>new. rails' = rails @ new \<and> n \<le> n' \<and> map ph_rail_id new = [n..<n'] \<and>
       list_all (\<lambda>r. rail_ok r \<and> \<not> held r) new \<and>
       (new = [] \<or> length rails' \<le> max_frontier_size (env_config env)))"

lemma grown_refl: "grown env rails n rails n"
  by (simp add: grown_def)

lemma upt_join: "i \<le> j \<Longrightarrow> j \<le> k \<Longrightarrow> [i..<j] @ [j..<k] = [i..<k]"
  by (metis le_add_diff_inverse upt_add_eq_append)

lemma grown_trans:
  assumes "grown env a n b m" and "grown env b m c k"
  shows "grown env a n c k"
proof -
  from assms(1) obtain new1 where 1: "b = a @ new1" "n \<le> m" "map ph_rail_id new1 = [n..<m]"
    "list_all (\<lambda>r. rail_ok r \<and> \<not> held r) new1"
    "new1 = [] \<or> length b \<le> max_frontier_size (env_config env)"
    by (auto simp: grown_def)
  from assms(2) obtain new2 where 2: "c = b @ new2" "m \<le> k" "map ph_rail_id new2 = [m..<k]"
    "list_all (\<lambda>r. rail_ok r \<and> \<not> held r) new2"
    "new2 = [] \<or> length c \<le> max_frontier_size (env_config env)"
    by (auto simp: grown_def)
  from 1 2 show ?thesis
    unfolding grown_def
    by (intro exI [of _ "new1 @ new2"]) (auto simp: upt_join [OF 1(2) 2(2)])
qed

lemma grown_one:
  assumes "length rails < max_frontier_size (env_config env)" and "rail_ok r" and "\<not> held r"
    and "ph_rail_id r = n"
  shows "grown env rails n (rails @ [r]) (n + 1)"
  using assms by (auto simp: grown_def intro!: exI [of _ "[r]"])

lemma grown_in: "grown env rails n rails' n' \<Longrightarrow> r \<in> set rails \<Longrightarrow> r \<in> set rails'"
  by (auto simp: grown_def)

definition env_ok :: "layout_env \<Rightarrow> bool" where
  "env_ok env \<longleftrightarrow> 0 < env_unit_w env \<and> 0 < env_unit_h env \<and> 0 \<le> env_offset_x env"

lemma env_ok_half: "env_ok env \<Longrightarrow> 0 < env_half_h env \<and> 0 < env_half_w env"
  by (simp add: env_ok_def env_half_h_def env_half_w_def)

lemma row_y_nonneg: "env_ok env \<Longrightarrow> 0 \<le> row_y env i"
  using env_ok_half [of env] by (auto simp: row_y_def env_ok_def intro!: add_nonneg_nonneg)

text \<open>Where the node is: on an open rail that then waits for the first parent.\<close>

definition placed :: "layout_env \<Rightarrow> commit_summary \<Rightarrow> row_node_place \<Rightarrow> bool" where
  "placed env commit place \<longleftrightarrow>
     env_offset_x env \<le> place_x place \<and>
     env_offset_x env - env_unit_w env \<le> place_offset_x place \<and>
     (\<forall>p. first_parent_of env commit = Some p \<longrightarrow>
       (\<exists>r\<in>set (place_unsolved place). \<not> held r \<and> ph_next r = p \<and>
         map_option fst (place_rail place) = Some (ph_rail_id r)))"

lemma start_branch_grown:
  assumes "start_branch env commit y hl prev x0 rails n = Inr place"
    and "env_ok env" and "0 \<le> y" and "env_offset_x env - env_unit_w env \<le> x0"
  shows "grown env rails n (place_unsolved place) (place_next_rail_id place) \<and>
    placed env commit place \<and>
    (\<forall>rid c. place_rail place = Some (rid, c) \<longrightarrow> rid \<in> ph_rail_id ` set (live (place_unsolved place)))"
proof -
  define x where "x = (if hold_root_lanes (env_config env) then
               (if rails = [] then env_offset_x env - env_unit_w env
                else case prev of Some l \<Rightarrow> max x0 l | None \<Rightarrow> x0)
             else x0) + env_unit_w env"
  have x: "env_offset_x env \<le> x"
    using assms(4) by (auto simp: x_def split: option.split)
  have x0: "0 \<le> x" using x assms(2) by (simp add: env_ok_def)
  show ?thesis
  proof (cases "first_parent_of env commit")
    case None
    with assms(1) x show ?thesis
      using assms(2)
      by (auto simp: start_branch_def x_def [symmetric] Let_def placed_def grown_refl env_ok_def)
  next
    case (Some p)
    define color where "color = pick_color (color_mask rails)
      (preferred_index_for_commit (sha commit) (env_refs env))"
    define r where "r = (new_start p color \<lparr>pt_x = x, pt_y = y\<rparr> n)\<lparr>ph_highlighted := hl\<rparr>"
    have lim: "length rails < max_frontier_size (env_config env)"
      using assms(1) Some by (auto simp: start_branch_def Let_def split: if_splits)
    have pl: "place = \<lparr>place_x = x, place_rail = Some (ph_rail_id r, color), place_offset_x = x,
        place_unsolved = rails @ [r], place_next_rail_id = n + 1\<rparr>"
      using assms(1) Some lim
      by (simp add: start_branch_def Let_def x_def [symmetric] color_def [symmetric] r_def)
    have "rail_ok r" "\<not> held r" "ph_rail_id r = n" "ph_next r = p"
      using x0 assms(3) by (simp_all add: r_def new_start_def rail_ok_def point_ok_def)
    then show ?thesis
      using grown_one [OF lim] x assms(2) Some
      by (auto simp: pl placed_def env_ok_def)
  qed
qed

definition held_blank :: "path_helper \<Rightarrow> bool" where
  "held_blank r \<longleftrightarrow> (held r \<longrightarrow> ph_next r = [])"

definition link_ok :: "graph_link \<Rightarrow> bool" where
  "link_ok l \<longleftrightarrow> point_ok (link_start l) \<and> point_ok (link_control l) \<and> point_ok (link_end l)"

text \<open>A parent that is drawn has an open rail of the recorded id waiting for it.\<close>

definition waits_for :: "layout_env \<Rightarrow> path_helper list \<Rightarrow> string \<Rightarrow> nat \<Rightarrow> bool" where
  "waits_for env rails p rid \<longleftrightarrow>
     p \<in> filtered_commits (env_config env) \<or> p = [] \<or>
     (\<exists>r\<in>set rails. \<not> held r \<and> ph_next r = p \<and> ph_rail_id r = rid)"

lemma waits_for_grown: "waits_for env rails p rid \<Longrightarrow> grown env rails n rails' n' \<Longrightarrow> waits_for env rails' p rid"
  using grown_in by (fastforce simp: waits_for_def)

definition merging :: "layout_env \<Rightarrow> merge_scan \<Rightarrow> bool" where
  "merging env scan \<longleftrightarrow>
     env_offset_x env - env_unit_w env \<le> ms_offset_x scan \<and>
     list_all rail_ok (ms_unsolved scan) \<and> list_all held_blank (ms_unsolved scan) \<and>
     list_all link_ok (ms_links scan)"

lemma merge_parent_facts:
  assumes "merge_parent env pos hl own p scan = Inr scan'"
    and "env_ok env" and "point_ok pos" and "merging env scan"
  shows "grown env (ms_unsolved scan) (ms_next_rail_id scan) (ms_unsolved scan') (ms_next_rail_id scan') \<and>
    merging env scan' \<and>
    (\<exists>info. ms_info scan' = ms_info scan @ [info] \<and> waits_for env (ms_unsolved scan') p (fst info))"
proof (cases "p \<in> filtered_commits (env_config env)")
  case True
  with assms show ?thesis
    by (cases own) (auto simp: merge_parent_def Let_def grown_refl waits_for_def merging_def)
next
  case nf: False
  show ?thesis
  proof (cases "find (\<lambda>r. ph_next r = p) (ms_unsolved scan)")
    case (Some r)
    then have r: "r \<in> set (ms_unsolved scan)" "ph_next r = p" by (auto simp: find_Some_iff)
    then have "rail_ok r" "held_blank r" using assms(4) by (auto simp: merging_def list_all_iff)
    then have "0 \<le> last_x r" "p \<noteq> [] \<Longrightarrow> \<not> held r" using r(2) by (auto simp: rail_ok_def held_blank_def)
    moreover from this r have "waits_for env (ms_unsolved scan) p (ph_rail_id r)"
      unfolding waits_for_def by blast
    ultimately show ?thesis
      using assms nf Some r env_ok_half [OF assms(2)]
      by (auto simp: merge_parent_def Let_def grown_refl merging_def link_ok_def point_ok_def)
  next
    case None
    define x where "x = ms_offset_x scan + env_unit_w env"
    have x: "env_offset_x env \<le> x" using assms(4) by (simp add: merging_def x_def)
    then have x0: "0 \<le> x" using assms(2) by (simp add: env_ok_def)
    define color where "color = pick_color (color_mask (ms_unsolved scan))
      (preferred_index_for_commit p (env_refs env))"
    define r where "r = (new_merge p color pos \<lparr>pt_x = x, pt_y = pt_y pos + env_half_h env\<rparr>
      (ms_next_rail_id scan))\<lparr>ph_highlighted := hl\<rparr>"
    have lim: "length (ms_unsolved scan) < max_frontier_size (env_config env)"
      using assms(1) None nf by (auto simp: merge_parent_def Let_def split: if_splits)
    have s: "scan' = scan\<lparr>ms_offset_x := x, ms_unsolved := ms_unsolved scan @ [r],
        ms_next_rail_id := ms_next_rail_id scan + 1,
        ms_info := ms_info scan @ [(ms_next_rail_id scan, lane_of env x, color)]\<rparr>"
      using assms(1) None nf lim
      by (simp add: merge_parent_def Let_def x_def [symmetric] color_def [symmetric] r_def new_merge_def)
    have "rail_ok r" "\<not> held r" "ph_rail_id r = ms_next_rail_id scan" "ph_next r = p"
      using x0 assms(3) env_ok_half [OF assms(2)]
      by (simp_all add: r_def new_merge_def rail_ok_def point_ok_def)
    moreover have "held_blank r" using calculation by (simp add: held_blank_def)
    ultimately show ?thesis
      using grown_one [OF lim] x assms(2,4)
      by (auto simp: s waits_for_def merging_def env_ok_def)
  qed
qed

lemma merge_parents_facts:
  assumes "merge_parents env pos hl own ps scan = Inr scan'"
    and "env_ok env" and "point_ok pos" and "merging env scan"
  shows "grown env (ms_unsolved scan) (ms_next_rail_id scan) (ms_unsolved scan') (ms_next_rail_id scan') \<and>
    merging env scan' \<and>
    (\<exists>infos. ms_info scan' = ms_info scan @ infos \<and>
      list_all2 (\<lambda>p info. waits_for env (ms_unsolved scan') p (fst info)) ps infos)"
  using assms
proof (induction ps arbitrary: scan)
  case Nil
  then show ?case by (simp add: grown_refl)
next
  case (Cons p ps)
  from Cons.prems(1) obtain scan1 where 1: "merge_parent env pos hl own p scan = Inr scan1"
    and 2: "merge_parents env pos hl own ps scan1 = Inr scan'" by auto
  from merge_parent_facts [OF 1 Cons.prems(2-4)] obtain info where f1:
    "grown env (ms_unsolved scan) (ms_next_rail_id scan) (ms_unsolved scan1) (ms_next_rail_id scan1)"
    "merging env scan1" "ms_info scan1 = ms_info scan @ [info]"
    "waits_for env (ms_unsolved scan1) p (fst info)" by blast
  from Cons.IH [OF 2 Cons.prems(2,3) f1(2)] obtain infos where f2:
    "grown env (ms_unsolved scan1) (ms_next_rail_id scan1) (ms_unsolved scan') (ms_next_rail_id scan')"
    "merging env scan'" "ms_info scan' = ms_info scan1 @ infos"
    "list_all2 (\<lambda>p info. waits_for env (ms_unsolved scan') p (fst info)) ps infos" by blast
  from f1(3) f2(3) have "ms_info scan' = ms_info scan @ info # infos" by simp
  moreover have "list_all2 (\<lambda>p info. waits_for env (ms_unsolved scan') p (fst info)) (p # ps) (info # infos)"
    using f2(4) waits_for_grown [OF f1(4) f2(1)] by simp
  ultimately show ?case using grown_trans [OF f1(1) f2(1)] f2(2) by blast
qed

section \<open>A row\<close>

definition row_own :: "layout_env \<Rightarrow> commit_summary \<Rightarrow> row_node_place \<Rightarrow> nat \<times> nat \<times> nat" where
  "row_own env commit place =
     (case place_rail place of Some (rid, _) \<Rightarrow> rid | None \<Rightarrow> 0,
      lane_of env (place_x place),
      case place_rail place of Some (_, c) \<Rightarrow> c
      | None \<Rightarrow> (case preferred_index_for_commit (sha commit) (env_refs env) of Some c \<Rightarrow> c | None \<Rightarrow> 0))"

definition row_prev :: "layout_env \<Rightarrow> path_helper list \<Rightarrow> rat option" where
  "row_prev env rails =
     (if rails \<noteq> [] \<and> hold_root_lanes (env_config env) then Some (last_x (last rails)) else None)"

definition row_left :: "layout_env \<Rightarrow> path_helper list \<Rightarrow> rat \<Rightarrow> rat" where
  "row_left env rails x =
     max x (if rails = [] then env_offset_x env else last_x (last rails)) + env_half_w env + 2"

lemma layout_row_fold:
  "layout_row env i c st =
     (let (rails, scan) = advance_rails env c (row_y env i) 0 (ls_unsolved st) (start_scan env);
          (rem, fin) = separate_ended env c (map_option major_idx (scan_major scan)) rails;
          hl = node_highlight env c scan in
      and_then (place_node env c (row_y env i) hl (row_prev env (ls_unsolved st)) scan rem (ls_next_rail_id st))
        (\<lambda>place. and_then
          (merge_parents env \<lparr>pt_x = place_x place, pt_y = row_y env i\<rparr> hl (row_own env c place)
            (drop 1 (parents c))
            \<lparr>ms_offset_x = place_offset_x place, ms_unsolved = place_unsolved place,
             ms_links = ls_links st, ms_next_rail_id = place_next_rail_id place, ms_info = []\<rparr>)
          (\<lambda>ms. Inr
            \<lparr>ls_unsolved = ms_unsolved ms, ls_ended = ls_ended st @ fin, ls_links = ms_links ms,
             ls_rows = ls_rows st @
               [finish_row env i c scan hl place (row_own env c place) (ms_info ms)
                 (row_left env (ls_unsolved st) (ms_offset_x ms))],
             ls_margins = ls_margins st @ [row_left env (ls_unsolved st) (ms_offset_x ms)],
             ls_next_rail_id = ms_next_rail_id ms\<rparr>)))"
  unfolding layout_row_def row_own_def row_prev_def row_left_def Let_def ..

lemma layout_row_cases:
  assumes "layout_row env i c st = Inr st'"
  obtains rails scan rem fin place ms where
    "advance_rails env c (row_y env i) 0 (ls_unsolved st) (start_scan env) = (rails, scan)"
    "separate_ended env c (map_option major_idx (scan_major scan)) rails = (rem, fin)"
    "place_node env c (row_y env i) (node_highlight env c scan) (row_prev env (ls_unsolved st)) scan rem
       (ls_next_rail_id st) = Inr place"
    "merge_parents env \<lparr>pt_x = place_x place, pt_y = row_y env i\<rparr> (node_highlight env c scan)
       (row_own env c place) (drop 1 (parents c))
       \<lparr>ms_offset_x = place_offset_x place, ms_unsolved = place_unsolved place,
        ms_links = ls_links st, ms_next_rail_id = place_next_rail_id place, ms_info = []\<rparr> = Inr ms"
    "st' = \<lparr>ls_unsolved = ms_unsolved ms, ls_ended = ls_ended st @ fin, ls_links = ms_links ms,
       ls_rows = ls_rows st @
         [finish_row env i c scan (node_highlight env c scan) place (row_own env c place) (ms_info ms)
           (row_left env (ls_unsolved st) (ms_offset_x ms))],
       ls_margins = ls_margins st @ [row_left env (ls_unsolved st) (ms_offset_x ms)],
       ls_next_rail_id = ms_next_rail_id ms\<rparr>"
  using assms unfolding layout_row_fold
  by (auto simp: Let_def split: prod.splits)

lemma place_node_facts:
  assumes "place_node env c y hl prev scan rem n = Inr place" and "env_ok env" and "0 \<le> y"
    and "scan_ok env scan"
  shows "grown env rem n (place_unsolved place) (place_next_rail_id place) \<and>
    env_offset_x env \<le> place_x place \<and>
    env_offset_x env - env_unit_w env \<le> place_offset_x place"
  using assms start_branch_grown [of env c y hl prev "scan_offset_x scan" rem n place]
  by (auto simp: place_node_def scan_ok_def grown_refl placed_def split: option.splits)


text \<open>What one row does to the open rails, and where its node and its edges go.\<close>

lemma rail_move_held_blank: "rail_move env commit y r r' \<Longrightarrow> held_blank r \<Longrightarrow> held_blank r'"
  by (erule rail_moveE) (auto simp: held_blank_def)

lemma list_all2_all:
  assumes "list_all2 R xs ys" and "list_all P xs" and "\<And>x y. R x y \<Longrightarrow> P x \<Longrightarrow> Q y"
  shows "list_all Q ys"
  using assms by (induction rule: list_all2_induct) auto

lemma list_all2_map_eq:
  assumes "list_all2 R xs ys" and "\<And>x y. R x y \<Longrightarrow> f y = g x"
  shows "map f ys = map g xs"
  using assms by (induction rule: list_all2_induct) auto

lemma live_moves:
  assumes "list_all2 (rail_move env commit y) xs ys"
  shows "map ph_rail_id (live ys) = map ph_rail_id (live xs)"
  using assms by (induction rule: list_all2_induct) (auto simp: rail_move_keeps)

definition rails_ok :: "path_helper list \<Rightarrow> bool" where
  "rails_ok rails \<longleftrightarrow> list_all rail_ok rails \<and> list_all held_blank rails"

lemma row_rails_ok:
  assumes adv: "advance_rails env c y 0 unsolved (start_scan env) = (rails, scan)"
    and sep: "separate_ended env c m rails = (rem, fin)"
    and ok: "rails_ok unsolved" and env: "env_ok env" and y: "0 \<le> y"
  shows "rails_ok rem \<and> list_all (\<lambda>r. rail_ok r \<and> \<not> held r) fin \<and> scan_ok env scan \<and>
    mset (map ph_rail_id (live rem)) + mset (map ph_rail_id fin) = mset (map ph_rail_id (live unsolved)) \<and>
    length rem \<le> length unsolved"
proof -
  have "scan_ok env (start_scan env)" by (simp add: scan_ok_def start_scan_def)
  with advance_rails_move [OF adv] env have mv: "list_all2 (rail_move env c y) unsolved rails"
    and sc: "scan_ok env scan" by (simp_all add: env_ok_def)
  have r1: "list_all rail_ok rails"
    using list_all2_all [OF mv, of rail_ok rail_ok] ok env y rail_move_ok
    by (auto simp: rails_ok_def env_ok_def)
  have r2: "list_all held_blank rails"
    using list_all2_all [OF mv, of held_blank held_blank] ok rail_move_held_blank
    by (auto simp: rails_ok_def)
  note s = separate_ended_facts [OF sep]
  have "rail_ok r \<and> held_blank r" if "r \<in> set rem" for r
    using s(2) [OF that] r1 r2
    by (auto simp: list_all_iff rail_ok_def held_lane_def held_blank_def)
  then have "rails_ok rem" by (auto simp: rails_ok_def list_all_iff)
  moreover have "set fin \<subseteq> set (live rails)"
    using s(1) by (metis mset_subset_eq_add_right set_mset_mono set_mset_mset)
  then have "list_all (\<lambda>r. rail_ok r \<and> \<not> held r) fin" using r1 by (auto simp: list_all_iff)
  moreover have "mset (map ph_rail_id (live rem)) + mset (map ph_rail_id fin) =
      image_mset ph_rail_id (mset (live rails))" by (simp flip: s(1))
  then have "mset (map ph_rail_id (live rem)) + mset (map ph_rail_id fin) = mset (map ph_rail_id (live unsolved))"
    by (simp only: mset_map [symmetric] live_moves [OF mv])
  ultimately show ?thesis using sc s(3) list_all2_lengthD [OF mv] by simp
qed

lemma row_keeps_waiting:
  assumes adv: "advance_rails env c y 0 unsolved (start_scan env) = (rails, scan)"
    and sep: "separate_ended env c (map_option major_idx (scan_major scan)) rails = (rem, fin)"
    and env: "env_ok env" and w: "waits_for env unsolved p rid" and p: "p \<noteq> sha c"
  shows "waits_for env rem p rid"
proof (cases "p \<in> filtered_commits (env_config env) \<or> p = []")
  case False
  with w obtain k where k: "k < length unsolved" "\<not> held (unsolved ! k)" "ph_next (unsolved ! k) = p"
    "ph_rail_id (unsolved ! k) = rid"
    by (auto simp: waits_for_def in_set_conv_nth)
  have "scan_ok env (start_scan env)" by (simp add: scan_ok_def start_scan_def)
  with advance_rails_move [OF adv] env have mv: "list_all2 (rail_move env c y) unsolved rails"
    by (simp add: env_ok_def)
  from list_all2_nthD [OF mv k(1)] have km: "rail_move env c y (unsolved ! k) (rails ! k)" .
  note keep = rail_move_keeps [OF km]
  have k': "k < length rails" using k(1) list_all2_lengthD [OF mv] by simp
  have "rails ! k \<in> set rem"
  proof (rule separate_ended_facts(4) [OF sep k'])
    show "\<not> held (rails ! k)" using keep k by simp
    have n: "ph_next (rails ! k) \<noteq> sha c" using keep k p by simp
    show "if map_option major_idx (scan_major scan) = Some k then first_parent_of env c \<noteq> None
      else ph_next (rails ! k) \<noteq> sha c"
    proof (cases "map_option major_idx (scan_major scan) = Some k")
      case True
      then obtain m where m: "scan_major scan = Some m" "major_idx m = k" by auto
      have "scan_major (start_scan env) = None" by (simp add: start_scan_def)
      from advance_rails_major [OF adv this m(1)] m(2) have "ph_next (unsolved ! k) = sha c" by auto
      with k p show ?thesis by simp
    next
      case False
      then show ?thesis using n by (simp only: if_False not_False_eq_True)
    qed
  qed
  then show ?thesis using keep k p by (auto simp: waits_for_def)
qed (auto simp: waits_for_def)

section \<open>The state between rows\<close>

definition rail_ids :: "layout_state \<Rightarrow> nat list" where
  "rail_ids st = map ph_rail_id (live (ls_unsolved st) @ ls_ended st)"

fun edge_ok :: "layout_env \<Rightarrow> path_helper list \<Rightarrow> parent_edge \<Rightarrow> bool" where
  "edge_ok env rails e \<longleftrightarrow>
     (if edge_continuation e = Resolved
      then edge_to_row e \<noteq> None \<and> env_hash_index env (edge_parent_sha e) = edge_to_row e
      else if edge_continuation e = UnresolvedPageBoundary
      then env_hash_index env (edge_parent_sha e) = None \<and> edge_parent_sha e \<noteq> [] \<and>
        edge_parent_sha e \<notin> filtered_commits (env_config env) \<and>
        waits_for env rails (edge_parent_sha e) (edge_rail_id e)
      else True)"

declare edge_ok.simps [simp del]

definition row_ok :: "layout_env \<Rightarrow> layout_state \<Rightarrow> graph_row \<Rightarrow> bool" where
  "row_ok env st row \<longleftrightarrow>
     (\<forall>rid. node_rail_id (row_node row) = Some rid \<longrightarrow> rid \<in> set (rail_ids st)) \<and>
     list_all (edge_ok env (ls_unsolved st)) (parent_edges row)"

definition state_ok :: "layout_env \<Rightarrow> layout_state \<Rightarrow> bool" where
  "state_ok env st \<longleftrightarrow>
     rails_ok (ls_unsolved st) \<and> list_all (\<lambda>r. rail_ok r \<and> \<not> held r) (ls_ended st) \<and>
     list_all link_ok (ls_links st) \<and>
     length (ls_unsolved st) \<le> max_frontier_size (env_config env) \<and>
     distinct (rail_ids st) \<and> (\<forall>rid\<in>set (rail_ids st). rid < ls_next_rail_id st) \<and>
     list_all (row_ok env st) (ls_rows st)"

lemma place_rail_known:
  assumes adv: "advance_rails env c y 0 unsolved (start_scan env) = (rails, scan)"
    and pl: "place_node env c y hl prev scan rem n = Inr place" and env: "env_ok env" "0 \<le> y"
    and sc: "scan_ok env scan" and rid: "place_rail place = Some (rid, col)"
  shows "rid \<in> ph_rail_id ` set (live unsolved) \<union> ph_rail_id ` set (live (place_unsolved place))"
proof (cases "scan_major scan")
  case (Some m)
  have "scan_major (start_scan env) = None" by (simp add: start_scan_def)
  from advance_rails_major [OF adv this Some] obtain k where "k < length unsolved"
    "\<not> held (unsolved ! k)" "ph_rail_id (unsolved ! k) = major_rail_id m" by auto
  moreover have "rid = major_rail_id m" using pl rid Some by (auto simp: place_node_def)
  ultimately show ?thesis by force
next
  case None
  with pl sc start_branch_grown [OF _ env, of c hl prev "scan_offset_x scan" rem n place] rid
  show ?thesis by (auto simp: place_node_def scan_ok_def)
qed

lemma first_parent_waits:
  assumes adv: "advance_rails env c y 0 unsolved (start_scan env) = (rails, scan)"
    and sep: "separate_ended env c (map_option major_idx (scan_major scan)) rails = (rem, fin)"
    and pl: "place_node env c y hl prev scan rem n = Inr place" and env: "env_ok env" "0 \<le> y"
    and sc: "scan_ok env scan" and p: "first_parent_of env c = Some p"
  shows "waits_for env (place_unsolved place) p (fst (row_own env c place))"
proof (cases "scan_major scan")
  case (Some m)
  have s0: "scan_major (start_scan env) = None" by (simp add: start_scan_def)
  from advance_rails_major [OF adv s0 Some] p obtain k where k: "k < length unsolved" "major_idx m = k"
    "\<not> held (unsolved ! k)" "ph_rail_id (unsolved ! k) = major_rail_id m" "ph_next (rails ! k) = p"
    by auto
  have "scan_ok env (start_scan env)" by (simp add: scan_ok_def start_scan_def)
  with advance_rails_move [OF adv] env have mv: "list_all2 (rail_move env c y) unsolved rails"
    by (simp add: env_ok_def)
  note keep = rail_move_keeps [OF list_all2_nthD [OF mv k(1)]]
  have "rails ! k \<in> set rem"
    using separate_ended_facts(4) [OF sep, of k] k keep list_all2_lengthD [OF mv] Some p by simp
  moreover have "place_unsolved place = rem" "fst (row_own env c place) = major_rail_id m"
    using pl Some by (auto simp: place_node_def row_own_def)
  ultimately show ?thesis using keep k unfolding waits_for_def by metis
next
  case None
  with pl sc start_branch_grown [OF _ env, of c hl prev "scan_offset_x scan" rem n place] p
  show ?thesis
    by (force simp: place_node_def scan_ok_def placed_def waits_for_def row_own_def
        split: option.splits)
qed

lemma continuation_cases:
  "continuation_of index config p = (k, t) \<Longrightarrow>
   (k = Resolved \<and> t \<noteq> None \<and> index p = t) \<or> (k = FilteredGap \<and> index p = None) \<or>
   (k = UnresolvedPageBoundary \<and> index p = None \<and> p \<notin> filtered_commits config)"
proof (cases "index p")
  case None
  assume "continuation_of index config p = (k, t)"
  with None show ?thesis by (auto simp: continuation_of_def split: if_splits)
next
  case (Some row)
  assume "continuation_of index config p = (k, t)"
  with Some have "k = Resolved" "t = Some row" by (auto simp: continuation_of_def)
  with Some show ?thesis by simp
qed

lemma parent_edges_ok:
  assumes first: "\<And>p. first_parent_of env c = Some p \<Longrightarrow> waits_for env rails p (fst own)"
    and more: "list_all2 (\<lambda>p info. waits_for env rails p (fst info)) (drop 1 (parents c)) infos"
    and ne: "\<forall>p\<in>set (parents c). p \<noteq> []"
  shows "list_all (edge_ok env rails) (parent_edges_of env c own infos)"
proof (cases "sha c \<in> shallow_roots (env_config env) \<and> parents c = []")
  case True
  then show ?thesis by (simp add: parent_edges_of_def shallow_edge_def edge_ok.simps)
next
  case False
  have "edge_ok env rails (parent_edge_of env own infos (i, p))"
    if i: "i < length (parents c)" "p = parents c ! i" for i p
  proof -
    obtain k t where kt: "continuation_of (env_hash_index env) (env_config env) p = (k, t)" by force
    define rid where "rid = edge_rail_id (parent_edge_of env own infos (i, p))"
    have e: "edge_continuation (parent_edge_of env own infos (i, p)) = k"
      "edge_to_row (parent_edge_of env own infos (i, p)) = t"
      "edge_parent_sha (parent_edge_of env own infos (i, p)) = p"
      by (simp_all add: parent_edge_of_def kt split: prod.splits)
    have w: "waits_for env rails p rid" if nf: "p \<notin> filtered_commits (env_config env)"
    proof (cases i)
      case 0
      with i have "first_parent_of env c = Some p"
        using nf by (auto simp: first_parent_of_def split: list.splits)
      with first 0 show ?thesis by (auto simp: rid_def parent_edge_of_def split: prod.splits)
    next
      case (Suc j)
      have j: "j < length (drop 1 (parents c))" using i Suc by simp
      from list_all2_nthD [OF more j] i Suc have "waits_for env rails p (fst (infos ! j))" by simp
      moreover have "j < length infos" using j list_all2_lengthD [OF more] by simp
      then have "rid = fst (infos ! j)" by (simp add: rid_def parent_edge_of_def Suc split: prod.splits)
      ultimately show ?thesis by simp
    qed
    have pne: "p \<noteq> []" using ne nth_mem [OF i(1)] unfolding i(2) by blast
    show ?thesis
      using continuation_cases [OF kt] w pne by (auto simp: edge_ok.simps e rid_def [symmetric])
  qed
  with False show ?thesis
    by (auto simp: parent_edges_of_def list_all_iff in_set_enumerate_eq)
qed

lemma edge_ok_mono:
  assumes "edge_ok env rails e" and "\<And>p rid. p \<noteq> s \<Longrightarrow> waits_for env rails p rid \<Longrightarrow> waits_for env rails' p rid"
    and "env_hash_index env s \<noteq> None"
  shows "edge_ok env rails' e"
proof (cases "edge_continuation e = UnresolvedPageBoundary")
  case True
  with assms(1) have e: "env_hash_index env (edge_parent_sha e) = None" "edge_parent_sha e \<noteq> []"
    "edge_parent_sha e \<notin> filtered_commits (env_config env)"
    "waits_for env rails (edge_parent_sha e) (edge_rail_id e)" by (simp_all add: edge_ok.simps)
  with assms(3) have "edge_parent_sha e \<noteq> s" by auto
  from assms(2) [OF this e(4)] e True show ?thesis by (simp add: edge_ok.simps)
qed (use assms(1) in \<open>simp add: edge_ok.simps\<close>)

lemma layout_row_ok:
  assumes row: "layout_row env i c st = Inr st'" and env: "env_ok env" and ok: "state_ok env st"
    and hash: "env_hash_index env (sha c) \<noteq> None" and ne: "\<forall>p\<in>set (parents c). p \<noteq> []"
  shows "state_ok env st'"
proof -
  define y where "y = row_y env i"
  have y: "0 \<le> y" using row_y_nonneg [OF env] by (simp add: y_def)
  obtain rails scan rem fin place ms where
    adv: "advance_rails env c y 0 (ls_unsolved st) (start_scan env) = (rails, scan)"
    and sep: "separate_ended env c (map_option major_idx (scan_major scan)) rails = (rem, fin)"
    and pl: "place_node env c y (node_highlight env c scan) (row_prev env (ls_unsolved st)) scan rem
       (ls_next_rail_id st) = Inr place"
    and mp: "merge_parents env \<lparr>pt_x = place_x place, pt_y = y\<rparr> (node_highlight env c scan)
       (row_own env c place) (drop 1 (parents c))
       \<lparr>ms_offset_x = place_offset_x place, ms_unsolved = place_unsolved place,
        ms_links = ls_links st, ms_next_rail_id = place_next_rail_id place, ms_info = []\<rparr> = Inr ms"
    and st': "st' = \<lparr>ls_unsolved = ms_unsolved ms, ls_ended = ls_ended st @ fin, ls_links = ms_links ms,
       ls_rows = ls_rows st @
         [finish_row env i c scan (node_highlight env c scan) place (row_own env c place) (ms_info ms)
           (row_left env (ls_unsolved st) (ms_offset_x ms))],
       ls_margins = ls_margins st @ [row_left env (ls_unsolved st) (ms_offset_x ms)],
       ls_next_rail_id = ms_next_rail_id ms\<rparr>"
    using layout_row_cases [OF row] unfolding y_def by metis
  from ok have ok': "rails_ok (ls_unsolved st)" "list_all link_ok (ls_links st)"
    "list_all (\<lambda>r. rail_ok r \<and> \<not> held r) (ls_ended st)"
    "length (ls_unsolved st) \<le> max_frontier_size (env_config env)" "distinct (rail_ids st)"
    "\<forall>rid\<in>set (rail_ids st). rid < ls_next_rail_id st" "list_all (row_ok env st) (ls_rows st)"
    by (simp_all add: state_ok_def)
  from row_rails_ok [OF adv sep ok'(1) env y] have r: "rails_ok rem"
    "list_all (\<lambda>r. rail_ok r \<and> \<not> held r) fin" "scan_ok env scan"
    "mset (map ph_rail_id (live rem)) + mset (map ph_rail_id fin) = mset (map ph_rail_id (live (ls_unsolved st)))"
    "length rem \<le> length (ls_unsolved st)" by simp_all
  from place_node_facts [OF pl env y r(3)] have p:
    "grown env rem (ls_next_rail_id st) (place_unsolved place) (place_next_rail_id place)"
    "env_offset_x env \<le> place_x place" "env_offset_x env - env_unit_w env \<le> place_offset_x place"
    by simp_all
  have pos: "point_ok \<lparr>pt_x = place_x place, pt_y = y\<rparr>"
    using p(2) y env by (simp add: point_ok_def env_ok_def)
  have "rails_ok (place_unsolved place)"
    using p(1) r(1) by (auto simp: grown_def rails_ok_def list_all_iff held_blank_def)
  then have mg: "merging env \<lparr>ms_offset_x = place_offset_x place, ms_unsolved = place_unsolved place,
        ms_links = ls_links st, ms_next_rail_id = place_next_rail_id place, ms_info = []\<rparr>"
    using p(3) ok'(2) by (simp add: merging_def rails_ok_def)
  from merge_parents_facts [OF mp env pos mg] have m:
    "grown env (place_unsolved place) (place_next_rail_id place) (ms_unsolved ms) (ms_next_rail_id ms)"
    "merging env ms"
    "list_all2 (\<lambda>p info. waits_for env (ms_unsolved ms) p (fst info)) (drop 1 (parents c)) (ms_info ms)"
    by auto
  have g: "grown env rem (ls_next_rail_id st) (ms_unsolved ms) (ms_next_rail_id ms)"
    by (rule grown_trans [OF p(1) m(1)])
  then obtain new where new: "ms_unsolved ms = rem @ new" "ls_next_rail_id st \<le> ms_next_rail_id ms"
    "map ph_rail_id new = [ls_next_rail_id st..<ms_next_rail_id ms]"
    "list_all (\<lambda>r. rail_ok r \<and> \<not> held r) new"
    "new = [] \<or> length (ms_unsolved ms) \<le> max_frontier_size (env_config env)"
    by (auto simp: grown_def)
  have live_new: "live new = new" using new(4) by (auto simp: live_def filter_id_conv list_all_iff)
  have ids: "mset (rail_ids st') = mset (rail_ids st) + mset [ls_next_rail_id st..<ms_next_rail_id ms]"
    using r(4) by (simp add: rail_ids_def st' new(1) live_new flip: new(3))
  then have ids_set: "set (rail_ids st') = set (rail_ids st) \<union> {ls_next_rail_id st..<ms_next_rail_id ms}"
    by (metis atLeastLessThan_upt set_mset_mset set_mset_union)
  have "mset (rail_ids st') = mset (rail_ids st @ [ls_next_rail_id st..<ms_next_rail_id ms])"
    using ids by simp
  then have "distinct (rail_ids st') = distinct (rail_ids st @ [ls_next_rail_id st..<ms_next_rail_id ms])"
    by (rule mset_eq_imp_distinct_iff)
  then have dist: "distinct (rail_ids st')" using ok'(5,6) by auto
  have waits: "waits_for env (ms_unsolved ms) q rid"
    if "q \<noteq> sha c" "waits_for env (ls_unsolved st) q rid" for q rid
    using row_keeps_waiting [OF adv sep env that(2,1)] waits_for_grown [OF _ g] by blast
  have keep: "edge_ok env (ms_unsolved ms) e" if "edge_ok env (ls_unsolved st) e" for e
    by (rule edge_ok_mono [OF that waits hash])
  have "row_ok env st' row" if "row_ok env st row" for row
    using that ids_set keep unfolding row_ok_def list_all_iff by (simp add: st')
  then have old: "list_all (row_ok env st') (ls_rows st)"
    using ok'(7) by (auto simp: list_all_iff)
  have rid: "rid \<in> set (rail_ids st')" if "place_rail place = Some (rid, col)" for rid col
  proof -
    have "live (place_unsolved place) \<noteq> [] \<Longrightarrow> set (live (place_unsolved place)) \<subseteq> set (live (ms_unsolved ms))"
      using m(1) grown_in by auto
    then have "ph_rail_id ` set (live (place_unsolved place)) \<subseteq> set (rail_ids st')"
      using m(1) grown_in by (fastforce simp: rail_ids_def st')
    moreover have "ph_rail_id ` set (live (ls_unsolved st)) \<subseteq> set (rail_ids st')"
      using ids_set by (auto simp: rail_ids_def)
    ultimately show ?thesis using place_rail_known [OF adv pl env y r(3) that] by blast
  qed
  have edges: "list_all (edge_ok env (ms_unsolved ms)) (parent_edges_of env c (row_own env c place) (ms_info ms))"
    using parent_edges_ok [OF _ m(3) ne] waits_for_grown [OF first_parent_waits [OF adv sep pl env y r(3)] m(1)]
    by blast
  have len: "length (ms_unsolved ms) \<le> max_frontier_size (env_config env)"
    using new(1,5) r(5) ok'(4) by auto
  show ?thesis
    unfolding state_ok_def
    using m(2) ok'(3) r(2) len dist ids_set ok'(6) new(2) old rid edges
    by (auto simp: st' rails_ok_def merging_def row_ok_def finish_row_def)
qed

section \<open>A page\<close>

lemma layout_rows_ok:
  assumes "layout_rows env i cs st = Inr st'" and "env_ok env" and "state_ok env st"
    and "\<forall>c\<in>set cs. env_hash_index env (sha c) \<noteq> None \<and> (\<forall>p\<in>set (parents c). p \<noteq> [])"
  shows "state_ok env st'"
  using assms
proof (induction cs arbitrary: i st)
  case (Cons c cs)
  then obtain st1 where 1: "layout_row env i c st = Inr st1" "layout_rows env (Suc i) cs st1 = Inr st'"
    by auto
  from layout_row_ok [OF 1(1) Cons.prems(2,3)] Cons.prems(4) have "state_ok env st1" by simp
  with Cons.IH [OF 1(2) Cons.prems(2)] Cons.prems(4) show ?case by simp
qed simp

lemma layout_row_sha:
  assumes "layout_row env i c st = Inr st'"
  shows "map row_sha (ls_rows st') = map row_sha (ls_rows st) @ [sha c]"
proof (rule layout_row_cases [OF assms])
qed (simp add: finish_row_def)

lemma layout_rows_sha:
  "layout_rows env i cs st = Inr st' \<Longrightarrow> map row_sha (ls_rows st') = map row_sha (ls_rows st) @ map sha cs"
  by (induction cs arbitrary: i st) (auto dest!: layout_row_sha)

lemma hash_index_fold:
  "foldl (\<lambda>m (i, c). m(sha c \<mapsto> i)) m (enumerate n cs) p = Some t \<Longrightarrow>
   m p = Some t \<or> (\<exists>k<length cs. t = n + k \<and> sha (cs ! k) = p)"
proof (induction cs arbitrary: m n)
  case (Cons c cs)
  then have "foldl (\<lambda>m (i, c). m(sha c \<mapsto> i)) (m(sha c \<mapsto> n)) (enumerate (Suc n) cs) p = Some t"
    by (simp only: enumerate_simps foldl_Cons case_prod_conv)
  from Cons.IH [OF this] consider "(m(sha c \<mapsto> n)) p = Some t"
    | k where "k < length cs" "t = Suc n + k" "sha (cs ! k) = p" by blast
  then show ?case
  proof cases
    case 1
    then show ?thesis by (cases "p = sha c") auto
  next
    case 2
    then show ?thesis by (intro disjI2 exI [of _ "Suc k"]) simp
  qed
qed simp

lemma hash_index_Some:
  "hash_index commits p = Some t \<Longrightarrow> t < length commits \<and> sha (commits ! t) = p"
  using hash_index_fold [of Map.empty 0 commits p t] by (auto simp: hash_index_def)

lemma hash_index_fold_dom:
  "m p \<noteq> None \<or> p \<in> sha ` set cs \<Longrightarrow>
   foldl (\<lambda>m (i, c). m(sha c \<mapsto> i)) m (enumerate n cs) p \<noteq> None"
proof (induction cs arbitrary: m n)
  case (Cons c cs)
  have "(m(sha c \<mapsto> n)) p \<noteq> None \<or> p \<in> sha ` set cs" using Cons.prems by auto
  then have "foldl (\<lambda>m (i, c). m(sha c \<mapsto> i)) (m(sha c \<mapsto> n)) (enumerate (Suc n) cs) p \<noteq> None"
    by (rule Cons.IH)
  then show ?case unfolding enumerate_simps foldl_Cons case_prod_conv .
qed simp

lemma hash_index_in: "c \<in> set commits \<Longrightarrow> hash_index commits (sha c) \<noteq> None"
  unfolding hash_index_def by (rule hash_index_fold_dom) simp

lemma check_page_distinct:
  "check_page config seen i cs = Inr () \<Longrightarrow> distinct (map sha cs) \<and> set (map sha cs) \<inter> seen = {}"
  by (induction cs arbitrary: seen i) (auto split: if_splits)

lemma count_parents_not_empty:
  "count_parents s i ps n = Inr m \<Longrightarrow> p \<in> set ps \<Longrightarrow> p \<noteq> []"
  by (induction ps arbitrary: i n) (auto simp: bad_sha_def split: if_splits)

lemma count_commits_not_empty:
  "count_commits i cs n = Inr m \<Longrightarrow> c \<in> set cs \<Longrightarrow> sha c \<noteq> [] \<and> (\<forall>p\<in>set (parents c). p \<noteq> [])"
  by (induction cs arbitrary: i n)
    (auto simp: bad_sha_def split: if_splits dest: count_parents_not_empty)

lemma validated_commits:
  assumes "validate_input_bounds commits refs config checkpoint = Inr u"
  shows "\<exists>n. count_commits 0 commits 0 = Inr n"
proof (cases "count_commits 0 commits 0")
  case (Inl e)
  then have "validate_input_bounds commits refs config checkpoint \<noteq> Inr u"
    by (simp add: validate_input_bounds_def)
  with assms show ?thesis by simp
qed simp

text \<open>A checkpoint a page can start from: what every page leaves.\<close>

definition checkpoint_ok :: "graph_checkpoint \<Rightarrow> bool" where
  "checkpoint_ok cp \<longleftrightarrow>
     list_all (\<lambda>r. 0 \<le> fr_last_x r \<and> 0 \<le> fr_last_y r \<and> fr_rail_id r < cp_next_rail_id cp)
       (cp_frontier cp) \<and>
     distinct (map fr_rail_id (cp_frontier cp))"

fun start_ok :: "graph_checkpoint option \<Rightarrow> bool" where
  "start_ok None = True"
| "start_ok (Some cp) = checkpoint_ok cp"

lemma from_frontier_simps [simp]:
  "held (from_frontier y r) = False" "ph_rail_id (from_frontier y r) = fr_rail_id r"
  "ph_next (from_frontier y r) = fr_next_sha r" "last_x (from_frontier y r) = fr_last_x r"
  "ph_color (from_frontier y r) = fr_color_index r"
  "ph_color_override (from_frontier y r) = fr_color_override r"
  "ph_highlighted (from_frontier y r) = fr_highlighted r"
  by (simp_all add: from_frontier_def Let_def)

lemma from_frontier_ok:
  "0 \<le> fr_last_x r \<Longrightarrow> 0 \<le> fr_last_y r \<Longrightarrow> rail_ok (from_frontier y r)"
  by (auto simp: from_frontier_def Let_def add_point_def rail_ok_def point_ok_def max_def)

lemma live_from_frontier [simp]: "live (map (from_frontier y) rs) = map (from_frontier y) rs"
  by (simp add: live_def filter_id_conv)

lemma layout_start_ok:
  assumes "start_ok checkpoint" and "check_checkpoint config commits checkpoint = Inr ()"
    and "env_config env = config"
  shows "state_ok env (layout_start env checkpoint)"
proof (cases checkpoint)
  case None
  then show ?thesis by (simp add: state_ok_def layout_start_def rails_ok_def rail_ids_def)
next
  case (Some cp)
  with assms have "length (cp_frontier cp) \<le> max_frontier_size config"
    by (auto simp: check_checkpoint_def split: if_splits)
  moreover have "ph_rail_id \<circ> from_frontier (of_nat (env_row_offset env) * env_unit_h env) = fr_rail_id"
    by (rule ext) simp
  ultimately show ?thesis
    using assms Some
    by (auto simp: state_ok_def layout_start_def rails_ok_def rail_ids_def checkpoint_ok_def
        list_all_iff held_blank_def intro!: from_frontier_ok)
qed

lemma validated_env:
  assumes "validate_config config = Inr ()" and "env_config env = config"
  shows "env_ok env"
  using assms
  by (auto simp: validate_config_def env_ok_def env_unit_w_def env_unit_h_def env_offset_x_def split: if_splits)

lemma layout_env_simps [simp]:
  "env_config (layout_env_of commits refs head config checkpoint) = config"
  "env_hash_index (layout_env_of commits refs head config checkpoint) = hash_index commits"
  "env_head (layout_env_of commits refs head config checkpoint) = head"
  "env_refs (layout_env_of commits refs head config checkpoint) = refs_by_commit refs"
  by (simp_all add: layout_env_of_def Let_def)

lemma compute_cases:
  assumes "compute_graph_layout commits refs head config checkpoint = Inr layout"
  obtains st where
    "validate_config config = Inr ()" "validate_input_bounds commits refs config checkpoint = Inr ()"
    "check_checkpoint config commits checkpoint = Inr ()" "check_page config {} 0 commits = Inr ()"
    "layout_rows (layout_env_of commits refs head config checkpoint) 0 commits
       (layout_start (layout_env_of commits refs head config checkpoint) checkpoint) = Inr st"
    "layout = layout_finish (layout_env_of commits refs head config checkpoint) commits checkpoint st"
proof -
  let ?env = "layout_env_of commits refs head config checkpoint"
  have "\<exists>u. validate_config config = Inr u \<and>
      (\<exists>u. validate_input_bounds commits refs config checkpoint = Inr u \<and>
        (\<exists>u. check_checkpoint config commits checkpoint = Inr u \<and>
          (\<exists>u. check_page config {} 0 commits = Inr u \<and>
            (\<exists>st. layout_rows ?env 0 commits (layout_start ?env checkpoint) = Inr st \<and>
              Inr (layout_finish ?env commits checkpoint st) = (Inr layout :: graph_error + graph_layout)))))"
    using assms by (simp only: compute_graph_layout_def Let_def and_then_Inr)
  then show ?thesis by (elim exE conjE) (rule that, auto)
qed

text \<open>The state after the last row of a page.\<close>

lemma computed_state:
  assumes "compute_graph_layout commits refs head config checkpoint = Inr layout" and "start_ok checkpoint"
  obtains st where
    "layout = layout_finish (layout_env_of commits refs head config checkpoint) commits checkpoint st"
    "state_ok (layout_env_of commits refs head config checkpoint) st"
    "env_ok (layout_env_of commits refs head config checkpoint)"
    "map row_sha (ls_rows st) = map sha commits" "distinct (map sha commits)"
    "\<And>c p. c \<in> set commits \<Longrightarrow> p \<in> set (parents c) \<Longrightarrow> p \<noteq> []"
proof -
  let ?env = "layout_env_of commits refs head config checkpoint"
  obtain st where st: "validate_config config = Inr ()"
    "validate_input_bounds commits refs config checkpoint = Inr ()"
    "check_checkpoint config commits checkpoint = Inr ()" "check_page config {} 0 commits = Inr ()"
    "layout_rows ?env 0 commits (layout_start ?env checkpoint) = Inr st"
    "layout = layout_finish ?env commits checkpoint st"
    using compute_cases [OF assms(1)] .
  have env: "env_ok ?env" by (rule validated_env [OF st(1)]) simp
  obtain n where n: "count_commits 0 commits 0 = Inr n"
    using validated_commits [OF st(2)] ..
  have ne: "p \<noteq> []" if "c \<in> set commits" "p \<in> set (parents c)" for c p
    using count_commits_not_empty [OF n that(1)] that(2) by blast
  have "state_ok ?env (layout_start ?env checkpoint)" by (rule layout_start_ok [OF assms(2) st(3)]) simp
  with layout_rows_ok [OF st(5) env] have ok: "state_ok ?env st" using hash_index_in ne by simp
  have "ls_rows (layout_start ?env checkpoint) = []" by (simp add: layout_start_def)
  with layout_rows_sha [OF st(5)] have sha: "map row_sha (ls_rows st) = map sha commits" by simp
  have dist: "distinct (map sha commits)" using check_page_distinct [OF st(4)] by (rule conjunct1)
  show ?thesis by (rule that [OF st(6) ok env sha dist ne])
qed

lemma close_rail_ok:
  assumes "rail_ok r" and "\<not> held r" and "env_ok env"
  shows "\<exists>r'. close_rail env n r = to_graph_path r' \<and> rail_ok r' \<and> \<not> held r' \<and> ph_rail_id r' = ph_rail_id r"
proof -
  have y: "0 \<le> (of_nat (env_row_offset env + n) - 1 / 2) * env_unit_h env + env_half_h env"
    using assms(3) by (simp add: env_half_h_def env_ok_def algebra_simps)
  have "0 \<le> last_x r" using assms(1) by (simp add: rail_ok_def)
  from rail_ok_moves(3) [OF assms(1,2) this y, of "env_half_h env"] assms(2) show ?thesis
    by (auto simp: close_rail_def Let_def)
qed

text \<open>Every path of a page is a rail in order, and the paths' ids are the state's.\<close>

lemma layout_paths_rails:
  assumes "state_ok env st" and "env_ok env"
  shows "\<exists>rails. lay_paths (layout_finish env commits checkpoint st) = map to_graph_path rails \<and>
    list_all (\<lambda>r. rail_ok r \<and> \<not> held r) rails \<and> map ph_rail_id rails =
      map ph_rail_id (ls_ended st @ live (ls_unsolved st))"
proof -
  have "\<exists>rails. map (close_rail env n) rs = map to_graph_path rails \<and>
      list_all (\<lambda>r. rail_ok r \<and> \<not> held r) rails \<and> map ph_rail_id rails = map ph_rail_id rs"
    if "list_all (\<lambda>r. rail_ok r \<and> \<not> held r) rs" for rs n
    using that
  proof (induction rs)
    case (Cons r rs)
    then obtain rails where "map (close_rail env n) rs = map to_graph_path rails"
      "list_all (\<lambda>r. rail_ok r \<and> \<not> held r) rails" "map ph_rail_id rails = map ph_rail_id rs" by auto
    moreover obtain r' where "close_rail env n r = to_graph_path r'" "rail_ok r'" "\<not> held r'"
      "ph_rail_id r' = ph_rail_id r" using close_rail_ok [OF _ _ assms(2)] Cons.prems by auto
    ultimately show ?case by (intro exI [of _ "r' # rails"]) simp
  qed simp
  moreover have "list_all (\<lambda>r. rail_ok r \<and> \<not> held r) (live (ls_unsolved st))"
    using assms(1) by (auto simp: state_ok_def rails_ok_def list_all_iff)
  ultimately obtain rails where rails: "map (close_rail env (length commits)) (live (ls_unsolved st)) =
      map to_graph_path rails" "list_all (\<lambda>r. rail_ok r \<and> \<not> held r) rails"
    "map ph_rail_id rails = map ph_rail_id (live (ls_unsolved st))" by blast
  show ?thesis
    using rails assms(1)
    by (intro exI [of _ "ls_ended st @ rails"]) (simp add: layout_finish_def live_def [symmetric] state_ok_def)
qed

section \<open>The verifier accepts\<close>

lemma verify_shas_ok:
  "map row_sha rows = map sha cs \<Longrightarrow> distinct (map sha cs) \<Longrightarrow> set (map sha cs) \<inter> seen = {} \<Longrightarrow>
   verify_shas i seen rows cs = Inr ()"
  by (induction i seen rows cs rule: verify_shas.induct) auto

lemma first_error_none: "first_error f xs = Inr () \<longleftrightarrow> list_all (\<lambda>x. f x = None) xs"
  by (induction xs) (auto split: option.split)

lemma verify_point_none [simp]: "verify_point p = None \<longleftrightarrow> point_ok p"
  by (auto simp: verify_point_def point_ok_def)

lemma verify_row_ok:
  assumes "row_ok env st row" and "set (rail_ids st) \<subseteq> known"
    and "env_hash_index env = hash_index commits" and "map row_sha rows = map sha commits"
  shows "verify_row rows known (i, row) = None" and "verify_row_edges rows (i, row) = None"
proof -
  show "verify_row rows known (i, row) = None"
    using assms(1,2) by (auto simp: verify_row_def row_ok_def split: option.split)
  have "verify_edge rows i e = None" if "e \<in> set (parent_edges row)" for e
  proof (cases "edge_continuation e = Resolved")
    case True
    have "edge_ok env (ls_unsolved st) e" using assms(1) that by (simp add: row_ok_def list_all_iff)
    with True assms(3) obtain t where t: "edge_to_row e = Some t" "hash_index commits (edge_parent_sha e) = Some t"
      by (auto simp: edge_ok.simps)
    from hash_index_Some [OF t(2)] have "t < length commits" "sha (commits ! t) = edge_parent_sha e" by simp_all
    moreover have "length rows = length commits" using assms(4) by (rule map_eq_imp_length_eq)
    moreover have "map row_sha rows ! t = map sha commits ! t" by (simp only: assms(4))
    ultimately show ?thesis using t(1) by (simp add: verify_edge_def)
  qed (simp add: verify_edge_def)
  then have "first_error (verify_edge rows i) (parent_edges row) = Inr ()"
    by (auto simp: first_error_none list_all_iff)
  then show "verify_row_edges rows (i, row) = None" by (simp add: verify_row_edges_def)
qed

lemma checkpoint_of_ok:
  assumes "state_ok env st"
  shows "checkpoint_ok (checkpoint_of env commits checkpoint st)"
proof -
  have "fr_rail_id \<circ> frontier_of env = ph_rail_id" by (rule ext) (simp add: frontier_of_def)
  then show ?thesis
    using assms
    by (auto simp: checkpoint_ok_def checkpoint_of_def live_def [symmetric] state_ok_def rail_ids_def
        rails_ok_def list_all_iff frontier_of_def rail_ok_def)
qed


definition demo_commit :: "string \<Rightarrow> string list \<Rightarrow> commit_summary" where
  "demo_commit s ps =
     \<lparr>sha = s, parents = ps, author_name = [], author_email = [], author_date = [], subject = []\<rparr>"

definition demo_config :: graph_config where
  "demo_config =
     \<lparr>max_frontier_size = 4, max_rows = 9, max_refs = 9, max_total_bytes = 99,
      unit_x = Fin 12, unit_y = Fin 1, offset_x = Fin 10, shallow_roots = {}, filtered_commits = {},
      hold_root_lanes = False\<rparr>"

text \<open>A merge \<open>c\<close> of \<open>b\<close> and \<open>a\<close>, then \<open>b\<close>; \<open>a\<close> is left to the next page.\<close>

definition demo_page :: "commit_summary list" where
  "demo_page = [demo_commit ''c'' [''b'', ''a''], demo_commit ''b'' [''a'']]"

definition demo_layout :: graph_layout where
  "demo_layout =
     (case compute_graph_layout demo_page [] (Some ''c'') demo_config None of
        Inr l \<Rightarrow> l
      | Inl e \<Rightarrow> \<lparr>lay_rows = [], lay_paths = [], lay_links = [], commit_left_margin = [],
          lay_checkpoint = None, is_fallback = False\<rparr>)"

lemma demo_page_ok: "\<not> isl (compute_graph_layout demo_page [] (Some ''c'') demo_config None)"
  by code_simp

lemma demo_layout_eq: "compute_graph_layout demo_page [] (Some ''c'') demo_config None = Inr demo_layout"
  using demo_page_ok by (auto simp: demo_layout_def split: sum.split)


text \<open>
  Each rail is drawn once, as a path that goes strictly down: the ids of the paths are
  distinct, and the points are in the order that \<open>clip_y\<close> searches.
\<close>

theorem layout_paths_descend:
  assumes "compute_graph_layout commits refs head config checkpoint = Inr layout"
    and "start_ok checkpoint"
  shows "list_all (\<lambda>p. path_points p \<noteq> [] \<and> descending (path_points p)) (lay_paths layout) \<and>
    distinct (map path_rail_id (lay_paths layout))"
proof -
  let ?env = "layout_env_of commits refs head config checkpoint"
  obtain st where st: "layout = layout_finish ?env commits checkpoint st" "state_ok ?env st" "env_ok ?env"
    using computed_state [OF assms] by metis
  obtain rails where rails: "lay_paths layout = map to_graph_path rails"
    "list_all (\<lambda>r. rail_ok r \<and> \<not> held r) rails"
    "map ph_rail_id rails = map ph_rail_id (ls_ended st @ live (ls_unsolved st))"
    using layout_paths_rails [OF st(2,3)] st(1) by blast
  have "path_rail_id \<circ> to_graph_path = ph_rail_id" by (rule ext) (simp add: to_graph_path_def)
  then have "map path_rail_id (lay_paths layout) = map ph_rail_id (ls_ended st @ live (ls_unsolved st))"
    by (simp add: rails(1) rails(3))
  moreover have "distinct (map ph_rail_id (ls_ended st @ live (ls_unsolved st)))"
    using st(2) by (auto simp: state_ok_def rail_ids_def)
  ultimately show ?thesis
    using rails(2) by (auto simp: list_all_iff rails(1) to_graph_path_def rail_ok_def)
qed

theorem layout_paths_descend_witness:
  "list_all (\<lambda>p. path_points p \<noteq> [] \<and> descending (path_points p)) (lay_paths demo_layout) \<and>
   distinct (map path_rail_id (lay_paths demo_layout))"
  by (rule layout_paths_descend [OF demo_layout_eq]) simp

text \<open>
  C1.  An edge that leaves the page is never lost: for every edge marked as unresolved the
  checkpoint holds a rail of the edge's id that waits for exactly that parent.  The checkpoint
  never holds more rails than the limit.
\<close>

definition carried_on :: "graph_checkpoint \<Rightarrow> parent_edge \<Rightarrow> bool" where
  "carried_on cp e \<longleftrightarrow>
     (\<exists>rail\<in>set (cp_frontier cp). fr_next_sha rail = edge_parent_sha e \<and> fr_rail_id rail = edge_rail_id e)"

theorem unresolved_edges_continue:
  assumes "compute_graph_layout commits refs head config checkpoint = Inr layout"
    and "start_ok checkpoint" and "lay_checkpoint layout = Some cp"
    and "row \<in> set (lay_rows layout)" and "e \<in> set (parent_edges row)"
    and "edge_continuation e = UnresolvedPageBoundary"
  shows "carried_on cp e \<and> length (cp_frontier cp) \<le> max_frontier_size config"
proof -
  let ?env = "layout_env_of commits refs head config checkpoint"
  obtain st where st: "layout = layout_finish ?env commits checkpoint st" "state_ok ?env st" "env_ok ?env"
    using computed_state [OF assms(1,2)] by metis
  from assms(4) have "row \<in> set (ls_rows st)" by (simp add: st(1) layout_finish_def)
  with st(2) assms(5) have "edge_ok ?env (ls_unsolved st) e"
    by (auto simp: state_ok_def row_ok_def list_all_iff)
  with assms(6) obtain r where r: "r \<in> set (ls_unsolved st)" "\<not> held r" "ph_next r = edge_parent_sha e"
    "ph_rail_id r = edge_rail_id e"
    by (auto simp: edge_ok.simps waits_for_def)
  have cp: "cp = checkpoint_of ?env commits checkpoint st"
    using assms(3) by (simp add: st(1) layout_finish_def)
  have "frontier_of ?env r \<in> set (cp_frontier cp)" using r by (simp add: cp checkpoint_of_def)
  then have "carried_on cp e"
    unfolding carried_on_def by (rule bexI [rotated]) (simp add: frontier_of_def r)
  moreover have "length (cp_frontier cp) \<le> length (ls_unsolved st)"
    by (simp add: cp checkpoint_of_def)
  ultimately show ?thesis using st(2) by (simp add: state_ok_def)
qed

definition demo_checkpoint :: graph_checkpoint where
  "demo_checkpoint = the (lay_checkpoint demo_layout)"

lemma demo_checkpoint_eq: "lay_checkpoint demo_layout = Some demo_checkpoint"
  by code_simp

lemma demo_edge:
  "length (lay_rows demo_layout) = 2 \<and> length (parent_edges (lay_rows demo_layout ! 1)) = 1 \<and>
   edge_continuation (parent_edges (lay_rows demo_layout ! 1) ! 0) = UnresolvedPageBoundary"
  by code_simp

theorem unresolved_edges_continue_witness:
  "carried_on demo_checkpoint (parent_edges (lay_rows demo_layout ! 1) ! 0) \<and>
   length (cp_frontier demo_checkpoint) \<le> max_frontier_size demo_config"
proof (rule unresolved_edges_continue [OF demo_layout_eq _ demo_checkpoint_eq])
  show "lay_rows demo_layout ! 1 \<in> set (lay_rows demo_layout)" using demo_edge by simp
  show "parent_edges (lay_rows demo_layout ! 1) ! 0 \<in> set (parent_edges (lay_rows demo_layout ! 1))"
    using demo_edge by simp
qed (use demo_edge in simp_all)

section \<open>Colours\<close>

lemma mask_free_iff: "i < 32 \<Longrightarrow> mask_free m i \<longleftrightarrow> \<not> bit m i"
  for m :: "32 word"
  by (simp add: mask_free_def bit_iff_and_push_bit_not_eq_0)

lemma bit_single: "i < 32 \<Longrightarrow> bit (2 ^ c :: 32 word) i \<longleftrightarrow> i = c"
  by (auto simp: bit_exp_iff)

lemma color_mask_fold:
  "i < 32 \<Longrightarrow>
   bit (foldl (\<lambda>mask r. if ph_color r < 32 then mask OR push_bit (ph_color r) 1 else mask) m rails) i \<longleftrightarrow>
   bit m i \<or> i \<in> ph_color ` set rails" for m :: "32 word"
  by (induction rails arbitrary: m) (auto simp: bit_or_iff bit_single)

lemma color_mask_bit: "i < 32 \<Longrightarrow> mask_free (color_mask rails) i \<longleftrightarrow> i \<notin> ph_color ` set rails"
  by (simp add: mask_free_iff color_mask_def color_mask_fold)

lemma palette_length [simp]: "length COLOR_PALETTE = 12"
  by (simp add: COLOR_PALETTE_def)

text \<open>
  A new rail gets a colour of the palette that no open rail has, as long as one is left, and
  the preferred one when that is free.
\<close>

theorem new_color_free:
  "let c = pick_color (color_mask rails) preferred; used = ph_color ` set rails in
   c < length COLOR_PALETTE \<and> (c \<in> used \<longleftrightarrow> {0..<length COLOR_PALETTE} \<subseteq> used) \<and>
   (case preferred of
      Some p \<Rightarrow> if p < length COLOR_PALETTE \<and> p \<notin> used then c = p else True
    | None \<Rightarrow> True)"
proof -
  define used where "used = ph_color ` set rails"
  have free: "mask_free (color_mask rails) i \<longleftrightarrow> i \<notin> used" if "i < 12" for i
    using that color_mask_bit [of i rails] by (simp add: used_def)
  define first where "first = (case find (mask_free (color_mask rails)) [0..<12] of Some i \<Rightarrow> i | None \<Rightarrow> 0)"
  have first: "first < 12 \<and> (first \<in> used \<longleftrightarrow> {0..<12} \<subseteq> used)"
  proof (cases "find (mask_free (color_mask rails)) [0..<12]")
    case None
    then have "{0..<12} \<subseteq> used" using free by (auto simp: find_None_iff)
    then show ?thesis by (auto simp: first_def None)
  next
    case (Some i)
    then have "i < 12" "mask_free (color_mask rails) i" by (auto simp: find_Some_iff)
    then show ?thesis using free by (auto simp: first_def Some)
  qed
  have "pick_color (color_mask rails) preferred =
      (case preferred of Some p \<Rightarrow> if p < 12 \<and> p \<notin> used then p else first | None \<Rightarrow> first)"
    using free by (auto simp: pick_color_def first_def Let_def split: option.split)
  then show ?thesis
    using first by (auto simp: Let_def used_def [symmetric] split: option.split)
qed

end
