(* ===== verification/Graph_Paging.thy ===== *)
theory Graph_Paging
  imports Graph_Correct
begin

text \<open>
  Pages fit together: laying out a history page by page, each from the checkpoint of the one
  before, gives the nodes, lanes, links and margins of laying it out at once.
\<close>

section \<open>Rails that look the same\<close>

text \<open>What the layout reads of a rail: everything but the points drawn so far and their height.\<close>

definition rail_same :: "path_helper \<Rightarrow> path_helper \<Rightarrow> bool" where
  "rail_same r r' \<longleftrightarrow>
     held r' = held r \<and> ph_next r' = ph_next r \<and> ph_color r' = ph_color r \<and>
     ph_color_override r' = ph_color_override r \<and> ph_highlighted r' = ph_highlighted r \<and>
     ph_rail_id r' = ph_rail_id r \<and> last_x r' = last_x r"

abbreviation same_rails :: "path_helper list \<Rightarrow> path_helper list \<Rightarrow> bool" where
  "same_rails \<equiv> list_all2 rail_same"

lemma rail_same_refl [simp]: "rail_same r r"
  by (simp add: rail_same_def)

lemma same_rails_refl [simp]: "same_rails rs rs"
  by (rule list_all2_refl) simp

lemma row_move_kept [simp]:
  "ph_color_override (pass_row x y h r) = ph_color_override r"
  "ph_color_override (goto_row x y h r) = ph_color_override r"
  "ph_color_override (end_row x y h r) = ph_color_override r"
  "ph_highlighted (pass_row x y h r) = ph_highlighted r"
  "ph_highlighted (goto_row x y h r) = ph_highlighted r"
  "ph_highlighted (end_row x y h r) = ph_highlighted r"
  by (auto simp: pass_row_def goto_row_def end_row_def Let_def)

text \<open>The same page at another place: other rows are on the page, and it starts elsewhere.\<close>

definition env_at :: "layout_env \<Rightarrow> (string \<Rightarrow> nat option) \<Rightarrow> nat \<Rightarrow> layout_env" where
  "env_at env index k = env\<lparr>env_hash_index := index, env_row_offset := k\<rparr>"

lemma env_at_fields [simp]:
  "env_config (env_at env index k) = env_config env" "env_refs (env_at env index k) = env_refs env"
  "env_head (env_at env index k) = env_head env"
  "env_has_head_reference (env_at env index k) = env_has_head_reference env"
  "env_hash_index (env_at env index k) = index" "env_row_offset (env_at env index k) = k"
  by (simp_all add: env_at_def)

lemma env_at_units [simp]:
  "env_unit_w (env_at env index k) = env_unit_w env" "env_half_w (env_at env index k) = env_half_w env"
  "env_unit_h (env_at env index k) = env_unit_h env" "env_half_h (env_at env index k) = env_half_h env"
  "env_offset_x (env_at env index k) = env_offset_x env"
  "lane_of (env_at env index k) = lane_of env"
  "is_head_commit (env_at env index k) = is_head_commit env"
  "first_parent_of (env_at env index k) = first_parent_of env"
  unfolding fun_eq_iff env_unit_w_def env_half_w_def env_unit_h_def env_half_h_def
      env_offset_x_def lane_of_def is_head_commit_def first_parent_of_def env_at_fields
  by simp_all

lemmas env_at_simps = env_at_fields env_at_units

lemma start_scan_env_at [simp]: "start_scan (env_at env index k) = start_scan env"
  unfolding start_scan_def env_at_simps ..

lemma node_highlight_env_at [simp]: "node_highlight (env_at env index k) = node_highlight env"
  unfolding fun_eq_iff node_highlight_def env_at_simps by simp

lemma row_own_env_at [simp]: "row_own (env_at env index k) = row_own env"
  unfolding fun_eq_iff row_own_def env_at_simps by simp

lemma row_prev_env_at [simp]: "row_prev (env_at env index k) = row_prev env"
  unfolding fun_eq_iff row_prev_def env_at_simps by simp

lemma row_left_env_at [simp]: "row_left (env_at env index k) = row_left env"
  unfolding fun_eq_iff row_left_def env_at_simps by simp

lemma start_branch_env_at [simp]: "start_branch (env_at env index k) = start_branch env"
  unfolding fun_eq_iff start_branch_def env_at_simps by simp

lemma place_node_env_at [simp]: "place_node (env_at env index k) = place_node env"
  unfolding fun_eq_iff place_node_def env_at_simps start_branch_env_at by simp

lemma merge_parent_env_at [simp]: "merge_parent (env_at env index k) = merge_parent env"
  unfolding fun_eq_iff merge_parent_def env_at_simps by simp

lemma advance_rail_env_at [simp]: "advance_rail (env_at env index k) = advance_rail env"
  unfolding fun_eq_iff advance_rail_def env_at_simps by simp

lemma advance_rails_env_at [simp]:
  "advance_rails (env_at env index k) c y i rails scan = advance_rails env c y i rails scan"
  by (induction rails arbitrary: i scan) (auto split: prod.split)

lemma separate_rails_env_at [simp]:
  "separate_rails (env_at env index k) c m i rails = separate_rails env c m i rails"
  by (induction rails arbitrary: i) (auto split: prod.split)

lemma separate_ended_env_at [simp]: "separate_ended (env_at env index k) = separate_ended env"
  by (simp add: separate_ended_def fun_eq_iff)

lemma merge_parents_env_at [simp]:
  "merge_parents (env_at env index k) pos hl own ps scan = merge_parents env pos hl own ps scan"
  by (induction ps arbitrary: scan) (auto intro!: arg_cong [where f = "and_then _"])

section \<open>A row over rails that look the same\<close>

lemma rail_same_held [simp]: "rail_same (held_lane x y) (held_lane x z)"
  by (simp add: rail_same_def held_lane_def)

lemma advance_rail_same:
  assumes "rail_same r r'"
  shows "snd (advance_rail env c y i r' scan) = snd (advance_rail env c y i r scan) \<and>
    rail_same (fst (advance_rail env c y i r scan)) (fst (advance_rail env c y i r' scan))"
  using assms
  by (auto simp: advance_rail_def Let_def rail_same_def split: option.split)

lemma advance_rails_same:
  assumes "same_rails rs rs'"
  shows "snd (advance_rails env c y i rs' scan) = snd (advance_rails env c y i rs scan) \<and>
    same_rails (fst (advance_rails env c y i rs scan)) (fst (advance_rails env c y i rs' scan))"
  using assms
proof (induction arbitrary: i scan rule: list_all2_induct)
  case (Cons r rs r' rs')
  from advance_rail_same [OF Cons.hyps(1), of env c y i scan] obtain a a' scan' where
    a: "advance_rail env c y i r scan = (a, scan')" "advance_rail env c y i r' scan = (a', scan')"
    "rail_same a a'" by (metis prod.collapse)
  from Cons.IH [of "Suc i" scan'] obtain b b' scan'' where
    b: "advance_rails env c y (Suc i) rs scan' = (b, scan'')"
    "advance_rails env c y (Suc i) rs' scan' = (b', scan'')" "same_rails b b'" by (metis prod.collapse)
  show ?case by (simp add: a b)
qed simp

lemma separate_rails_same:
  assumes "same_rails rs rs'"
  shows "same_rails (fst (separate_rails env c m i rs)) (fst (separate_rails env c m i rs'))"
  using assms
proof (induction arbitrary: i rule: list_all2_induct)
  case (Cons r rs r' rs')
  obtain a e where a: "separate_rails env c m (Suc i) rs = (a, e)" by force
  obtain a' e' where a': "separate_rails env c m (Suc i) rs' = (a', e')" by force
  from Cons.IH [of "Suc i"] have "same_rails a a'" by (simp add: a a')
  moreover have "held r' = held r" "ph_next r' = ph_next r" "last_x r' = last_x r"
    using Cons.hyps(1) by (simp_all add: rail_same_def)
  ultimately show ?case using Cons.hyps(1) by (auto simp: a a')
qed simp

lemma separate_ended_same:
  assumes "same_rails rs rs'"
  shows "same_rails (fst (separate_ended env c m rs)) (fst (separate_ended env c m rs'))"
proof -
  have "list_ex held rs = list_ex held rs'"
    using assms by (induction rule: list_all2_induct) (auto simp: rail_same_def)
  then show ?thesis using assms separate_rails_same [OF assms] by (auto simp: separate_ended_def)
qed

lemma color_mask_same: "same_rails rs rs' \<Longrightarrow> color_mask rs' = color_mask rs"
proof -
  have "foldl (\<lambda>mask r. if ph_color r < 32 then mask OR push_bit (ph_color r) 1 else mask) m rs' =
      foldl (\<lambda>mask r. if ph_color r < 32 then mask OR push_bit (ph_color r) 1 else mask) m rs"
    if "same_rails rs rs'" for m :: "32 word"
    using that by (induction arbitrary: m rule: list_all2_induct) (auto simp: rail_same_def)
  then show "same_rails rs rs' \<Longrightarrow> color_mask rs' = color_mask rs" by (simp add: color_mask_def)
qed

lemma same_rails_empty: "same_rails rs rs' \<Longrightarrow> rs' = [] \<longleftrightarrow> rs = []"
  by (auto simp: list_all2_lengthD)

lemma same_rails_last: "same_rails rs rs' \<Longrightarrow> rs \<noteq> [] \<Longrightarrow> last_x (last rs') = last_x (last rs)"
  by (induction rule: list_all2_induct) (auto simp: rail_same_def dest: same_rails_empty)

lemma place_node_same:
  assumes "same_rails rem rem'" and "place_node env c y hl prev scan rem n = Inr place"
  shows "\<exists>rails'. place_node env c y hl prev scan rem' n = Inr (place\<lparr>place_unsolved := rails'\<rparr>) \<and>
    same_rails (place_unsolved place) rails'"
  using assms(2) list_all2_lengthD [OF assms(1)] color_mask_same [OF assms(1)]
    same_rails_empty [OF assms(1)] assms(1)
  by (intro exI [of _ "rem' @ drop (length rem) (place_unsolved place)"])
    (auto simp: place_node_def start_branch_def Let_def split: option.splits if_splits
      intro!: list_all2_appendI)

text \<open>Two scans over the further parents: the second has only the links of its own page.\<close>

definition merge_same :: "graph_link list \<Rightarrow> merge_scan \<Rightarrow> merge_scan \<Rightarrow> bool" where
  "merge_same links0 s s' \<longleftrightarrow>
     ms_offset_x s' = ms_offset_x s \<and> same_rails (ms_unsolved s) (ms_unsolved s') \<and>
     ms_links s = links0 @ ms_links s' \<and> ms_next_rail_id s' = ms_next_rail_id s \<and> ms_info s' = ms_info s"

lemma find_same:
  assumes "same_rails rs rs'"
  shows "(case find (\<lambda>r. ph_next r = p) rs of
      None \<Rightarrow> find (\<lambda>r. ph_next r = p) rs' = None
    | Some r \<Rightarrow> (\<exists>r'. find (\<lambda>r. ph_next r = p) rs' = Some r' \<and> rail_same r r'))"
  using assms
proof (induction rule: list_all2_induct)
  case (Cons r rs r' rs')
  have n: "ph_next r' = ph_next r" using Cons.hyps(1) by (simp add: rail_same_def)
  show ?case
  proof (cases "ph_next r = p")
    case True
    with n Cons.hyps(1) show ?thesis by simp
  next
    case False
    with n have "find (\<lambda>r. ph_next r = p) (r # rs) = find (\<lambda>r. ph_next r = p) rs"
      "find (\<lambda>r. ph_next r = p) (r' # rs') = find (\<lambda>r. ph_next r = p) rs'" by simp_all
    then show ?thesis using Cons.IH by (simp only:)
  qed
qed simp

lemma merge_parent_same:
  assumes "merge_same links0 s s'" and "merge_parent env pos hl own p s = Inr t"
  shows "\<exists>t'. merge_parent env pos hl own p s' = Inr t' \<and> merge_same links0 t t'"
proof -
  from assms(1) have same: "same_rails (ms_unsolved s) (ms_unsolved s')" by (simp add: merge_same_def)
  note f = find_same [OF same, of p]
  show ?thesis
  proof (cases "find (\<lambda>r. ph_next r = p) (ms_unsolved s)")
    case None
    with f have "find (\<lambda>r. ph_next r = p) (ms_unsolved s') = None" by simp
    with assms None list_all2_lengthD [OF same] color_mask_same [OF same] show ?thesis
      by (auto simp: merge_parent_def merge_same_def Let_def split: if_splits intro!: list_all2_appendI)
  next
    case (Some r)
    with f obtain r' where "find (\<lambda>r. ph_next r = p) (ms_unsolved s') = Some r'" "rail_same r r'" by auto
    with assms Some show ?thesis
      by (auto simp: merge_parent_def merge_same_def Let_def rail_same_def split: if_splits)
  qed
qed

lemma merge_parents_same:
  "merge_same links0 s s' \<Longrightarrow> merge_parents env pos hl own ps s = Inr t \<Longrightarrow>
   \<exists>t'. merge_parents env pos hl own ps s' = Inr t' \<and> merge_same links0 t t'"
proof (induction ps arbitrary: s s')
  case (Cons p ps)
  then obtain s1 where 1: "merge_parent env pos hl own p s = Inr s1"
    "merge_parents env pos hl own ps s1 = Inr t" by auto
  from merge_parent_same [OF Cons.prems(1) 1(1)] obtain s1' where
    "merge_parent env pos hl own p s' = Inr s1'" "merge_same links0 s1 s1'" by blast
  with Cons.IH [OF this(2) 1(2)] show ?case by auto
qed simp

section \<open>No lane is held\<close>

lemma advance_rails_held:
  assumes "advance_rails env c y i rails scan = (rails', scan')" and "list_all (\<lambda>r. \<not> held r) rails"
  shows "list_all (\<lambda>r. \<not> held r) rails'"
  using assms
proof (induction rails arbitrary: i scan rails' scan')
  case (Cons r rails)
  obtain r1 scan1 where 1: "advance_rail env c y i r scan = (r1, scan1)" by force
  obtain rails2 scan2 where 2: "advance_rails env c y (Suc i) rails scan1 = (rails2, scan2)" by force
  have "\<not> held r1"
    using 1 Cons.prems(2) by (auto simp: advance_rail_def Let_def split: option.splits if_splits)
  moreover have "list_all (\<lambda>r. \<not> held r) rails2" using Cons.IH [OF 2] Cons.prems(2) by simp
  ultimately show ?case using Cons.prems(1) by (auto simp: 1 2)
qed simp

lemma place_node_held:
  "place_node env c y hl prev scan rem n = Inr place \<Longrightarrow> list_all (\<lambda>r. \<not> held r) rem \<Longrightarrow>
   list_all (\<lambda>r. \<not> held r) (place_unsolved place)"
  by (auto simp: place_node_def start_branch_def Let_def new_start_def split: option.splits if_splits)

lemma merge_parents_held:
  "merge_parents env pos hl own ps s = Inr t \<Longrightarrow> list_all (\<lambda>r. \<not> held r) (ms_unsolved s) \<Longrightarrow>
   list_all (\<lambda>r. \<not> held r) (ms_unsolved t)"
proof (induction ps arbitrary: s)
  case (Cons p ps)
  then obtain s1 where 1: "merge_parent env pos hl own p s = Inr s1"
    "merge_parents env pos hl own ps s1 = Inr t" by auto
  then have "list_all (\<lambda>r. \<not> held r) (ms_unsolved s1)"
    using Cons.prems(2)
    by (auto simp: merge_parent_def Let_def new_merge_def split: option.splits if_splits)
  with Cons.IH [OF 1(2)] show ?case .
qed simp

section \<open>Rows and pages\<close>

text \<open>A row without what depends on its page: its index there, and which parents are on it.\<close>

definition edge_view :: "parent_edge \<Rightarrow> parent_edge" where
  "edge_view e = e\<lparr>edge_to_row := None, edge_continuation := Terminated\<rparr>"

definition row_view :: "graph_row \<Rightarrow> graph_row" where
  "row_view row = row\<lparr>row_index := 0, parent_edges := map edge_view (parent_edges row)\<rparr>"

lemma edge_view_of:
  "edge_view (parent_edge_of (env_at env index k) own info ip) = edge_view (parent_edge_of env own info ip)"
  by (auto simp: parent_edge_of_def edge_view_def split: prod.split)

lemma row_view_finish:
  assumes "env_row_offset env + i = k + j"
  shows "row_view (finish_row (env_at env index k) j c scan hl (place\<lparr>place_unsolved := rails\<rparr>) own info left) =
    row_view (finish_row env i c scan hl place own info left)"
proof -
  have "map edge_view (parent_edges_of (env_at env index k) c own info) =
      map edge_view (parent_edges_of env c own info)"
    by (simp add: parent_edges_of_def edge_view_of)
  then show ?thesis using assms by (simp add: row_view_def finish_row_def)
qed

text \<open>The first state has laid out some rows before the second one started.\<close>

definition paged ::
  "graph_row list \<Rightarrow> graph_link list \<Rightarrow> rat list \<Rightarrow> layout_state \<Rightarrow> layout_state \<Rightarrow> bool" where
  "paged rows0 links0 margins0 st st' \<longleftrightarrow>
     same_rails (ls_unsolved st) (ls_unsolved st') \<and> list_all (\<lambda>r. \<not> held r) (ls_unsolved st) \<and>
     ls_next_rail_id st' = ls_next_rail_id st \<and>
     map row_view (ls_rows st) = rows0 @ map row_view (ls_rows st') \<and>
     ls_links st = links0 @ ls_links st' \<and> ls_margins st = margins0 @ ls_margins st'"

lemma row_left_same: "same_rails rs rs' \<Longrightarrow> row_left env rs' x = row_left env rs x"
  using same_rails_last same_rails_empty unfolding row_left_def by (cases "rs = []") auto

lemma layout_row_same:
  assumes row: "layout_row env i c st = Inr t" and rel: "paged rows0 links0 margins0 st st'"
    and hold: "\<not> hold_root_lanes (env_config env)" and off: "env_row_offset env + i = k + j"
  shows "\<exists>t'. layout_row (env_at env index k) j c st' = Inr t' \<and> paged rows0 links0 margins0 t t'"
proof -
  from rel have same: "same_rails (ls_unsolved st) (ls_unsolved st')"
    and nh: "list_all (\<lambda>r. \<not> held r) (ls_unsolved st)"
    and nxt: "ls_next_rail_id st' = ls_next_rail_id st"
    and rows: "map row_view (ls_rows st) = rows0 @ map row_view (ls_rows st')"
    and links: "ls_links st = links0 @ ls_links st'" and margins: "ls_margins st = margins0 @ ls_margins st'"
    by (simp_all add: paged_def)
  have y: "row_y (env_at env index k) j = row_y env i"
    by (simp add: row_y_def flip: off)
  obtain rails scan rem fin place ms where
    adv: "advance_rails env c (row_y env i) 0 (ls_unsolved st) (start_scan env) = (rails, scan)"
    and sep: "separate_ended env c (map_option major_idx (scan_major scan)) rails = (rem, fin)"
    and pl: "place_node env c (row_y env i) (node_highlight env c scan) (row_prev env (ls_unsolved st)) scan rem
       (ls_next_rail_id st) = Inr place"
    and mp: "merge_parents env \<lparr>pt_x = place_x place, pt_y = row_y env i\<rparr> (node_highlight env c scan)
       (row_own env c place) (drop 1 (parents c))
       \<lparr>ms_offset_x = place_offset_x place, ms_unsolved = place_unsolved place,
        ms_links = ls_links st, ms_next_rail_id = place_next_rail_id place, ms_info = []\<rparr> = Inr ms"
    and t: "t = \<lparr>ls_unsolved = ms_unsolved ms, ls_ended = ls_ended st @ fin, ls_links = ms_links ms,
       ls_rows = ls_rows st @
         [finish_row env i c scan (node_highlight env c scan) place (row_own env c place) (ms_info ms)
           (row_left env (ls_unsolved st) (ms_offset_x ms))],
       ls_margins = ls_margins st @ [row_left env (ls_unsolved st) (ms_offset_x ms)],
       ls_next_rail_id = ms_next_rail_id ms\<rparr>"
    using layout_row_cases [OF row] by metis
  obtain rails' where adv': "advance_rails env c (row_y env i) 0 (ls_unsolved st') (start_scan env) = (rails', scan)"
    and r: "same_rails rails rails'"
    using advance_rails_same [OF same, of env c "row_y env i" 0 "start_scan env"] adv
    by (metis fst_conv prod.collapse snd_conv)
  obtain rem' fin' where sep': "separate_ended env c (map_option major_idx (scan_major scan)) rails' = (rem', fin')"
    and rm: "same_rails rem rem'"
    using separate_ended_same [OF r, of env c "map_option major_idx (scan_major scan)"] sep
    by (metis fst_conv prod.collapse)
  have prev: "row_prev env (ls_unsolved st') = row_prev env (ls_unsolved st)" using hold by (simp add: row_prev_def)
  from place_node_same [OF rm pl] obtain rails'' where
    pl': "place_node env c (row_y env i) (node_highlight env c scan) (row_prev env (ls_unsolved st)) scan rem'
       (ls_next_rail_id st) = Inr (place\<lparr>place_unsolved := rails''\<rparr>)"
    and pu: "same_rails (place_unsolved place) rails''" by blast
  have own: "row_own env c (place\<lparr>place_unsolved := rails''\<rparr>) = row_own env c place"
    by (simp add: row_own_def)
  have "merge_same links0
      \<lparr>ms_offset_x = place_offset_x place, ms_unsolved = place_unsolved place,
        ms_links = ls_links st, ms_next_rail_id = place_next_rail_id place, ms_info = []\<rparr>
      \<lparr>ms_offset_x = place_offset_x place, ms_unsolved = rails'',
        ms_links = ls_links st', ms_next_rail_id = place_next_rail_id place, ms_info = []\<rparr>"
    using pu links by (simp add: merge_same_def)
  from merge_parents_same [OF this mp] obtain ms' where
    mp': "merge_parents env \<lparr>pt_x = place_x place, pt_y = row_y env i\<rparr> (node_highlight env c scan)
       (row_own env c place) (drop 1 (parents c))
       \<lparr>ms_offset_x = place_offset_x place, ms_unsolved = rails'',
        ms_links = ls_links st', ms_next_rail_id = place_next_rail_id place, ms_info = []\<rparr> = Inr ms'"
    and ms: "merge_same links0 ms ms'" by blast
  define left where "left = row_left env (ls_unsolved st) (ms_offset_x ms)"
  define t' where "t' = \<lparr>ls_unsolved = ms_unsolved ms', ls_ended = ls_ended st' @ fin', ls_links = ms_links ms',
       ls_rows = ls_rows st' @
         [finish_row (env_at env index k) j c scan (node_highlight env c scan)
           (place\<lparr>place_unsolved := rails''\<rparr>) (row_own env c place) (ms_info ms) left],
       ls_margins = ls_margins st' @ [left], ls_next_rail_id = ms_next_rail_id ms'\<rparr>"
  have left': "row_left env (ls_unsolved st') (ms_offset_x ms') = left"
    using row_left_same [OF same] ms by (simp add: left_def merge_same_def)
  have info: "ms_info ms' = ms_info ms" using ms by (simp add: merge_same_def)
  have "layout_row (env_at env index k) j c st' = Inr t'"
    unfolding layout_row_fold y advance_rails_env_at start_scan_env_at separate_ended_env_at
      place_node_env_at merge_parents_env_at node_highlight_env_at row_own_env_at row_prev_env_at
      row_left_env_at Let_def adv' case_prod_conv sep' prev nxt pl' and_then.simps
    using mp' by (simp add: t'_def own left' info)
  moreover have "list_all (\<lambda>r. \<not> held r) (ms_unsolved ms)"
  proof -
    have "list_all (\<lambda>r. \<not> held r) rails" by (rule advance_rails_held [OF adv nh])
    then have "list_all (\<lambda>r. \<not> held r) rem"
      using separate_ended_facts(5) [OF sep hold] by (auto simp: list_all_iff)
    with place_node_held [OF pl] merge_parents_held [OF mp] show ?thesis by simp
  qed
  then have "paged rows0 links0 margins0 t t'"
    using ms rows margins row_view_finish [OF off]
    by (simp add: paged_def t t'_def merge_same_def left_def)
  ultimately show ?thesis by blast
qed

lemma layout_rows_same:
  assumes "layout_rows env i cs st = Inr t" and "paged rows0 links0 margins0 st st'"
    and "\<not> hold_root_lanes (env_config env)" and "env_row_offset env + i = k + j"
  shows "\<exists>t'. layout_rows (env_at env index k) j cs st' = Inr t' \<and> paged rows0 links0 margins0 t t'"
  using assms
proof (induction cs arbitrary: i j st st')
  case (Cons c cs)
  from Cons.prems(1) obtain s where 1: "layout_row env i c st = Inr s" "layout_rows env (Suc i) cs s = Inr t"
    by auto
  from layout_row_same [OF 1(1) Cons.prems(2-4)] obtain s' where
    2: "layout_row (env_at env index k) j c st' = Inr s'" "paged rows0 links0 margins0 s s'" by blast
  have "env_row_offset env + Suc i = k + Suc j" using Cons.prems(4) by simp
  from Cons.IH [OF 1(2) 2(2) Cons.prems(3) this] 2(1) show ?case by auto
qed auto

lemma layout_rows_append:
  "layout_rows env i (as @ bs) st =
   and_then (layout_rows env i as st) (layout_rows env (i + length as) bs)"
proof (induction as arbitrary: i st)
  case (Cons a as)
  show ?case by (cases "layout_row env i a st") (simp_all add: Cons.IH)
qed simp

lemma rail_same_resumed: "rail_same r (from_frontier y (frontier_of env r)) \<longleftrightarrow> \<not> held r"
  by (auto simp: rail_same_def frontier_of_def)

lemma same_rails_resumed:
  assumes "same_rails rs rs'" and "list_all (\<lambda>r. \<not> held r) rs"
  shows "same_rails rs (map (from_frontier y) (map (frontier_of env) (filter (\<lambda>r. \<not> held r) rs')))"
  using assms by (induction rule: list_all2_induct) (auto simp: rail_same_def frontier_of_def)

lemma layout_env_page:
  assumes "offset = (case checkpoint of None \<Rightarrow> 0 | Some cp \<Rightarrow> cp_next_global_row cp)"
  shows "layout_env_of cs refs (Some h) config checkpoint =
    env_at (layout_env_of ds refs (Some h) config checkpoint') (hash_index cs) offset"
  using assms by (simp add: layout_env_of_def env_at_def Let_def)

text \<open>A checkpoint without the height its rails have reached.\<close>

definition checkpoint_view :: "graph_checkpoint \<Rightarrow> graph_checkpoint" where
  "checkpoint_view cp = cp\<lparr>cp_frontier := map (\<lambda>r. r\<lparr>fr_last_y := 0\<rparr>) (cp_frontier cp)\<rparr>"

lemma frontier_same:
  assumes "same_rails rs rs'"
  shows "map (\<lambda>r. r\<lparr>fr_last_y := 0\<rparr>) (map (frontier_of env) (filter (\<lambda>r. \<not> held r) rs)) =
    map (\<lambda>r. r\<lparr>fr_last_y := 0\<rparr>) (map (frontier_of (env_at env index k)) (filter (\<lambda>r. \<not> held r) rs'))"
  using assms by (induction rule: list_all2_induct) (auto simp: rail_same_def frontier_of_def)


definition demo_rest :: "commit_summary list" where
  "demo_rest = [demo_commit ''a'' []]"

definition demo_layout_of :: "commit_summary list \<Rightarrow> graph_checkpoint option \<Rightarrow> graph_layout" where
  "demo_layout_of cs checkpoint = projr (compute_graph_layout cs [] (Some ''c'') demo_config checkpoint)"

lemma demo_pages_ok:
  "\<not> isl (compute_graph_layout (demo_page @ demo_rest) [] (Some ''c'') demo_config None) \<and>
   \<not> isl (compute_graph_layout demo_rest [] (Some ''c'') demo_config (Some demo_checkpoint))"
  by code_simp


end
