(* ===== verification/Run.thy ===== *)
theory Run
  imports Base
begin

text \<open>
  Work that can fail and that its user can cancel.  A cancel token may be set by another thread
  between any two looks at it, so a computation is given what its looks will see: \<open>polls\<close> is the
  list of answers still to come, and an exhausted list means that nothing is cancelled any more.
\<close>

type_synonym ('e, 'a) run = "bool list \<Rightarrow> 'e + 'a \<times> bool list"

definition done_with :: "'a \<Rightarrow> ('e, 'a) run" where
  "done_with x polls = Inr (x, polls)"

definition fails_with :: "'e \<Rightarrow> ('e, 'a) run" where
  "fails_with e polls = Inl e"

definition lift_result :: "'e + 'a \<Rightarrow> ('e, 'a) run" where
  "lift_result r polls = (case r of Inl e \<Rightarrow> Inl e | Inr x \<Rightarrow> Inr (x, polls))"

definition bind_run :: "('e, 'a) run \<Rightarrow> ('a \<Rightarrow> ('e, 'b) run) \<Rightarrow> ('e, 'b) run" where
  "bind_run m f polls = (case m polls of Inl e \<Rightarrow> Inl e | Inr (x, polls') \<Rightarrow> f x polls')"

text \<open>One look at the token: the error if it is set.\<close>

definition poll :: "'e \<Rightarrow> ('e, unit) run" where
  "poll e polls =
     (case polls of
        [] \<Rightarrow> Inr ((), [])
      | cancelled # polls' \<Rightarrow> if cancelled then Inl e else Inr ((), polls'))"

text \<open>An error of one module as an error of its caller.\<close>

definition map_error :: "('e \<Rightarrow> 'f) \<Rightarrow> ('e, 'a) run \<Rightarrow> ('f, 'a) run" where
  "map_error g m polls = (case m polls of Inl e \<Rightarrow> Inl (g e) | Inr r \<Rightarrow> Inr r)"

fun fold_run :: "('s \<Rightarrow> 'a \<Rightarrow> ('e, 's) run) \<Rightarrow> 's \<Rightarrow> 'a list \<Rightarrow> ('e, 's) run" where
  "fold_run f s [] = done_with s"
| "fold_run f s (x # xs) = bind_run (f s x) (\<lambda>s'. fold_run f s' xs)"

named_theorems run_simps \<open>when a computation succeeds\<close>

lemma done_with_Inr [simp, run_simps]: "done_with x polls = Inr (y, polls') \<longleftrightarrow> x = y \<and> polls = polls'"
  by (auto simp: done_with_def)

lemma fails_with_Inr [simp, run_simps]: "fails_with e polls \<noteq> Inr r"
  by (simp add: fails_with_def)

lemma lift_result_Inr [run_simps]: "lift_result r polls = Inr (y, polls') \<longleftrightarrow> r = Inr y \<and> polls = polls'"
  by (auto simp: lift_result_def split: sum.splits)

lemma bind_run_Inr [run_simps]:
  "bind_run m f polls = Inr r \<longleftrightarrow> (\<exists>x polls'. m polls = Inr (x, polls') \<and> f x polls' = Inr r)"
  by (auto simp: bind_run_def split: sum.splits)

lemma poll_Inr [run_simps]: "poll e polls = Inr (u, polls') \<longleftrightarrow> polls' = tl polls \<and> (polls = [] \<or> \<not> hd polls)"
  by (cases polls) (auto simp: poll_def)

lemma map_error_Inr [run_simps]: "map_error g m polls = Inr r \<longleftrightarrow> m polls = Inr r"
  by (auto simp: map_error_def split: sum.splits)

lemma fold_run_append:
  "fold_run f s (xs @ ys) = bind_run (fold_run f s xs) (\<lambda>s'. fold_run f s' ys)"
proof (induction xs arbitrary: s)
  case Nil
  then show ?case by (simp add: bind_run_def done_with_def fun_eq_iff)
next
  case (Cons x xs)
  then show ?case by (simp add: bind_run_def fun_eq_iff split: sum.split)
qed

text \<open>An invariant of the state of a loop.\<close>

lemma fold_run_inv:
  assumes "fold_run f s xs polls = Inr (t, polls')" and "P s"
    and "\<And>s x t ps ps'. x \<in> set xs \<Longrightarrow> P s \<Longrightarrow> f s x ps = Inr (t, ps') \<Longrightarrow> P t"
  shows "P t"
  using assms
proof (induction xs arbitrary: s polls)
  case Nil
  then show ?case by simp
next
  case (Cons x xs)
  from Cons.prems(1) obtain s' ps where f: "f s x polls = Inr (s', ps)" "fold_run f s' xs ps = Inr (t, polls')"
    by (auto simp: bind_run_Inr)
  have "P s'" using Cons.prems(3) [OF _ Cons.prems(2) f(1)] by simp
  then show "P t"
    by (rule Cons.IH [OF f(2)]) (rule Cons.prems(3), auto)
qed

end
