(* ===== verification/Gitsrc.thy ===== *)
theory Gitsrc
  imports Run Fsutil
begin

text \<open>
  Reading changes from a repository (\<open>crates/core/src/gitsrc.rs\<close>).  A repository is what Git answers
  in it: \<open>git_run\<close> is the process runner of \<open>gitrun.rs\<close> with the system's \<open>git\<close> behind it, and
  \<open>git_run_diff\<close> the same for \<open>diff\<close>, whose index a worker copies first.  Both are parameters, given
  as the fields of a record.  A computation that looks at its cancel token is a \<open>run\<close>.
\<close>

section \<open>Errors\<close>

datatype git_failure =
    Git_Not_Found
  | Git_Failed string string "int option"
  | Git_Timeout string nat
  | Git_Cancelled string
  | Git_Queue_Timeout string
  | Git_Queue_Full string
  | Git_Worktree_Busy string
  | Git_Output_Limit string nat
  | Git_Output_Held_Open string
  | Git_Nested_Process string
  | Git_Cleanup string string
  | Git_Not_A_Repository string
  | Git_Toplevel_Above string
  | Git_Invalid_Revision string
  | Git_Shallow string
  | Git_Malformed string
  | Git_Outside_Boundary string
  | Git_Verify_Limit string
  | Git_Host string
  | Git_Host_Start string string string
  | Git_Io io_error
  | Git_Session git_error

text \<open>
  \<open>Git_Session\<close> holds what the object reader of \<open>blob.rs\<close> fails with, which theory \<open>Blob\<close> names.
\<close>

fun is_quiet_miss :: "git_failure \<Rightarrow> bool" where
  "is_quiet_miss (Git_Failed args stderr code) \<longleftrightarrow> code = Some 1 \<and> stderr = []"
| "is_quiet_miss _ \<longleftrightarrow> False"

definition EMPTY_TREE :: string where
  "EMPTY_TREE = ''4b825dc642cb6eb9a060e54bf8d69288fbee4904''"

definition SHA256_EMPTY_TREE :: string where
  "SHA256_EMPTY_TREE = ''6ef19b41225c5369f1c104d45d8d85efa9b057b53b14b4b9b939dd74decc5321''"

definition UNREADABLE_FILE_MARKER :: string where
  "UNREADABLE_FILE_MARKER = ''// Unable to read file content''"

section \<open>Running Git\<close>

record run_options =
  ro_max_stdout :: nat
  ro_truncate :: bool

record run_output =
  out_stdout :: string
  out_truncated :: bool

record git =
  git_root :: string
  git_boundary :: "string option"
  git_run :: "run_options \<Rightarrow> string list \<Rightarrow> git_failure + run_output"
  git_run_diff :: "run_options \<Rightarrow> string list \<Rightarrow> git_failure + run_output"
  git_cat :: "git_error + cat_file"
  git_cat_close :: "cat_file \<Rightarrow> git_error option"

definition already_cancelled :: "string \<Rightarrow> (git_failure, unit) run" where
  "already_cancelled args = poll (Git_Cancelled args)"

definition strict :: "run_options \<Rightarrow> string \<Rightarrow> git_failure + run_output \<Rightarrow> git_failure + string" where
  "strict opts label out =
     and_then out (\<lambda>output.
       if out_truncated output then Inl (Git_Output_Limit label (ro_max_stdout opts))
       else Inr (out_stdout output))"

definition args_label :: "string list \<Rightarrow> string" where
  "args_label args = join '' '' args"

definition run_strict :: "git \<Rightarrow> string list \<Rightarrow> run_options \<Rightarrow> git_failure + string" where
  "run_strict g args opts = strict opts (args_label args) (git_run g opts args)"

definition run_strict_diff :: "git \<Rightarrow> string list \<Rightarrow> run_options \<Rightarrow> git_failure + string" where
  "run_strict_diff g args opts = strict opts (args_label args) (git_run_diff g opts args)"

text \<open>Whether a \<open>git diff\<close> reads the index: one that compares two trees does not.\<close>

definition diff_reads_index :: "string list \<Rightarrow> bool" where
  "diff_reads_index args =
     (let before_dashdash = takeWhile (\<lambda>a. a \<noteq> ''--'') args;
          others = filter (\<lambda>a. a \<noteq> ''diff'') before_dashdash;
          cached = (\<lambda>a. a = ''--cached'' \<or> a = ''--staged'');
          positional = filter (\<lambda>a. \<not> cached a \<and> \<not> starts_with ''-'' a) others in
      if list_ex cached others then True
      else if list_ex (\<lambda>a. 1 < length (split_str ''..'' a)) positional then False
      else length positional < 2)"

definition resolve_commit_with :: "git \<Rightarrow> string \<Rightarrow> run_options \<Rightarrow> git_failure + string" where
  "resolve_commit_with g revision opts =
     (if revision = [] \<or> starts_with ''-'' revision then Inl (Git_Invalid_Revision revision)
      else
        (let spec = revision @ ''^{commit}'' in
         case git_run g opts [''rev-parse'', ''--verify'', ''--quiet'', spec] of
           Inl e \<Rightarrow> if is_quiet_miss e then Inl (Git_Invalid_Revision revision) else Inl e
         | Inr out \<Rightarrow>
             if out_truncated out then
               Inl (Git_Output_Limit (''rev-parse --verify '' @ spec) (ro_max_stdout opts))
             else if \<not> valid_utf8 (out_stdout out) then
               Inl (Git_Malformed ''rev-parse output not utf-8'')
             else
               (let line = str_trim (out_stdout out) in
                if (length line \<noteq> 40 \<and> length line \<noteq> 64) \<or> \<not> list_all is_ascii_hexdigit line then
                  Inl (Git_Malformed (''rev-parse returned invalid commit OID: '' @ line))
                else Inr line)))"

definition head_with :: "git \<Rightarrow> run_options \<Rightarrow> git_failure + string option" where
  "head_with g opts =
     (case resolve_commit_with g ''HEAD'' opts of
        Inr sha \<Rightarrow> Inr (Some sha)
      | Inl (Git_Invalid_Revision _) \<Rightarrow> Inr None
      | Inl e \<Rightarrow> Inl e)"

definition empty_tree_with :: "git \<Rightarrow> run_options \<Rightarrow> git_failure + string" where
  "empty_tree_with g opts =
     and_then (strict opts ''rev-parse --show-object-format''
         (git_run g opts [''rev-parse'', ''--show-object-format''])) (\<lambda>stdout.
       if \<not> valid_utf8 stdout then Inl (Git_Malformed ''rev-parse output not utf-8'')
       else if str_trim stdout = ''sha256'' then Inr SHA256_EMPTY_TREE
       else if str_trim stdout = ''sha1'' then Inr EMPTY_TREE
       else Inl (Git_Malformed (''unknown object format: '' @ str_trim stdout)))"

definition head_ref_with :: "git \<Rightarrow> run_options \<Rightarrow> (git_failure, string option) run" where
  "head_ref_with g opts =
     bind_run (already_cancelled ''symbolic-ref --quiet HEAD'') (\<lambda>_.
       lift_result
         (case git_run g opts [''symbolic-ref'', ''--quiet'', ''HEAD''] of
            Inr out \<Rightarrow>
              if out_truncated out then
                Inl (Git_Output_Limit ''symbolic-ref --quiet HEAD'' (ro_max_stdout opts))
              else Inr (Some (str_trim (from_utf8_lossy (out_stdout out))))
          | Inl e \<Rightarrow> if is_quiet_miss e then Inr None else Inl e))"

definition is_ascii_whitespace :: "char \<Rightarrow> bool" where
  "is_ascii_whitespace c \<longleftrightarrow>
     c = CHR '' '' \<or> c = CHR 0x09 \<or> c = CHR 0x0A \<or> c = CHR 0x0C \<or> c = CHR 0x0D"

text \<open>\<open>str::split_ascii_whitespace\<close>: the runs of other characters.\<close>

fun ascii_words :: "string \<Rightarrow> string list" where
  "ascii_words [] = []"
| "ascii_words (c # s) =
     (if is_ascii_whitespace c then ascii_words s
      else case s of
        [] \<Rightarrow> [[c]]
      | d # _ \<Rightarrow>
          if is_ascii_whitespace d then [c] # ascii_words s
          else (c # hd (ascii_words s)) # tl (ascii_words s))"

lemma ascii_words_code [code]:
  "ascii_words [] = []"
  "ascii_words (c # s) =
     (if is_ascii_whitespace c then ascii_words s
      else case s of
        [] \<Rightarrow> [[c]]
      | d # _ \<Rightarrow>
          (let ws = ascii_words s in
           if is_ascii_whitespace d then [c] # ws else (c # hd ws) # tl ws))"
  by (auto simp: Let_def split: list.split)

definition parents_with :: "git \<Rightarrow> string \<Rightarrow> run_options \<Rightarrow> git_failure + string list" where
  "parents_with g sha opts =
     and_then (strict opts (''rev-list --parents -n 1 '' @ sha)
         (git_run g opts [''rev-list'', ''--parents'', ''-n'', ''1'', sha])) (\<lambda>stdout.
       Inr (drop 1 (ascii_words (from_utf8_lossy stdout))))"

definition is_shallow_with :: "git \<Rightarrow> run_options \<Rightarrow> git_failure + bool" where
  "is_shallow_with g opts =
     and_then (strict opts ''rev-parse --is-shallow-repository''
         (git_run g opts [''rev-parse'', ''--is-shallow-repository''])) (\<lambda>stdout.
       Inr (trim_matches is_ascii_whitespace stdout = ''true''))"

section \<open>Raw diff records\<close>

record raw_entry =
  re_status :: char
  re_old_mode :: string
  re_new_mode :: string
  re_old_oid :: string
  re_new_oid :: string
  re_old_path :: "string option"
  re_path :: string

definition bad_record :: git_failure where
  "bad_record = Git_Malformed ''raw diff record''"

text \<open>The reader \<open>RawZ\<close> is the list of fields not yet read.\<close>

definition raw_z_new :: "string \<Rightarrow> string list" where
  "raw_z_new out = split_char NUL out"

fun next_field :: "string list \<Rightarrow> git_failure + (string \<times> string list)" where
  "next_field [] = Inl bad_record"
| "next_field (f # fs) = Inr (f, fs)"

fun next_header :: "string list \<Rightarrow> (string \<times> string list) option" where
  "next_header [] = None"
| "next_header (f # fs) = (if f = [] then next_header fs else Some (f, fs))"

definition parse_header :: "string \<Rightarrow> git_failure + (string \<times> string \<times> string \<times> string \<times> char)" where
  "parse_header field =
     (case strip_prefix '':'' field of
        None \<Rightarrow> Inl bad_record
      | Some header \<Rightarrow>
          if \<not> valid_utf8 header then Inl bad_record
          else (case split_char space header of
              [old_mode, new_mode, old_oid, new_oid, status] \<Rightarrow>
                (case status of
                   [] \<Rightarrow> Inl bad_record
                 | s # score \<Rightarrow> Inr (old_mode, new_mode, old_oid, new_oid, s))
            | _ \<Rightarrow> Inl bad_record))"

definition is_two_paths :: "char \<Rightarrow> bool" where
  "is_two_paths status \<longleftrightarrow> status = CHR ''R'' \<or> status = CHR ''C''"

definition next_entry :: "string list \<Rightarrow> git_failure + (raw_entry \<times> string list) option" where
  "next_entry fs =
     (case next_header fs of
        None \<Rightarrow> Inr None
      | Some (header, fs1) \<Rightarrow>
          and_then (parse_header header) (\<lambda>(old_mode, new_mode, old_oid, new_oid, status).
          and_then (next_field fs1) (\<lambda>(first, fs2).
          and_then
            (if is_two_paths status then
               and_then (next_field fs2) (\<lambda>(second, fs3). Inr (Some first, second, fs3))
             else Inr (None, first, fs2)) (\<lambda>(old_path, path, fs3).
          Inr (Some (\<lparr>re_status = status, re_old_mode = old_mode, re_new_mode = new_mode,
            re_old_oid = old_oid, re_new_oid = new_oid, re_old_path = old_path, re_path = path\<rparr>,
            fs3))))))"

lemma next_header_shorter: "next_header fs = Some (h, rest) \<Longrightarrow> length rest < length fs"
  by (induction fs) (auto split: if_splits)

lemma next_field_Inr: "next_field fs = Inr (f, rest) \<longleftrightarrow> fs = f # rest"
  by (cases fs) auto

lemma next_entry_shorter: "next_entry fs = Inr (Some (e, rest)) \<Longrightarrow> length rest < length fs"
  by (fastforce simp: next_entry_def next_field_Inr dest!: next_header_shorter
      split: option.splits if_splits)

function parse_raw_fields :: "string list \<Rightarrow> git_failure + raw_entry list" where
  "parse_raw_fields fs =
     (case next_entry fs of
        Inl e \<Rightarrow> Inl e
      | Inr None \<Rightarrow> Inr []
      | Inr (Some (e, rest)) \<Rightarrow> and_then (parse_raw_fields rest) (\<lambda>es. Inr (e # es)))"
  by pat_completeness auto
termination
  by (relation "measure length") (auto dest: next_entry_shorter)

declare parse_raw_fields.simps [simp del]

definition parse_raw_z :: "string \<Rightarrow> git_failure + raw_entry list" where
  "parse_raw_z out = parse_raw_fields (raw_z_new out)"

definition change_type_for_status :: "char \<Rightarrow> change_type" where
  "change_type_for_status status =
     (if status = CHR ''A'' \<or> status = CHR ''C'' \<or> status = CHR ''U'' then New
      else if status = CHR ''D'' then Deleted
      else if status = CHR ''R'' then Moved
      else Modified)"

section \<open>Changes\<close>

datatype git_source = Working | Staged | Commit string | Range string string

record git_files =
  gf_files :: "payload_file list"
  gf_skipped :: nat

record change =
  ch_status :: char
  ch_path :: string
  ch_new_oid :: string
  ch_deleted_from :: "string list"
  ch_gitlink :: bool

text \<open>The position of each path; a vector is scanned once to build it.\<close>

definition change_index :: "change list \<Rightarrow> string \<Rightarrow> nat option" where
  "change_index changes = map_of (rev (zip (map ch_path changes) [0..<length changes]))"

definition change_of :: "raw_entry \<Rightarrow> change" where
  "change_of e =
     \<lparr>ch_status = re_status e, ch_path = re_path e, ch_new_oid = re_new_oid e,
      ch_deleted_from = (if re_status e = CHR ''D'' then [re_old_oid e] else []),
      ch_gitlink = re_new_mode e = ''160000''\<rparr>"

definition add_deletion :: "change \<Rightarrow> raw_entry \<Rightarrow> change" where
  "add_deletion c e =
     (if ch_status c = CHR ''D'' \<and> re_status e = CHR ''D''
      then c\<lparr>ch_deleted_from := ch_deleted_from c @ [re_old_oid e]\<rparr> else c)"

fun union_entries ::
  "(string \<Rightarrow> nat option) \<Rightarrow> change list \<Rightarrow> raw_entry list \<Rightarrow> nat \<Rightarrow> change list \<times> nat" where
  "union_entries index changes [] skipped = (changes, skipped)"
| "union_entries index changes (e # es) skipped =
     (if \<not> valid_utf8 (re_path e) then union_entries index changes es (skipped + 1)
      else case index (re_path e) of
        Some i \<Rightarrow> union_entries index (changes[i := add_deletion (changes ! i) e]) es skipped
      | None \<Rightarrow>
          union_entries (index(re_path e \<mapsto> length changes)) (changes @ [change_of e]) es skipped)"

definition union_into :: "change list \<times> nat \<Rightarrow> raw_entry list \<Rightarrow> change list \<times> nat" where
  "union_into r entries = union_entries (change_index (fst r)) (fst r) entries (snd r)"

definition path_entry :: "char \<Rightarrow> string \<Rightarrow> raw_entry" where
  "path_entry status path =
     \<lparr>re_status = status, re_old_mode = [], re_new_mode = [], re_old_oid = [], re_new_oid = [],
      re_old_path = None, re_path = path\<rparr>"

section \<open>Unmerged paths\<close>

definition tab :: char where "tab = CHR 0x09"

definition bad_unmerged :: git_failure where
  "bad_unmerged = Git_Malformed ''ls-files -u record''"

definition stage_of :: "string \<Rightarrow> nat option" where
  "stage_of before =
     (if before = [] then None
      else if last before = CHR ''1'' then Some 0
      else if last before = CHR ''2'' then Some 1
      else if last before = CHR ''3'' then Some 2
      else None)"

text \<open>The paths with the flags of their stages: base, ours, theirs.\<close>

definition add_stage :: "(string \<times> bool list) list \<Rightarrow> string \<Rightarrow> nat \<Rightarrow> (string \<times> bool list) list" where
  "add_stage stages path stage =
     (if stages \<noteq> [] \<and> fst (last stages) = path
      then butlast stages @ [(path, (snd (last stages))[stage := True])]
      else stages @ [(path, (replicate 3 False)[stage := True])])"

fun unmerged_stages ::
  "(string \<times> bool list) list \<Rightarrow> string list \<Rightarrow> git_failure + (string \<times> bool list) list" where
  "unmerged_stages stages [] = Inr stages"
| "unmerged_stages stages (record # rs) =
     (case split_once tab record of
        None \<Rightarrow> Inl bad_unmerged
      | Some (before, path) \<Rightarrow>
          (case stage_of before of
             None \<Rightarrow> Inl bad_unmerged
           | Some stage \<Rightarrow> unmerged_stages (add_stage stages path stage) rs))"

definition unmerged_entry :: "string \<times> bool list \<Rightarrow> raw_entry" where
  "unmerged_entry r =
     (let deleted = snd r ! 0 \<and> \<not> (snd r ! 1 \<and> snd r ! 2) in
      path_entry (if deleted then CHR ''D'' else CHR ''M'') (fst r))"

definition nul_records :: "string \<Rightarrow> string list" where
  "nul_records out = filter (\<lambda>r. r \<noteq> []) (split_char NUL out)"

definition unmerged :: "git \<Rightarrow> string list \<Rightarrow> run_options \<Rightarrow> git_failure + raw_entry list" where
  "unmerged g only opts =
     and_then (run_strict g ([''ls-files'', ''-u'', ''-z''] @ only) opts) (\<lambda>out.
     and_then (unmerged_stages [] (nul_records out)) (\<lambda>stages.
     Inr (map unmerged_entry stages)))"

section \<open>Collecting changes\<close>

definition RAW :: "string list" where
  "RAW = [''-z'', ''--raw'', ''--no-abbrev'', ''-M'']"

definition diff_entries :: "git \<Rightarrow> string list \<Rightarrow> run_options \<Rightarrow> git_failure + raw_entry list" where
  "diff_entries g args opts =
     and_then (run_strict_diff g (''diff'' # args) opts) parse_raw_z"

definition working_changes :: "git \<Rightarrow> string list \<Rightarrow> run_options \<Rightarrow> git_failure + change list \<times> nat" where
  "working_changes g only opts =
     and_then (unmerged g only opts) (\<lambda>conflicts.
       (let resolved = (\<lambda>e. re_path e \<notin> set (map re_path conflicts)) in
        and_then (diff_entries g (RAW @ only) opts) (\<lambda>worktree.
        and_then (run_strict g ([''ls-files'', ''--others'', ''--exclude-standard'', ''-z''] @ only) opts) (\<lambda>out.
          (let r1 = union_into ([], 0) (filter resolved worktree);
               untracked = map (path_entry (CHR ''A''))
                 (filter (\<lambda>p. p \<noteq> [] \<and> \<not> ends_with ''/'' p) (split_char NUL out));
               r2 = union_into r1 untracked;
               r3 = union_into r2 conflicts in
           and_then (diff_entries g (''--cached'' # RAW @ only) opts) (\<lambda>index.
             (let (changes, skipped) = union_into r3 (filter resolved index) in
              Inr (map (\<lambda>c. if ch_status c = CHR ''D''
                     then c\<lparr>ch_deleted_from := [''HEAD:'' @ ch_path c]\<rparr> else c) changes, skipped)))))))) "

definition staged_changes :: "git \<Rightarrow> string list \<Rightarrow> run_options \<Rightarrow> git_failure + change list \<times> nat" where
  "staged_changes g only opts =
     and_then (diff_entries g (''--cached'' # RAW @ only) opts) (\<lambda>index.
       Inr (union_into ([], 0) (filter (\<lambda>e. re_status e \<noteq> CHR ''U'') index)))"

definition diff_tree_args :: "string \<Rightarrow> string \<Rightarrow> string list" where
  "diff_tree_args parent sha =
     [''diff-tree'', ''-r'', ''-z'', ''--raw'', ''--no-abbrev'', ''--no-commit-id'', ''-M'', parent, sha]"

fun union_parents ::
  "git \<Rightarrow> string \<Rightarrow> string list \<Rightarrow> run_options \<Rightarrow> change list \<times> nat \<Rightarrow> string list \<Rightarrow>
   git_failure + change list \<times> nat" where
  "union_parents g sha only opts r [] = Inr r"
| "union_parents g sha only opts r (parent # parents) =
     and_then (run_strict g (diff_tree_args parent sha @ only) opts) (\<lambda>out.
     and_then (parse_raw_z out) (\<lambda>entries.
     union_parents g sha only opts (union_into r entries) parents))"

definition commit_changes ::
  "git \<Rightarrow> string \<Rightarrow> string list \<Rightarrow> run_options \<Rightarrow> git_failure + change list \<times> nat" where
  "commit_changes g revision only opts =
     and_then (resolve_commit_with g revision opts) (\<lambda>sha.
     and_then (parents_with g sha opts) (\<lambda>parents.
     and_then
       (if parents \<noteq> [] then Inr parents
        else and_then (is_shallow_with g opts) (\<lambda>shallow.
          if shallow then Inl (Git_Shallow sha)
          else and_then (empty_tree_with g opts) (\<lambda>tree. Inr [tree]))) (\<lambda>bases.
     union_parents g sha only opts ([], 0) bases)))"

definition range_changes ::
  "git \<Rightarrow> string \<Rightarrow> string \<Rightarrow> string list \<Rightarrow> run_options \<Rightarrow> git_failure + change list \<times> nat" where
  "range_changes g from_rev to_rev only opts =
     and_then (resolve_commit_with g from_rev opts) (\<lambda>from_sha.
     and_then (resolve_commit_with g to_rev opts) (\<lambda>to_sha.
     and_then (diff_entries g (RAW @ [from_sha, to_sha] @ only) opts) (\<lambda>entries.
     Inr (union_into ([], 0) entries))))"

definition source_changes ::
  "git \<Rightarrow> git_source \<Rightarrow> string list \<Rightarrow> run_options \<Rightarrow> git_failure + change list \<times> nat" where
  "source_changes g source only opts =
     (case source of
        Working \<Rightarrow> working_changes g only opts
      | Staged \<Rightarrow> staged_changes g only opts
      | Commit revision \<Rightarrow> commit_changes g revision only opts
      | Range from_rev to_rev \<Rightarrow> range_changes g from_rev to_rev only opts)"

definition only_args :: "string option \<Rightarrow> string list" where
  "only_args only = (case only of None \<Rightarrow> [] | Some p \<Rightarrow> [''--'', '':(literal)'' @ p])"

definition collect_changes_in ::
  "git \<Rightarrow> git_source \<Rightarrow> string option \<Rightarrow> run_options \<Rightarrow> (git_failure, change list \<times> nat) run" where
  "collect_changes_in g source only opts =
     bind_run (already_cancelled ''collect changes'') (\<lambda>_.
     bind_run (lift_result (source_changes g source (only_args only) opts)) (\<lambda>r.
     bind_run (already_cancelled ''collect changes'') (\<lambda>_. done_with r)))"

definition collect_changes ::
  "git \<Rightarrow> git_source \<Rightarrow> run_options \<Rightarrow> (git_failure, change list \<times> nat) run" where
  "collect_changes g source opts = collect_changes_in g source None opts"

section \<open>Listing changes\<close>

record changed_path_entry =
  cp_path :: string
  cp_change_type :: change_type
  cp_gitlink :: bool

definition list_changes_with ::
  "git \<Rightarrow> git_source \<Rightarrow> run_options \<Rightarrow> (git_failure, changed_path_entry list \<times> nat) run" where
  "list_changes_with g source opts =
     bind_run (collect_changes g source opts) (\<lambda>(changes, skipped).
     bind_run (already_cancelled ''list changes'') (\<lambda>_.
     done_with
       (map (\<lambda>c. \<lparr>cp_path = ch_path c, cp_change_type = change_type_for_status (ch_status c),
          cp_gitlink = ch_gitlink c\<rparr>) changes, skipped)))"

definition list_changed_paths_and_gitlinks_with ::
  "git \<Rightarrow> git_source \<Rightarrow> run_options \<Rightarrow>
   (git_failure, (string \<times> change_type option) list \<times> string list) run" where
  "list_changed_paths_and_gitlinks_with g source opts =
     bind_run (list_changes_with g source opts) (\<lambda>(changes, _).
     bind_run (already_cancelled ''list changed paths'') (\<lambda>_.
     done_with
       (map (\<lambda>c. (cp_path c, Some (cp_change_type c))) changes,
        map cp_path (filter cp_gitlink changes))))"

definition list_changed_paths_with ::
  "git \<Rightarrow> git_source \<Rightarrow> run_options \<Rightarrow> (git_failure, (string \<times> change_type option) list) run" where
  "list_changed_paths_with g source opts =
     bind_run (list_changed_paths_and_gitlinks_with g source opts) (\<lambda>r. done_with (fst r))"

section \<open>Reading changes\<close>

text \<open>
  A read of the object reader looks at the token first (\<open>BlobReader::read_internal\<close>), also each read
  of a deleted file's candidates.
\<close>

definition look :: "bool list \<Rightarrow> bool \<times> bool list" where
  "look polls = (case polls of [] \<Rightarrow> (False, []) | b # bs \<Rightarrow> (b, bs))"

definition polled_read ::
  "git \<Rightarrow> nat \<Rightarrow> blob_reader \<times> bool list \<Rightarrow> string \<Rightarrow>
   (git_error + blob_read) \<times> (blob_reader \<times> bool list)" where
  "polled_read g cap s spec =
     (let (cancelled, polls) = look (snd s);
          (answer, reader) = reader_read (\<lambda>_. git_cat g) (git_cat_close g)
            ((fst s)\<lparr>br_cancelled := cancelled\<rparr>) (git_root g) spec cap in
      (answer, (reader, polls)))"

definition session_run ::
  "(git_error + 'a) \<times> (blob_reader \<times> bool list) \<Rightarrow> git_failure + (('a \<times> blob_reader) \<times> bool list)" where
  "session_run r =
     (case r of
        (Inl e, _) \<Rightarrow> Inl (Git_Session e)
      | (Inr x, (reader, polls)) \<Rightarrow> Inr ((x, reader), polls))"

definition blobs_new :: blob_reader where
  "blobs_new = \<lparr>br_open = None, br_cancelled = False, br_require_blob = False\<rparr>"

definition blobs_read ::
  "git \<Rightarrow> blob_reader \<Rightarrow> string \<Rightarrow> nat \<Rightarrow> (git_failure, blob_read \<times> blob_reader) run" where
  "blobs_read g reader spec cap polls = session_run (polled_read g cap (reader, polls) spec)"

definition blobs_deleted_content ::
  "git \<Rightarrow> blob_reader \<Rightarrow> string list \<Rightarrow> nat \<Rightarrow> (git_failure, deleted_content \<times> blob_reader) run" where
  "blobs_deleted_content g reader specs cap polls =
     session_run (first_deleted_text (polled_read g cap) (reader, polls) specs)"

definition blobs_close :: "git \<Rightarrow> blob_reader \<Rightarrow> (git_failure, unit) run" where
  "blobs_close g reader =
     (case reader_close (git_cat_close g) reader of
        (Some e, _) \<Rightarrow> fails_with (Git_Session e)
      | (None, _) \<Rightarrow> done_with ())"

definition blob_output_limit :: "string \<Rightarrow> nat \<Rightarrow> git_failure" where
  "blob_output_limit spec cap = Git_Output_Limit (''cat-file '' @ spec) cap"

definition copyable :: "blob_read \<Rightarrow> string \<Rightarrow> nat \<Rightarrow> git_failure + string option" where
  "copyable answer spec cap =
     (case answer of
        Blob_Text s \<Rightarrow> Inr (Some s)
      | Missing \<Rightarrow> Inr None
      | Blob_NotText _ \<Rightarrow> Inr None
      | NotABlob _ \<Rightarrow> Inr None
      | TooLarge _ _ \<Rightarrow> Inl (blob_output_limit spec cap))"

definition read_working :: "host \<Rightarrow> native_path \<Rightarrow> nat option \<Rightarrow> git_failure + string option" where
  "read_working h path max_size =
     (case metadata h path of
        Inl _ \<Rightarrow> Inr None
      | Inr info \<Rightarrow>
          if \<not> is_file_node info then Inr None
          else (case max_size of
              None \<Rightarrow> Inr (case read_text_file h path of Inr content \<Rightarrow> content | Inl _ \<Rightarrow> None)
            | Some m \<Rightarrow>
                (case read_bytes h path of
                   Inl _ \<Rightarrow> Inr None
                 | Inr bytes \<Rightarrow>
                     (let head = take (m + 1) bytes in
                      if m < length head then Inl (Git_Output_Limit (path_string path) m)
                      else Inr (decode_utf8_or_skip head)))))"

text \<open>A worker reads a working file only inside the repository.\<close>

definition inside_boundary :: "host \<Rightarrow> git \<Rightarrow> native_path \<Rightarrow> git_failure + unit" where
  "inside_boundary h g path =
     (case symlink_metadata h path of
        Inl _ \<Rightarrow> Inr ()
      | Inr _ \<Rightarrow>
          (case canonicalize h path of
             Inl e \<Rightarrow> if e = NotFound then Inr () else Inl (Git_Io e)
           | Inr file \<Rightarrow>
               (case canonicalize h (components (git_root g)) of
                  Inl e \<Rightarrow> Inl (Git_Io e)
                | Inr real_root \<Rightarrow>
                    if \<not> starts_with real_root file then
                      Inl (Git_Outside_Boundary ''working file'')
                    else (case metadata h (abs_path file) of
                        Inr info \<Rightarrow>
                          if \<not> is_file_node info \<and> info \<noteq> Directory then
                            Inl (Git_Outside_Boundary ''working file'')
                          else Inr ()
                      | Inl _ \<Rightarrow> Inr ()))))"

definition DELETED_FILE_MARKER :: string where
  "DELETED_FILE_MARKER = ''// This file has been deleted in this change''"

definition deleted_text :: "nat \<Rightarrow> deleted_content \<Rightarrow> git_failure + string option" where
  "deleted_text cap content =
     (case content of
        Deleted_Text t \<Rightarrow> Inr (Some t)
      | Deleted_Marker \<Rightarrow> Inr (Some DELETED_FILE_MARKER)
      | Deleted_TooLarge spec _ \<Rightarrow> Inl (blob_output_limit spec cap))"

definition change_content ::
  "host \<Rightarrow> git \<Rightarrow> git_source \<Rightarrow> nat option \<Rightarrow> blob_reader \<Rightarrow> change \<Rightarrow>
   (git_failure, string option \<times> blob_reader) run" where
  "change_content h g source max_size blobs c =
     (let cap = (case max_size of None \<Rightarrow> u64_bound - 1 | Some m \<Rightarrow> m);
          copied = bind_run (blobs_read g blobs (ch_new_oid c) cap) (\<lambda>(answer, blobs').
            bind_run (lift_result (copyable answer (ch_new_oid c) cap)) (\<lambda>content.
            done_with (content, blobs'))) in
      if change_type_for_status (ch_status c) = Deleted then
        bind_run (blobs_deleted_content g blobs (ch_deleted_from c) cap) (\<lambda>(content, blobs').
        bind_run (lift_result (deleted_text cap content)) (\<lambda>t. done_with (t, blobs')))
      else (case source of
          Working \<Rightarrow>
            (let path = path_join (components (git_root g)) (components (ch_path c)) in
             bind_run (lift_result (if git_boundary g \<noteq> None then inside_boundary h g path else Inr ())) (\<lambda>_.
             bind_run (lift_result (read_working h path max_size)) (\<lambda>content.
             done_with (content, blobs))))
        | Staged \<Rightarrow>
            bind_run copied (\<lambda>(content, blobs').
            done_with
              (Some (case content of Some s \<Rightarrow> s | None \<Rightarrow> UNREADABLE_FILE_MARKER), blobs'))
        | _ \<Rightarrow> copied))"

definition read_change ::
  "host \<Rightarrow> git \<Rightarrow> git_source \<Rightarrow> nat option \<Rightarrow> payload_file list \<times> blob_reader \<Rightarrow> change \<Rightarrow>
   (git_failure, payload_file list \<times> blob_reader) run" where
  "read_change h g source max_size s c =
     bind_run (already_cancelled ''read changed file'') (\<lambda>_.
     bind_run (change_content h g source max_size (snd s) c) (\<lambda>(content, blobs').
     bind_run (already_cancelled ''read changed file'') (\<lambda>_.
     done_with
       (fst s @ [\<lparr>file_path = ch_path c, file_content = content,
          file_change_type = Some (change_type_for_status (ch_status c)),
          file_skipped_reason = None\<rparr>], blobs'))))"

definition read_changes ::
  "host \<Rightarrow> git \<Rightarrow> git_source \<Rightarrow> change list \<Rightarrow> nat option \<Rightarrow> (git_failure, payload_file list) run" where
  "read_changes h g source changes max_size =
     bind_run (already_cancelled ''read changes'') (\<lambda>_.
     bind_run (fold_run (read_change h g source max_size) ([], blobs_new) changes) (\<lambda>(files, blobs).
     bind_run (blobs_close g blobs) (\<lambda>_.
     bind_run (already_cancelled ''read changes'') (\<lambda>_. done_with files))))"

definition collect_raw ::
  "host \<Rightarrow> git \<Rightarrow> git_source \<Rightarrow> run_options \<Rightarrow> (git_failure, payload_file list \<times> nat) run" where
  "collect_raw h g source opts =
     bind_run (collect_changes g source opts) (\<lambda>(changes, skipped).
     bind_run (read_changes h g source changes None) (\<lambda>files. done_with (files, skipped)))"

definition collect :: "host \<Rightarrow> git \<Rightarrow> git_source \<Rightarrow> run_options \<Rightarrow> (git_failure, git_files) run" where
  "collect h g source opts =
     bind_run (collect_raw h g source opts) (\<lambda>(all, skipped).
     done_with
       \<lparr>gf_files = filter (\<lambda>f. file_content f \<noteq> None) all,
        gf_skipped = skipped + length (filter (\<lambda>f. file_content f = None) all)\<rparr>)"

definition last_option :: "'a list \<Rightarrow> 'a option" where
  "last_option xs = (if xs = [] then None else Some (last xs))"

definition read_changed_file_inner ::
  "host \<Rightarrow> git \<Rightarrow> git_source \<Rightarrow> string \<Rightarrow> nat \<Rightarrow> run_options \<Rightarrow> (git_failure, payload_file option) run" where
  "read_changed_file_inner h g source path max_size opts =
     bind_run (collect_changes_in g source (Some path) opts) (\<lambda>(changes, _).
     bind_run (read_changes h g source (filter (\<lambda>c. ch_path c = path) changes) (Some max_size))
       (\<lambda>files. done_with (last_option files)))"

definition read_changed_file_with ::
  "host \<Rightarrow> git \<Rightarrow> git_source \<Rightarrow> string \<Rightarrow> nat \<Rightarrow> run_options \<Rightarrow> (git_failure, payload_file option) run" where
  "read_changed_file_with h g source path max_size opts =
     read_changed_file_inner h g source path (min max_size (ro_max_stdout opts)) opts"

definition status_letter :: "change_type \<Rightarrow> char" where
  "status_letter t =
     (case t of
        New \<Rightarrow> CHR ''A'' | Modified \<Rightarrow> CHR ''M'' | Deleted \<Rightarrow> CHR ''D'' | Moved \<Rightarrow> CHR ''R'')"

definition object_at :: "string \<Rightarrow> string \<Rightarrow> string" where
  "object_at path revision = revision @ '':'' @ path"

definition named_sources ::
  "git \<Rightarrow> git_source \<Rightarrow> string \<Rightarrow> change_type \<Rightarrow> string list option \<Rightarrow> run_options \<Rightarrow>
   git_failure + string \<times> string list" where
  "named_sources g source path t parents opts =
     (case source of
        Working \<Rightarrow> Inr ([], [object_at path ''HEAD''])
      | Staged \<Rightarrow> Inr (object_at path [], [object_at path ''HEAD''])
      | Range from_rev to_rev \<Rightarrow> Inr (object_at path to_rev, [object_at path from_rev])
      | Commit revision \<Rightarrow>
          and_then
            (if t \<noteq> Deleted then Inr []
             else case parents of
               Some ps \<Rightarrow> Inr (map (object_at path) ps)
             | None \<Rightarrow>
                 and_then (resolve_commit_with g revision opts) (\<lambda>sha.
                 and_then (parents_with g sha opts) (\<lambda>ps. Inr (map (object_at path) ps))))
            (\<lambda>deleted_from. Inr (object_at path revision, deleted_from)))"

definition read_changed_file_for ::
  "host \<Rightarrow> git \<Rightarrow> git_source \<Rightarrow> string \<Rightarrow> change_type \<Rightarrow> string list option \<Rightarrow> nat \<Rightarrow> run_options \<Rightarrow>
   (git_failure, payload_file) run" where
  "read_changed_file_for h g source path t parents max_size opts =
     bind_run (already_cancelled ''read changed file'') (\<lambda>_.
     bind_run (lift_result (named_sources g source path t parents opts)) (\<lambda>(new_oid, deleted_from).
     bind_run (read_changes h g source
         [\<lparr>ch_status = status_letter t, ch_path = path, ch_new_oid = new_oid,
           ch_deleted_from = deleted_from, ch_gitlink = False\<rparr>]
         (Some (min max_size (ro_max_stdout opts)))) (\<lambda>files.
       case last_option files of
         None \<Rightarrow> fails_with (Git_Malformed ''no file read'')
       | Some file \<Rightarrow> done_with file)))"

end
