(* ===== verification/Proto.thy ===== *)
theory Proto
  imports Restore Settings Graph Gitsrc
begin

text \<open>
  The wire protocol between a master and a worker (\<open>crates/remote/src/proto.rs\<close>): frames of a
  big-endian length and a JSON value, requests, texts and requests too large for one frame, the
  worker's joining of them (the loop of \<open>serve\<close> in \<open>worker.rs\<close>), the checks of what a request
  may name, and the hydration of a prepared paste.

  \<open>serde_json\<close> is a parameter: \<open>ser\<close> is \<open>to_vec\<close>, \<open>None\<close> its error, and \<open>de\<close> is \<open>from_slice\<close>.
  So is the digest of a plan (SHA-256 of its JSON).  A freshness snapshot \<open>'f\<close> and a replay's
  expectation \<open>'r\<close> are carried, never looked at.
\<close>

section \<open>Constants\<close>

definition PREPARED_IMPORT_VERSION :: nat where "PREPARED_IMPORT_VERSION = 7"
definition PREPARED_REPLAY_VERSION :: nat where "PREPARED_REPLAY_VERSION = 8"
definition GIT_VIEWS_VERSION :: nat where "GIT_VIEWS_VERSION = 2"
definition TRANSFER_VERSION :: nat where "TRANSFER_VERSION = 3"
definition PASTE_VERSION :: nat where "PASTE_VERSION = 4"
definition EXPORT_CHANGES_VERSION :: nat where "EXPORT_CHANGES_VERSION = 5"
definition REQUEST_CHUNKS_VERSION :: nat where "REQUEST_CHUNKS_VERSION = 5"
definition REPLAY_PREVIEW_VERSION :: nat where "REPLAY_PREVIEW_VERSION = 6"
definition CHUNK_BYTES :: nat where "CHUNK_BYTES = 1024 * 1024"
definition REMOTE_MAX_TIPS :: nat where "REMOTE_MAX_TIPS = 50000"
definition CLIPBOARD_PAYLOAD_MAX :: nat where "CLIPBOARD_PAYLOAD_MAX = 32 * 1024 * 1024"
definition JOINED_MAX :: nat where "JOINED_MAX = 8 * CLIPBOARD_PAYLOAD_MAX"
definition MAX_FRAME :: nat where "MAX_FRAME = 8 * 1024 * 1024"

section \<open>Requests\<close>

datatype error_code =
    Forbidden | Not_Found | Unsupported | BadRequest | Err_TooLarge | Err_Io | VersionMismatch
  | NotARepository | InvalidRevision | Timeout | Busy | Cancelled | OutsideShare | Stale | Collision

datatype read_profile = Interactive | InteractivePreview | PreviewStrict | Preview_Profile

datatype source_kind =
    Kind_File | Kind_Working | Kind_Unstaged | Kind_Staged | Kind_Commit string
  | Kind_Range string string

record log_query =
  lq_text :: string
  lq_regex :: bool
  lq_match_case :: bool
  lq_author :: "string option"
  lq_since :: "string option"
  lq_until :: "string option"
  lq_paths :: "string list"

datatype git_query =
    Query_ChangeList
  | Refs
  | ResolveCommit string
  | LogFromTips "string list" nat nat
  | HistoryQuery "string option" log_query nat nat
  | Query_CommitDetails string
  | UserEmail
  | ChangedPaths git_source
  | Preview git_source string "change_type option"
  | ChangedFileText git_source string nat
  | CommitDirectory string string nat
  | CommitBlob string string nat

record paste_mapping =
  pm_prefixes :: "(string \<times> string) list"
  pm_adjust_paths :: bool
  pm_header_format :: string

record 'f import_expect =
  ie_digest :: string
  ie_freshness :: 'f

record export_target =
  et_root :: string
  et_path :: string
  et_source :: source_kind
  et_change_type :: "change_type option"

text \<open>The fields in the order of the source.\<close>

datatype ('f, 'r) request =
    Hello nat string "nat option"
  | OpenWorkspace string
  | ListDir string string bool
  | Stat string string
  | Read string string
  | ReplayRead string native_path nat
  | Write string string string
  | Rename string string string
  | ScanRepos string "string option"
  | GitView string string read_profile git_query
  | Export string "export_target list" settings nat
  | ExportCommits string string string "string list"
  | ExportChanges string string git_source settings nat
  | ImportPlan string string string paste_mapping
  | PrepareImport string string string paste_mapping bool
  | ApplyPrepared string string string restore_selection "'f import_expect"
  | ImportApply string string string paste_mapping restore_selection "'f import_expect"
  | ReplayPlan string string string
  | ReplayApply string string string 'r bool
  | PrepareReplay string string string bool
  | ApplyPreparedReplay string string string string bool
  | Chunk string
  | FrameChunk string
  | FrameJoin

fun request_text :: "('f, 'r) request \<Rightarrow> string option" where
  "request_text (ImportPlan w d text m) = Some text"
| "request_text (PrepareImport w d text m r) = Some text"
| "request_text (ImportApply w d text m s e) = Some text"
| "request_text (ReplayPlan w d text) = Some text"
| "request_text (PrepareReplay w d text r) = Some text"
| "request_text (ReplayApply w d text e c) = Some text"
| "request_text _ = None"

text \<open>\<open>text_mut\<close>: what assigning through it makes of the request.\<close>

fun set_text :: "string \<Rightarrow> ('f, 'r) request \<Rightarrow> ('f, 'r) request" where
  "set_text t (ImportPlan w d text m) = ImportPlan w d t m"
| "set_text t (PrepareImport w d text m r) = PrepareImport w d t m r"
| "set_text t (ImportApply w d text m s e) = ImportApply w d t m s e"
| "set_text t (ReplayPlan w d text) = ReplayPlan w d t"
| "set_text t (PrepareReplay w d text r) = PrepareReplay w d t r"
| "set_text t (ReplayApply w d text e c) = ReplayApply w d t e c"
| "set_text t r = r"

fun needs_version :: "('f, 'r) request \<Rightarrow> nat" where
  "needs_version (PrepareImport w d t m r) = PREPARED_IMPORT_VERSION"
| "needs_version (ApplyPrepared w d t s e) = PREPARED_IMPORT_VERSION"
| "needs_version (ReplayRead w p l) = REPLAY_PREVIEW_VERSION"
| "needs_version (ScanRepos w u) = GIT_VIEWS_VERSION"
| "needs_version (GitView w r p q) = GIT_VIEWS_VERSION"
| "needs_version (Export w items s l) =
     (if list_ex (\<lambda>item. et_path item = []) items then 5 else TRANSFER_VERSION)"
| "needs_version (ExportCommits w r t s) = TRANSFER_VERSION"
| "needs_version (ExportChanges w r s st l) = EXPORT_CHANGES_VERSION"
| "needs_version (FrameChunk d) = REQUEST_CHUNKS_VERSION"
| "needs_version FrameJoin = REQUEST_CHUNKS_VERSION"
| "needs_version (ImportPlan w d t m) = PASTE_VERSION"
| "needs_version (ImportApply w d t m s e) = PASTE_VERSION"
| "needs_version (ReplayPlan w d t) = PASTE_VERSION"
| "needs_version (ReplayApply w d t e c) = PASTE_VERSION"
| "needs_version (Chunk d) = PASTE_VERSION"
| "needs_version (PrepareReplay w d t r) = PREPARED_REPLAY_VERSION"
| "needs_version (ApplyPreparedReplay w d t dg c) = PREPARED_REPLAY_VERSION"
| "needs_version _ = 1"

section \<open>Frames\<close>

datatype frame_error = Frame_Other | InvalidData string | Frame_Eof

text \<open>\<open>u32::to_be_bytes\<close> and \<open>from_be_bytes\<close>\<close>

definition to_be_bytes :: "nat \<Rightarrow> string" where
  "to_be_bytes n =
     map char_of [n div 16777216 mod 256, n div 65536 mod 256, n div 256 mod 256, n mod 256]"

definition from_be_bytes :: "string \<Rightarrow> nat" where
  "from_be_bytes bs = foldl (\<lambda>n b. n * 256 + bval b) 0 bs"

text \<open>The error, if any, and everything written so far.\<close>

definition write_frame ::
  "('a \<Rightarrow> string option) \<Rightarrow> string \<Rightarrow> 'a \<Rightarrow> frame_error option \<times> string" where
  "write_frame ser w v =
     (case ser v of
        None \<Rightarrow> (Some Frame_Other, w)
      | Some bytes \<Rightarrow>
          if MAX_FRAME < length bytes
          then (Some (InvalidData (''frame of '' @ show_nat (length bytes) @ '' bytes exceeds 8388608'')), w)
          else (None, w @ to_be_bytes (length bytes) @ bytes))"

fun write_frames ::
  "('a \<Rightarrow> string option) \<Rightarrow> string \<Rightarrow> 'a list \<Rightarrow> frame_error option \<times> string" where
  "write_frames ser w [] = (None, w)"
| "write_frames ser w (v # vs) =
     (case write_frame ser w v of
        (Some e, w') \<Rightarrow> (Some e, w')
      | (None, w') \<Rightarrow> write_frames ser w' vs)"

definition read_frame ::
  "(string \<Rightarrow> 'a option) \<Rightarrow> string \<Rightarrow> frame_error + ('a option \<times> string)" where
  "read_frame de r =
     (if length r < 4 then Inr (None, [])
      else
        (let len = from_be_bytes (take 4 r); body = drop 4 r in
         if MAX_FRAME < len
         then Inl (InvalidData (''frame of '' @ show_nat len @ '' bytes exceeds 8388608''))
         else if length body < len then Inl Frame_Eof
         else case de (take len body) of
           None \<Rightarrow> Inl (InvalidData [])
         | Some v \<Rightarrow> Inr (Some v, drop len body)))"

text \<open>\<open>while !rest.is_char_boundary(end)\<close>\<close>

fun floor_boundary :: "string \<Rightarrow> nat \<Rightarrow> nat" where
  "floor_boundary s 0 = 0"
| "floor_boundary s (Suc e) = (if is_char_boundary s (Suc e) then Suc e else floor_boundary s e)"

text \<open>The pieces of a text; \<open>None\<close> is an iterator that never ends.\<close>

partial_function (option) chunk_list :: "nat \<Rightarrow> string \<Rightarrow> string list option" where
  "chunk_list limit s =
     (if s = [] then Some []
      else
        (let e = floor_boundary s (min (length s) limit) in
         Option.bind (chunk_list limit (drop e s)) (\<lambda>ps. Some (take e s # ps))))"

definition chunks :: "string \<Rightarrow> string list option" where
  "chunks text = chunk_list CHUNK_BYTES text"

section \<open>Sending a request\<close>

type_synonym write_result = "(frame_error option \<times> string) option"

definition write_whole_request ::
  "(('f, 'r) request \<Rightarrow> string option) \<Rightarrow> string \<Rightarrow> ('f, 'r) request \<Rightarrow> nat \<Rightarrow> write_result" where
  "write_whole_request ser w req negotiated =
     (if negotiated < REQUEST_CHUNKS_VERSION then Some (write_frame ser w req)
      else case ser req of
        None \<Rightarrow> Some (Some Frame_Other, w)
      | Some json \<Rightarrow>
          if length json \<le> CHUNK_BYTES then Some (write_frame ser w req)
          else if JOINED_MAX < length json
          then Some (Some (InvalidData
            (''request of '' @ show_nat (length json) @ '' bytes exceeds 268435456'')), w)
          else if \<not> valid_utf8 json then Some (Some Frame_Other, w)
          else case chunks json of
            None \<Rightarrow> None
          | Some pieces \<Rightarrow> Some (write_frames ser w (map FrameChunk pieces @ [FrameJoin])))"

definition write_request_for ::
  "(('f, 'r) request \<Rightarrow> string option) \<Rightarrow> string \<Rightarrow> ('f, 'r) request \<Rightarrow> nat \<Rightarrow> write_result" where
  "write_request_for ser w req negotiated =
     (case request_text req of
        None \<Rightarrow> write_whole_request ser w req negotiated
      | Some text \<Rightarrow>
          if length text \<le> CHUNK_BYTES then write_whole_request ser w req negotiated
          else case chunks text of
            None \<Rightarrow> None
          | Some pieces \<Rightarrow>
              (case write_frames ser w (map Chunk pieces) of
                 (Some e, w') \<Rightarrow> Some (Some e, w')
               | (None, w') \<Rightarrow> write_whole_request ser w' (set_text [] req) negotiated))"

definition write_request ::
  "(('f, 'r) request \<Rightarrow> string option) \<Rightarrow> string \<Rightarrow> ('f, 'r) request \<Rightarrow> write_result" where
  "write_request ser w req = write_request_for ser w req 0"

section \<open>Joining on the worker\<close>

text \<open>What \<open>serve\<close> keeps between frames.\<close>

record joining =
  jn_pending :: string
  jn_overflow :: bool
  jn_frame_json :: string
  jn_frame_overflow :: bool

definition joining_idle :: joining where
  "joining_idle =
     \<lparr>jn_pending = [], jn_overflow = False, jn_frame_json = [], jn_frame_overflow = False\<rparr>"

datatype ('f, 'r) joined =
    Wait
  | Refuse error_code string
  | Handle "('f, 'r) request"

text \<open>The part after the JSON pieces: the text that arrived ahead goes into the request.\<close>

definition join_text :: "joining \<Rightarrow> ('f, 'r) request \<Rightarrow> joining \<times> ('f, 'r) joined" where
  "join_text st req =
     (let text = jn_pending st; st' = st\<lparr>jn_pending := [], jn_overflow := False\<rparr> in
      if jn_overflow st
      then (st', Refuse Err_TooLarge ''the pasted text is over the clipboard limit'')
      else if text \<noteq> [] then
        (if request_text req = Some [] then (st', Handle (set_text text req))
         else (st', Refuse BadRequest ''text chunks must precede a paste request''))
      else (st', Handle req))"

fun join_frame ::
  "(string \<Rightarrow> ('f, 'r) request option) \<Rightarrow> joining \<Rightarrow> ('f, 'r) request \<Rightarrow> joining \<times> ('f, 'r) joined" where
  "join_frame de st (Chunk data) =
     (if jn_overflow st \<or> CLIPBOARD_PAYLOAD_MAX < length (jn_pending st) + length data
      then (st\<lparr>jn_overflow := True, jn_pending := []\<rparr>, Wait)
      else (st\<lparr>jn_pending := jn_pending st @ data\<rparr>, Wait))"
| "join_frame de st (FrameChunk data) =
     (if jn_frame_overflow st \<or> JOINED_MAX < length (jn_frame_json st) + length data
      then (st\<lparr>jn_frame_overflow := True, jn_frame_json := []\<rparr>, Wait)
      else (st\<lparr>jn_frame_json := jn_frame_json st @ data\<rparr>, Wait))"
| "join_frame de st FrameJoin =
     (if jn_frame_overflow st
      then (st, Refuse Err_TooLarge ''the request is over the join limit'')
      else
        (let st' = st\<lparr>jn_frame_json := []\<rparr> in
         case de (jn_frame_json st) of
           None \<Rightarrow> (st', Refuse BadRequest ''the joined request is not valid'')
         | Some parsed \<Rightarrow> join_text st' parsed))"
| "join_frame de st req =
     (if jn_frame_json st \<noteq> []
      then (st, Refuse BadRequest ''frame chunks must end with a join'')
      else join_text st req)"

text \<open>The loop: the outcome of every frame until the stream ends, and the error that ended it.\<close>

function receive ::
  "(string \<Rightarrow> ('f, 'r) request option) \<Rightarrow> joining \<Rightarrow> string \<Rightarrow>
   ('f, 'r) joined list \<times> frame_error option" where
  "receive de st bytes =
     (case read_frame de bytes of
        Inl e \<Rightarrow> ([], Some e)
      | Inr (None, rest) \<Rightarrow> ([], None)
      | Inr (Some frame, rest) \<Rightarrow>
          (let (st', out) = join_frame de st frame; (outs, e) = receive de st' rest in (out # outs, e)))"
  by pat_completeness auto
termination
  by (relation "measure (\<lambda>(de, st, bytes). length bytes)")
    (auto simp: read_frame_def Let_def split: if_splits option.splits)

declare receive.simps [simp del]

section \<open>What a request may name\<close>

definition valid_hex_oid :: "string \<Rightarrow> bool" where
  "valid_hex_oid s \<longleftrightarrow> 4 \<le> length s \<and> length s \<le> 64 \<and> list_all is_ascii_hexdigit s"

text \<open>\<open>char::is_control\<close> (Cc) on a scalar value.\<close>

definition unicode_control :: "nat \<Rightarrow> bool" where
  "unicode_control v \<longleftrightarrow> v < 0x20 \<or> (0x7F \<le> v \<and> v < 0xA0)"

definition contains_str :: "string \<Rightarrow> string \<Rightarrow> bool" where
  "contains_str needle s \<longleftrightarrow> 1 < length (split_str needle s)"

definition rev_char_refused :: "string \<Rightarrow> bool" where
  "rev_char_refused c \<longleftrightarrow>
     c \<in> set (map (\<lambda>b. [b]) '':^~?*['') \<or> c = [CHR 0x5C] \<or> c = [CHR 0x00] \<or>
     unicode_whitespace (scalar_value c) \<or> unicode_control (scalar_value c)"

definition valid_rev :: "string \<Rightarrow> bool" where
  "valid_rev s \<longleftrightarrow>
     (if valid_hex_oid s \<or> s = ''HEAD'' then True
      else if s = [] \<or> MAX_REF_NAME_LEN < length s then False
      else if s = ''@'' then False
      else if starts_with ''-'' s \<or> starts_with ''/'' s then False
      else if ends_with ''/'' s \<or> ends_with ''.'' s \<or> ends_with ''.lock'' s then False
      else if contains_str ''..'' s \<or> contains_str ''//'' s \<or> contains_str [CHR ''@'', CHR ''{''] s then False
      else if list_ex rev_char_refused (chars s) then False
      else \<not> list_ex (\<lambda>seg. starts_with ''.'' seg \<or> ends_with ''.lock'' seg) (split_char slash s))"

text \<open>\<open>Component::Normal\<close>; the root is the only other component of an absolute path.\<close>

definition all_normal :: "native_path \<Rightarrow> bool" where
  "all_normal p \<longleftrightarrow> \<not> np_absolute p \<and> list_all (\<lambda>c. c \<noteq> dot \<and> c \<noteq> dotdot) (np_names p)"

definition valid_rel_path :: "string \<Rightarrow> bool \<Rightarrow> bool" where
  "valid_rel_path s allow_empty \<longleftrightarrow>
     (if s = [] then allow_empty
      else if CHR 0x00 \<in> set s \<or> CHR 0x0A \<in> set s \<or> CHR 0x0D \<in> set s then False
      else if starts_with ''-'' s \<or> starts_with '':'' s \<or> starts_with ''/'' s then False
      else if list_ex (\<lambda>seg. seg = [] \<or> seg = dot \<or> seg = dotdot) (split_char slash s) then False
      else all_normal (components s))"

definition option_valid :: "nat \<Rightarrow> string option \<Rightarrow> bool" where
  "option_valid limit v = (case v of None \<Rightarrow> True | Some s \<Rightarrow> length s \<le> limit \<and> CHR 0x00 \<notin> set s)"

definition valid_log_query :: "log_query \<Rightarrow> bool" where
  "valid_log_query q \<longleftrightarrow>
     length (lq_text q) \<le> 1024 \<and> CHR 0x00 \<notin> set (lq_text q) \<and>
     option_valid 1024 (lq_author q) \<and> option_valid 64 (lq_since q) \<and> option_valid 64 (lq_until q) \<and>
     length (lq_paths q) \<le> 64 \<and> list_all (\<lambda>p. valid_rel_path p False) (lq_paths q)"

definition valid_tips :: "string list \<Rightarrow> bool" where
  "valid_tips tips \<longleftrightarrow> length tips \<le> REMOTE_MAX_TIPS \<and> list_all valid_hex_oid tips"

section \<open>Prepared pastes\<close>

text \<open>\<open>TransferImportPlan\<close> (\<open>crates/core/src/transfer.rs\<close>)\<close>

record 'f transfer_import_plan =
  tip_roots :: "native_path list"
  tip_restore_plan :: restore_plan
  tip_freshness :: 'f

record 'f import_planned =
  ip_plan :: "'f transfer_import_plan"
  ip_digest :: string
  ip_suggestion :: "restore_base_suggestion option"

definition expect_of :: "'f import_planned \<Rightarrow> 'f import_expect" where
  "expect_of p = \<lparr>ie_digest = ip_digest p, ie_freshness = tip_freshness (ip_plan p)\<rparr>"

record import_create_metadata =
  icm_relative_path :: string
  icm_absolute_path :: native_path
  icm_existed :: bool
  icm_root_path :: native_path
  icm_entry :: nat

record 'f import_metadata =
  im_roots :: "native_path list"
  im_restore_roots :: "native_path list"
  im_creates :: "import_create_metadata list"
  im_deletes :: "delete_operation list"
  im_skips :: "skipped_operation list"
  im_freshness :: 'f

definition of_entry_indices ::
  "'f transfer_import_plan \<Rightarrow> nat list \<Rightarrow> string + 'f import_metadata" where
  "of_entry_indices plan entries =
     (let rp = tip_restore_plan plan in
      if length entries \<noteq> length (rp_create_operations rp)
      then Inl ''prepared content references do not match create operations''
      else Inr
        \<lparr>im_roots = tip_roots plan,
         im_restore_roots = rp_roots rp,
         im_creates = map (\<lambda>(op, entry).
           \<lparr>icm_relative_path = co_relative_path op, icm_absolute_path = co_absolute_path op,
            icm_existed = co_existed op, icm_root_path = co_root_path op, icm_entry = entry\<rparr>)
           (zip (rp_create_operations rp) entries),
         im_deletes = rp_delete_operations rp,
         im_skips = rp_skipped_operations rp,
         im_freshness = tip_freshness plan\<rparr>)"

record 'f import_prepared =
  ipr_metadata :: "'f import_metadata"
  ipr_digest :: string
  ipr_suggestion :: "restore_base_suggestion option"
  ipr_token :: "string option"

fun source_bytes :: "nat \<Rightarrow> parsed_entry list \<Rightarrow> nat option" where
  "source_bytes n [] = Some n"
| "source_bytes n (e # es) =
     (case checked_add n (length (entry_content e)) of None \<Rightarrow> None | Some m \<Rightarrow> source_bytes m es)"

definition EXCEEDS_SOURCE :: string where
  "EXCEEDS_SOURCE = ''prepared content references exceed the source payload''"

text \<open>The first pass counts the references to each entry and bounds their bytes.\<close>

fun count_references ::
  "parsed_entry list \<Rightarrow> nat \<Rightarrow> nat list \<Rightarrow> nat \<Rightarrow> import_create_metadata list \<Rightarrow> string + nat list" where
  "count_references entries available refs hydrated [] = Inr refs"
| "count_references entries available refs hydrated (op # ops) =
     (if length entries \<le> icm_entry op then Inl ''invalid prepared content reference''
      else case checked_add hydrated (length (entry_content (entries ! icm_entry op))) of
        None \<Rightarrow> Inl EXCEEDS_SOURCE
      | Some hydrated' \<Rightarrow>
          if available < hydrated' then Inl EXCEEDS_SOURCE
          else count_references entries available
            (refs[icm_entry op := refs ! icm_entry op + 1]) hydrated' ops)"

text \<open>Contents nothing refers to are released before any is repeated.\<close>

definition release_unused :: "parsed_entry list \<Rightarrow> nat list \<Rightarrow> parsed_entry list" where
  "release_unused entries refs =
     map (\<lambda>(e, n). if n = 0 then e\<lparr>entry_content := []\<rparr> else e) (zip entries refs)"

text \<open>The second pass: the last reference to an entry takes its content.\<close>

fun take_contents ::
  "parsed_entry list \<Rightarrow> nat list \<Rightarrow> import_create_metadata list \<Rightarrow> string + create_operation list" where
  "take_contents entries refs [] = Inr []"
| "take_contents entries refs (op # ops) =
     (let i = icm_entry op in
      if length entries \<le> i then Inl ''invalid prepared content reference''
      else
        (let refs' = refs[i := refs ! i - 1];
             content = entry_content (entries ! i);
             entries' = (if refs' ! i = 0 then entries[i := (entries ! i)\<lparr>entry_content := []\<rparr>]
               else entries) in
         and_then (take_contents entries' refs' ops) (\<lambda>rest.
           Inr (\<lparr>co_relative_path = icm_relative_path op, co_absolute_path = icm_absolute_path op,
                  co_content = content, co_existed = icm_existed op,
                  co_root_path = icm_root_path op\<rparr> # rest))))"

definition hydrate_entries ::
  "(restore_plan \<Rightarrow> string + string) \<Rightarrow> 'f import_prepared \<Rightarrow> parsed_entry list \<Rightarrow>
   string + 'f import_planned" where
  "hydrate_entries restore_plan_digest self entries =
     (let md = ipr_metadata self in
      case source_bytes 0 entries of
        None \<Rightarrow> Inl ''prepared source content byte count overflow''
      | Some available \<Rightarrow>
          and_then (count_references entries available (replicate (length entries) 0) 0 (im_creates md))
            (\<lambda>refs.
          and_then (take_contents (release_unused entries refs) refs (im_creates md)) (\<lambda>creates.
            let rp = \<lparr>rp_roots = im_restore_roots md, rp_create_operations = creates,
                  rp_delete_operations = im_deletes md, rp_skipped_operations = im_skips md\<rparr> in
            and_then (restore_plan_digest rp) (\<lambda>digest.
              if digest \<noteq> ipr_digest self
              then Inl ''prepared preview digest does not match the source payload''
              else Inr
                \<lparr>ip_plan = \<lparr>tip_roots = im_roots md, tip_restore_plan = rp,
                   tip_freshness = im_freshness md\<rparr>,
                 ip_digest = ipr_digest self, ip_suggestion = ipr_suggestion self\<rparr>))))"

definition hydrate ::
  "(restore_plan \<Rightarrow> string + string) \<Rightarrow> 'f import_prepared \<Rightarrow> string \<Rightarrow> string \<Rightarrow>
   string + 'f import_planned" where
  "hydrate restore_plan_digest self text fmt =
     hydrate_entries restore_plan_digest self (parse_clipboard text fmt)"

end
