(* ===== verification/Proto_Correct.thy ===== *)
theory Proto_Correct
  imports Proto
begin

text \<open>What the protocol guarantees.\<close>

section \<open>Cutting text at character boundaries\<close>

lemma second_ok_cont: "second_ok a b \<Longrightarrow> is_cont b"
  by (auto simp: second_ok_def is_cont_def split: if_splits)

lemma utf8_step_shape:
  assumes "utf8_step s = Utf8_Char n"
  shows "s \<noteq> [] \<and> n \<le> 4 \<and> \<not> is_cont (hd s) \<and> (\<forall>k. 0 < k \<and> k < n \<longrightarrow> is_cont (s ! k)) \<and>
    utf8_step (take n s) = Utf8_Char n"
proof (cases s)
  case Nil
  with assms show ?thesis by simp
next
  case (Cons b t)
  have "\<not> is_cont b" using assms Cons by (auto simp: is_cont_def utf8_char_width_def split: if_splits)
  moreover have "n \<in> {1, 2, 3, 4}" using assms Cons by (auto split: if_splits list.splits)
  moreover have "\<forall>k. 0 < k \<and> k < n \<longrightarrow> is_cont (s ! k)"
    using assms Cons by (auto simp: nth_Cons' numeral_eq_Suc less_Suc_eq split: if_splits list.splits dest: second_ok_cont)
  moreover have "utf8_step (take n s) = Utf8_Char n"
  proof (cases "utf8_char_width b = 1")
    case True
    with assms Cons have "n = 1" by simp
    with True Cons show ?thesis by simp
  next
    case False
    with assms Cons show ?thesis by (auto split: if_splits list.splits)
  qed
  ultimately show ?thesis using Cons by auto
qed

lemma valid_utf8_first:
  assumes "valid_utf8 s" and "s \<noteq> []"
  obtains n where "utf8_step s = Utf8_Char n" "0 < n" "n \<le> 4" "n \<le> length s" "valid_utf8 (take n s)"
    "valid_utf8 (drop n s)"
proof -
  from assms obtain n where n: "utf8_step s = Utf8_Char n"
    by (auto simp: valid_utf8_def from_utf8_def from_utf8_at.simps [of 0 s] split: utf8_decision.splits)
  note l = utf8_step_Char [OF n] and sh = utf8_step_shape [OF n]
  have t: "valid_utf8 (take n s)"
    using sh l by (simp add: valid_utf8_def from_utf8_def from_utf8_at.simps [of 0 "take n s"])
  moreover from assms(1) have "valid_utf8 (take n s @ drop n s)" by simp
  ultimately have "valid_utf8 (drop n s)" using valid_utf8_append by blast
  with that [OF n] l sh t show ?thesis by simp
qed

lemma boundary_after_first:
  assumes "valid_utf8 s" and "s \<noteq> []" and "utf8_step s = Utf8_Char n"
  shows "is_char_boundary s n"
proof (cases "n < length s")
  case True
  then have ne: "drop n s \<noteq> []" by simp
  from valid_utf8_first [OF assms(1,2)] assms(3) have "valid_utf8 (drop n s)" by auto
  from valid_utf8_first [OF this ne] obtain m where "utf8_step (drop n s) = Utf8_Char m" by blast
  from utf8_step_shape [OF this] True show ?thesis by (simp add: is_char_boundary_def hd_drop_conv_nth)
next
  case False
  with utf8_step_Char [OF assms(3)] show ?thesis by (simp add: is_char_boundary_def)
qed

lemma valid_utf8_take:
  "valid_utf8 s \<Longrightarrow> is_char_boundary s k \<Longrightarrow> k \<le> length s \<Longrightarrow> valid_utf8 (take k s)"
proof (induction "length s" arbitrary: s k rule: less_induct)
  case less
  show ?case
  proof (cases "s = [] \<or> k = 0")
    case True
    then show ?thesis using less.prems(1) by (auto simp: valid_utf8_def from_utf8_def)
  next
    case False
    then have "s \<noteq> []" by simp
    from valid_utf8_first [OF less.prems(1) this] obtain n where n: "utf8_step s = Utf8_Char n" "0 < n"
      "n \<le> length s" "valid_utf8 (take n s)" "valid_utf8 (drop n s)" by blast
    have "n \<le> k"
    proof (rule ccontr)
      assume "\<not> n \<le> k"
      with False utf8_step_shape [OF n(1)] have "is_cont (s ! k)" by auto
      with less.prems(2) False \<open>\<not> n \<le> k\<close> n(3) show False by (auto simp: is_char_boundary_def)
    qed
    have "is_char_boundary (drop n s) (k - n)"
      using less.prems(2,3) \<open>n \<le> k\<close> False by (auto simp: is_char_boundary_def)
    with less.hyps [of "drop n s" "k - n"] n less.prems(3) \<open>n \<le> k\<close> False
    have "valid_utf8 (take (k - n) (drop n s))" by auto
    with valid_utf8_append [OF n(4)] have "valid_utf8 (take n s @ take (k - n) (drop n s))" by simp
    also have "take n s @ take (k - n) (drop n s) = take k s"
      using \<open>n \<le> k\<close> by (metis le_add_diff_inverse take_add)
    finally show ?thesis .
  qed
qed

lemma valid_utf8_drop:
  assumes "valid_utf8 s" and "is_char_boundary s k" and "k \<le> length s"
  shows "valid_utf8 (drop k s)"
  using valid_utf8_append [OF valid_utf8_take [OF assms], of "drop k s"] assms(1) by simp

lemma floor_boundary_le: "floor_boundary s e \<le> e"
  by (induction e) auto

lemma floor_boundary_is: "is_char_boundary s (floor_boundary s e)"
  by (induction e) (auto simp: is_char_boundary_def)

lemma floor_boundary_max: "is_char_boundary s n \<Longrightarrow> n \<le> e \<Longrightarrow> n \<le> floor_boundary s e"
  by (induction e) (auto simp: le_Suc_eq)

text \<open>The pieces cover the text, are no longer than the limit, and are text themselves.\<close>

definition pieces_of :: "nat \<Rightarrow> string \<Rightarrow> string list \<Rightarrow> bool" where
  "pieces_of limit s ps \<longleftrightarrow>
     concat ps = s \<and> list_all (\<lambda>p. p \<noteq> [] \<and> length p \<le> limit \<and> valid_utf8 p) ps"

lemma chunk_list_covers:
  assumes "4 \<le> limit"
  shows "valid_utf8 s \<Longrightarrow> \<exists>ps. chunk_list limit s = Some ps \<and> pieces_of limit s ps"
proof (induction "length s" arbitrary: s rule: less_induct)
  case less
  show ?case
  proof (cases "s = []")
    case True
    then show ?thesis by (simp add: chunk_list.simps pieces_of_def)
  next
    case False
    from valid_utf8_first [OF less.prems False] obtain n where n: "utf8_step s = Utf8_Char n" "0 < n"
      "n \<le> 4" "n \<le> length s" by blast
    define e where "e = floor_boundary s (min (length s) limit)"
    have e: "n \<le> e" "e \<le> length s" "e \<le> limit" "is_char_boundary s e"
      using floor_boundary_max [OF boundary_after_first [OF less.prems False n(1)], of "min (length s) limit"]
        n assms floor_boundary_le [of s "min (length s) limit"] floor_boundary_is
      by (auto simp: e_def)
    have "length (drop e s) < length s" using n e by simp
    from less.hyps [OF this valid_utf8_drop [OF less.prems e(4,2)]] obtain ps where
      ps: "chunk_list limit (drop e s) = Some ps" "pieces_of limit (drop e s) ps" by blast
    have "chunk_list limit s = Some (take e s # ps)"
      using False ps(1) by (subst chunk_list.simps) (simp add: e_def [symmetric])
    moreover have "pieces_of limit s (take e s # ps)"
      using ps(2) e n valid_utf8_take [OF less.prems e(4,2)] False by (auto simp: pieces_of_def)
    ultimately show ?thesis by blast
  qed
qed

lemma chunks_cover: "valid_utf8 s \<Longrightarrow> \<exists>ps. chunks s = Some ps \<and> pieces_of CHUNK_BYTES s ps"
  unfolding chunks_def by (rule chunk_list_covers) (simp add: CHUNK_BYTES_def)

section \<open>Frames\<close>

lemma bval_char_of: "bval (char_of n) = n mod 256"
  by (simp add: bval_def of_char_of)

lemma from_to_be_bytes:
  assumes "n < 2 ^ 32"
  shows "from_be_bytes (to_be_bytes n) = n"
proof -
  define a where "a = n div 256"
  define b where "b = a div 256"
  have d: "n div 65536 = b" "n div 16777216 = b div 256"
    by (simp_all add: a_def b_def div_mult2_eq [symmetric])
  have "b div 256 < 256" using assms by (simp add: d(2) [symmetric] less_mult_imp_div_less)
  then have "from_be_bytes (to_be_bytes n) =
      ((b div 256 * 256 + b mod 256) * 256 + a mod 256) * 256 + n mod 256"
    by (simp add: from_be_bytes_def to_be_bytes_def bval_char_of d a_def [symmetric])
  also have "\<dots> = n"
    unfolding div_mult_mod_eq by (simp only: b_def a_def div_mult_mod_eq)
  finally show ?thesis .
qed

lemma length_to_be_bytes [simp]: "length (to_be_bytes n) = 4"
  by (simp add: to_be_bytes_def)

text \<open>A frame that was written is read back, and what follows it is left alone.\<close>

lemma write_read_frame:
  assumes "write_frame ser w v = (None, w')" and "\<And>b. ser v = Some b \<Longrightarrow> de b = Some v"
  shows "\<exists>bytes. w' = w @ bytes \<and> (\<forall>rest. read_frame de (bytes @ rest) = Inr (Some v, rest))"
proof -
  from assms(1) obtain b where b: "ser v = Some b" "length b \<le> MAX_FRAME"
    "w' = w @ to_be_bytes (length b) @ b"
    by (auto simp: write_frame_def split: option.splits if_splits)
  have n: "from_be_bytes (to_be_bytes (length b)) = length b"
    by (rule from_to_be_bytes) (use b(2) in \<open>simp add: MAX_FRAME_def\<close>)
  show ?thesis
    using b assms(2) [OF b(1)]
    by (intro exI [of _ "to_be_bytes (length b) @ b"]) (simp add: read_frame_def n Let_def)
qed

section \<open>Requests arrive as they were sent\<close>

fun join_all ::
  "(string \<Rightarrow> ('f, 'r) request option) \<Rightarrow> joining \<Rightarrow> ('f, 'r) request list \<Rightarrow>
   joining \<times> ('f, 'r) joined list" where
  "join_all de st [] = (st, [])"
| "join_all de st (v # vs) =
     (let (st', out) = join_frame de st v; (st'', outs) = join_all de st' vs in (st'', out # outs))"

lemma join_all_append:
  "join_all de st (a @ b) =
     (let (st', outs) = join_all de st a; (st'', outs') = join_all de st' b in (st'', outs @ outs'))"
  by (induction a arbitrary: st) (auto split: prod.splits)

text \<open>The bytes \<open>w'\<close> adds to \<open>w\<close> are read as these frames.\<close>

definition carries ::
  "(string \<Rightarrow> ('f, 'r) request option) \<Rightarrow> string \<Rightarrow> string \<Rightarrow> ('f, 'r) request list \<Rightarrow> bool" where
  "carries de w w' vs \<longleftrightarrow>
     (\<exists>bytes. w' = w @ bytes \<and>
       (\<forall>st rest. receive de st (bytes @ rest) =
         (let (st', outs) = join_all de st vs; (outs', e) = receive de st' rest in (outs @ outs', e))))"

lemma carries_Nil: "carries de w w []"
  by (simp add: carries_def)

lemma carries_append:
  assumes "carries de w w1 as" and "carries de w1 w2 bs"
  shows "carries de w w2 (as @ bs)"
proof -
  from assms(1) obtain b1 where 1: "w1 = w @ b1" "\<And>st rest. receive de st (b1 @ rest) =
      (let (st', outs) = join_all de st as; (outs', e) = receive de st' rest in (outs @ outs', e))"
    by (auto simp: carries_def)
  from assms(2) obtain b2 where 2: "w2 = w1 @ b2" "\<And>st rest. receive de st (b2 @ rest) =
      (let (st', outs) = join_all de st bs; (outs', e) = receive de st' rest in (outs @ outs', e))"
    by (auto simp: carries_def)
  show ?thesis
    unfolding carries_def
    by (intro exI [of _ "b1 @ b2"]) (auto simp: 1 2 join_all_append split: prod.split)
qed

lemma write_frame_carries:
  assumes "write_frame ser w v = (None, w')" and "\<And>b. ser v = Some b \<Longrightarrow> de b = Some v"
  shows "carries de w w' [v]"
proof -
  from write_read_frame [of ser w v w' de, OF assms] obtain bytes where
    b: "w' = w @ bytes" "\<And>rest. read_frame de (bytes @ rest) = Inr (Some v, rest)" by blast
  show ?thesis
    unfolding carries_def
    by (intro exI [of _ bytes]) (auto simp: b receive.simps [of de _ "bytes @ _"] split: prod.split)
qed

lemma write_frames_carries:
  assumes "write_frames ser w vs = (None, w')" and codec: "\<And>f b. ser f = Some b \<Longrightarrow> de b = Some f"
  shows "carries de w w' vs"
  using assms(1)
proof (induction vs arbitrary: w)
  case Nil
  then show ?case by (simp add: carries_Nil)
next
  case (Cons v vs)
  then obtain w1 where 1: "write_frame ser w v = (None, w1)" "write_frames ser w1 vs = (None, w')"
    by (auto split: prod.splits option.splits)
  from carries_append [OF write_frame_carries [where de = de, OF 1(1) codec] Cons.IH [OF 1(2)]] show ?case by simp
qed

fun is_piece :: "('f, 'r) request \<Rightarrow> bool" where
  "is_piece (Chunk d) = True"
| "is_piece (FrameChunk d) = True"
| "is_piece FrameJoin = True"
| "is_piece _ = False"

lemma join_whole:
  "\<not> is_piece r \<Longrightarrow> jn_frame_json st = [] \<Longrightarrow> join_frame de st r = join_text st r"
  by (cases r) auto

lemma join_text_chunks:
  assumes "\<not> jn_overflow st" and "length (jn_pending st) + length (concat ps) \<le> CLIPBOARD_PAYLOAD_MAX"
  shows "join_all de st (map Chunk ps) =
    (st\<lparr>jn_pending := jn_pending st @ concat ps\<rparr>, replicate (length ps) Wait)"
  using assms by (induction ps arbitrary: st) (auto simp: Let_def)

lemma join_json_chunks:
  assumes "\<not> jn_frame_overflow st" and "length (jn_frame_json st) + length (concat ps) \<le> JOINED_MAX"
  shows "join_all de st (map FrameChunk ps) =
    (st\<lparr>jn_frame_json := jn_frame_json st @ concat ps\<rparr>, replicate (length ps) Wait)"
  using assms by (induction ps arbitrary: st) (auto simp: Let_def)

lemma set_text_text:
  assumes "request_text r = Some t"
  shows "request_text (set_text u r) = Some u" and "set_text t (set_text u r) = r"
    and "is_piece (set_text u r) = is_piece r"
  using assms by (cases r; simp)+

text \<open>The frames a whole request goes out as are joined into one step of the loop.\<close>

definition joins_as ::
  "(string \<Rightarrow> ('f, 'r) request option) \<Rightarrow> joining \<Rightarrow> ('f, 'r) request list \<Rightarrow>
   joining \<times> ('f, 'r) joined \<Rightarrow> bool" where
  "joins_as de st vs r \<longleftrightarrow> (\<exists>n. join_all de st vs = (fst r, replicate n Wait @ [snd r]))"

lemma write_whole_joins:
  assumes wr: "write_whole_request ser w r negotiated = Some (None, w')"
    and codec: "\<And>f b. ser f = Some b \<Longrightarrow> de b = Some f"
    and piece: "\<not> is_piece r"
    and idle: "jn_frame_json st = []" "\<not> jn_frame_overflow st"
  shows "\<exists>vs. carries de w w' vs \<and> joins_as de st vs (join_text st r)"
proof (cases "write_frame ser w r = (None, w')")
  case True
  have "joins_as de st [r] (join_text st r)"
    unfolding joins_as_def
    by (intro exI [of _ 0]) (simp add: join_whole [OF piece idle(1)] split: prod.split)
  with write_frame_carries [where de = de, OF True codec] show ?thesis by blast
next
  case False
  with wr obtain json ps where j: "ser r = Some json" "length json \<le> JOINED_MAX" "valid_utf8 json"
    "chunks json = Some ps" "write_frames ser w (map FrameChunk ps @ [FrameJoin]) = (None, w')"
    by (auto simp: write_whole_request_def split: if_splits option.splits)
  from chunks_cover [OF j(3)] j(4) have c: "concat ps = json" by (simp add: pieces_of_def)
  have a: "join_all de st (map FrameChunk ps) =
      (st\<lparr>jn_frame_json := json\<rparr>, replicate (length ps) Wait)"
    using join_json_chunks [OF idle(2), of ps de] j(2) by (simp add: idle(1) c)
  have st: "st\<lparr>jn_frame_json := []\<rparr> = st" using idle(1) by (cases st) simp
  have "join_all de st (map FrameChunk ps @ [FrameJoin]) =
      (fst (join_text st r), replicate (length ps) Wait @ [snd (join_text st r)])"
    using idle(2) codec [OF j(1)] by (simp add: join_all_append a st Let_def split: prod.split)
  then have "joins_as de st (map FrameChunk ps @ [FrameJoin]) (join_text st r)"
    unfolding joins_as_def by blast
  with write_frames_carries [where de = de, OF j(5) codec] show ?thesis by blast
qed

lemma write_whole_ends:
  "\<exists>e w'. write_whole_request ser w r negotiated = Some (e, w')"
  using chunks_cover
  by (fastforce simp: write_whole_request_def split: option.split if_splits prod.split)

text \<open>What a worker makes of the bytes of one request: heartbeats of the join, then the request.\<close>

definition delivers ::
  "(string \<Rightarrow> ('f, 'r) request option) \<Rightarrow> string \<Rightarrow> string \<Rightarrow> ('f, 'r) request \<Rightarrow> bool" where
  "delivers de w w' r \<longleftrightarrow>
     (\<exists>bytes n. w' = w @ bytes \<and>
       (\<forall>rest. receive de joining_idle (bytes @ rest) =
         (let (outs, e) = receive de joining_idle rest in (replicate n Wait @ Handle r # outs, e))))"

lemma carries_delivers:
  assumes "carries de w w' vs" and "join_all de joining_idle vs = (joining_idle, replicate n Wait @ [Handle r])"
  shows "delivers de w w' r"
proof -
  from assms(1) obtain bytes where b: "w' = w @ bytes" "\<And>st rest. receive de st (bytes @ rest) =
      (let (st', outs) = join_all de st vs; (outs', e) = receive de st' rest in (outs @ outs', e))"
    by (auto simp: carries_def)
  show ?thesis
    unfolding delivers_def
    by (intro exI [of _ bytes] exI [of _ n]) (auto simp: b assms(2) split: prod.split)
qed


text \<open>A paste of one byte more than a piece holds, in a codec for its frames.\<close>

definition demo_text :: string where
  "demo_text = replicate (CHUNK_BYTES + 1) (CHR ''a'')"

definition demo_request :: "(unit, unit) request" where
  "demo_request = ReplayPlan ''w'' ''d'' demo_text"

fun demo_ser :: "(unit, unit) request \<Rightarrow> string option" where
  "demo_ser (Chunk d) = Some (CHR ''c'' # d)"
| "demo_ser (ReplayPlan w d t) = (if w = ''w'' \<and> d = ''d'' \<and> t = [] then Some ''r'' else None)"
| "demo_ser _ = None"

definition demo_de :: "string \<Rightarrow> (unit, unit) request option" where
  "demo_de b =
     (case b of [] \<Rightarrow> None
      | c # d \<Rightarrow> if c = CHR ''c'' then Some (Chunk d) else Some (ReplayPlan ''w'' ''d'' []))"

lemma demo_codec: "demo_ser f = Some b \<Longrightarrow> demo_de b = Some f"
  by (cases f) (auto simp: demo_de_def split: if_splits)

lemma write_frames_ok:
  assumes "\<forall>v\<in>set vs. \<exists>b. ser v = Some b \<and> length b \<le> MAX_FRAME"
  shows "\<exists>w'. write_frames ser w vs = (None, w')"
  using assms by (induction vs arbitrary: w) (auto simp: write_frame_def)


section \<open>What goes wrong stays contained\<close>

text \<open>
  Once a request was over the join limit the flag is never taken back: every request sent in
  pieces after it is refused on this connection, however small.
\<close>

lemma frame_overflow_sticks:
  "jn_frame_overflow st \<Longrightarrow>
   jn_frame_overflow (fst (join_frame de st v)) \<and>
   (v = FrameJoin \<longrightarrow> (\<exists>m. snd (join_frame de st v) = Refuse Err_TooLarge m))"
  by (cases v; simp add: join_text_def Let_def)

text \<open>A text that is over the limit is refused once, and the next request is served.\<close>

lemma text_overflow_cleared:
  "\<not> is_piece v \<Longrightarrow> jn_frame_json st = [] \<Longrightarrow> jn_overflow st \<Longrightarrow>
   \<not> jn_overflow (fst (join_frame de st v)) \<and> jn_pending (fst (join_frame de st v)) = []"
  by (simp add: join_whole join_text_def Let_def)

section \<open>Paths a request may name\<close>

lemma ends_Nil_split: "[] \<notin> set (split_char c s) \<Longrightarrow> s \<noteq> []"
  by auto

text \<open>
  A relative path a request may name stays below the folder it is joined to: its components
  are exactly its pieces between slashes, none of them \<open>.\<close>, \<open>..\<close> or empty, so joining it to an
  absolute folder appends those names; and the first piece is no option or pathspec.
\<close>

theorem valid_rel_path_below:
  assumes "valid_rel_path s False" and "np_absolute d"
  shows "path_join d (components s) = d\<lparr>np_names := np_names d @ split_char slash s\<rparr> \<and>
    list_all plain_name (split_char slash s) \<and> hd s \<noteq> CHR ''-'' \<and> hd s \<noteq> CHR '':''"
proof -
  from assms(1) have s: "s \<noteq> []" "\<not> starts_with ''/'' s" "\<not> starts_with ''-'' s" "\<not> starts_with '':'' s"
    and segs: "list_all (\<lambda>c. c \<noteq> [] \<and> c \<noteq> dot \<and> c \<noteq> dotdot) (split_char slash s)"
    by (auto simp: valid_rel_path_def list_ex_iff list_all_iff split: if_splits)
  have "hd (split_char slash s) \<in> set (split_char slash s)" by (rule hd_in_set) simp
  then have "hd (split_char slash s) \<noteq> dot" using segs by (auto simp: list_all_iff)
  then have n: "np_names (components s) = split_char slash s" "\<not> np_absolute (components s)"
    using segs s by (auto simp: components_def list_all_iff filter_id_conv slash_def)
  have "filter (\<lambda>c. c \<noteq> dot) (split_char slash s) = split_char slash s"
    using segs by (auto simp: list_all_iff filter_id_conv)
  then show ?thesis
    using segs s assms(2) by (auto simp: path_join_def n list_all_iff plain_name_def)
qed

theorem valid_rel_path_below_witness:
  "path_join (components ''/w'') (components ''src/a.rs'') =
     (components ''/w'')\<lparr>np_names := np_names (components ''/w'') @ split_char slash ''src/a.rs''\<rparr> \<and>
   list_all plain_name (split_char slash ''src/a.rs'') \<and>
   hd ''src/a.rs'' \<noteq> CHR ''-'' \<and> hd ''src/a.rs'' \<noteq> CHR '':''"
  by (rule valid_rel_path_below; code_simp)

text \<open>The second pass over the components never refuses what the first let through.\<close>

lemma component_check_redundant:
  "list_all (\<lambda>c. c \<noteq> [] \<and> c \<noteq> dot \<and> c \<noteq> dotdot) (split_char slash s) \<Longrightarrow> \<not> starts_with ''/'' s \<Longrightarrow>
   all_normal (components s)"
  by (auto simp: all_normal_def components_def list_all_iff slash_def)

section \<open>Prepared pastes\<close>

text \<open>The specification: the creates get the contents of the entries they refer to.\<close>

definition create_of :: "parsed_entry list \<Rightarrow> import_create_metadata \<Rightarrow> create_operation" where
  "create_of entries op =
     \<lparr>co_relative_path = icm_relative_path op, co_absolute_path = icm_absolute_path op,
      co_content = entry_content (entries ! icm_entry op), co_existed = icm_existed op,
      co_root_path = icm_root_path op\<rparr>"

definition payload_bytes :: "parsed_entry list \<Rightarrow> nat" where
  "payload_bytes entries = sum_list (map (\<lambda>e. length (entry_content e)) entries)"

definition referenced_bytes :: "parsed_entry list \<Rightarrow> import_create_metadata list \<Rightarrow> nat" where
  "referenced_bytes entries ops = sum_list (map (\<lambda>op. length (entry_content (entries ! icm_entry op))) ops)"

definition accepted :: "'e + 'a \<Rightarrow> 'a option" where
  "accepted r = (case r of Inl _ \<Rightarrow> None | Inr x \<Rightarrow> Some x)"

lemma accepted_simps [simp]: "accepted (Inl e) = None" "accepted (Inr x) = Some x"
  by (simp_all add: accepted_def)

definition in_range :: "parsed_entry list \<Rightarrow> import_create_metadata list \<Rightarrow> bool" where
  "in_range entries ops \<longleftrightarrow> list_all (\<lambda>op. icm_entry op < length entries) ops"

definition hydrated_plan :: "parsed_entry list \<Rightarrow> 'f import_metadata \<Rightarrow> 'f transfer_import_plan" where
  "hydrated_plan entries md =
     \<lparr>tip_roots = im_roots md,
      tip_restore_plan = \<lparr>rp_roots = im_restore_roots md,
        rp_create_operations = map (create_of entries) (im_creates md),
        rp_delete_operations = im_deletes md, rp_skipped_operations = im_skips md\<rparr>,
      tip_freshness = im_freshness md\<rparr>"

lemma source_bytes_sum:
  "int n \<le> 2 ^ 64 - 1 \<Longrightarrow> source_bytes n es =
     (if int (n + payload_bytes es) \<le> 2 ^ 64 - 1 then Some (n + payload_bytes es) else None)"
  by (induction es arbitrary: n) (auto simp: checked_add_def payload_bytes_def)

definition uses :: "import_create_metadata list \<Rightarrow> nat \<Rightarrow> nat" where
  "uses ops i = length (filter (\<lambda>op. icm_entry op = i) ops)"

lemma uses_simps [simp]:
  "uses [] i = 0" "uses (op # ops) i = (if icm_entry op = i then 1 else 0) + uses ops i"
  by (simp_all add: uses_def)

lemma count_references_sum:
  assumes "int available \<le> 2 ^ 64 - 1" and "length refs = length entries"
  shows "accepted (count_references entries available refs h ops) =
     (if in_range entries ops \<and> (ops = [] \<or> h + referenced_bytes entries ops \<le> available)
      then Some (map (\<lambda>i. refs ! i + uses ops i) [0..<length entries]) else None)"
  using assms(2)
proof (induction ops arbitrary: refs h)
  case Nil
  then show ?case by (simp add: in_range_def flip: Nil map_nth)
next
  case (Cons op ops)
  let ?h = "h + length (entry_content (entries ! icm_entry op))"
  have r: "map (\<lambda>i. refs[icm_entry op := refs ! icm_entry op + 1] ! i + uses ops i) [0..<length entries] =
      map (\<lambda>i. refs ! i + uses (op # ops) i) [0..<length entries]"
    using Cons.prems by (auto simp: nth_list_update)
  show ?case
    using assms(1) Cons.IH [of "refs[icm_entry op := refs ! icm_entry op + 1]" ?h] Cons.prems
    unfolding r by (cases "ops = []") (auto simp: in_range_def checked_add_def referenced_bytes_def add.assoc)
qed

lemma take_contents_creates:
  assumes "in_range entries ops" and "length es = length entries" and "length refs = length entries"
    and "\<And>i. i < length entries \<Longrightarrow> refs ! i = uses ops i"
    and "\<And>i. i < length entries \<Longrightarrow> 0 < uses ops i \<Longrightarrow> entry_content (es ! i) = entry_content (entries ! i)"
  shows "take_contents es refs ops = Inr (map (create_of entries) ops)"
  using assms
proof (induction ops arbitrary: es refs)
  case Nil
  then show ?case by simp
next
  case (Cons op ops)
  let ?i = "icm_entry op"
  let ?refs = "refs[?i := refs ! ?i - 1]"
  let ?es = "if ?refs ! ?i = 0 then es[?i := (es ! ?i)\<lparr>entry_content := []\<rparr>] else es"
  have i: "?i < length entries" using Cons.prems(1) by (simp add: in_range_def)
  have "take_contents ?es ?refs ops = Inr (map (create_of entries) ops)"
  proof (rule Cons.IH)
    show "in_range entries ops" using Cons.prems(1) by (simp add: in_range_def)
    fix j assume j: "j < length entries"
    show "?refs ! j = uses ops j"
      using Cons.prems(3) Cons.prems(4) [OF j] j by (cases "?i = j") auto
    assume "0 < uses ops j"
    then show "entry_content (?es ! j) = entry_content (entries ! j)"
      using Cons.prems(2,3) Cons.prems(4,5) [OF j] j i by (auto simp: nth_list_update)
  qed (use Cons.prems(2,3) in auto)
  then show ?case
    using i Cons.prems(2) Cons.prems(5) [OF i] by (simp add: Let_def create_of_def)
qed


lemma accepted_and_then: "accepted (and_then r f) = Option.bind (accepted r) (\<lambda>x. accepted (f x))"
  by (cases r) auto

lemma release_unused_nth:
  "length refs = length entries \<Longrightarrow> i < length entries \<Longrightarrow>
   length (release_unused entries refs) = length entries \<and>
   (0 < refs ! i \<longrightarrow> release_unused entries refs ! i = entries ! i)"
  by (simp add: release_unused_def)

lemma take_contents_released:
  assumes "in_range entries ops"
  shows "take_contents (release_unused entries (map (uses ops) [0..<length entries]))
      (map (uses ops) [0..<length entries]) ops = Inr (map (create_of entries) ops)"
  by (rule take_contents_creates [OF assms]) (auto simp: release_unused_nth, simp add: release_unused_def)

lemma hydrate_entries_iff:
  "accepted (hydrate_entries dg self entries) =
     (let md = ipr_metadata self; plan = hydrated_plan entries md in
      if int (payload_bytes entries) \<le> 2 ^ 64 - 1 \<and> in_range entries (im_creates md) \<and>
         referenced_bytes entries (im_creates md) \<le> payload_bytes entries \<and>
         dg (tip_restore_plan plan) = Inr (ipr_digest self)
      then Some \<lparr>ip_plan = plan, ip_digest = ipr_digest self, ip_suggestion = ipr_suggestion self\<rparr>
      else None)"
proof -
  let ?md = "ipr_metadata self" and ?n = "length entries"
  have s: "source_bytes 0 entries =
      (if int (payload_bytes entries) \<le> 2 ^ 64 - 1 then Some (payload_bytes entries) else None)"
    using source_bytes_sum [of 0 entries] by simp
  have c: "accepted (count_references entries (payload_bytes entries) (replicate ?n 0) 0 (im_creates ?md)) =
      (if in_range entries (im_creates ?md) \<and>
          referenced_bytes entries (im_creates ?md) \<le> payload_bytes entries
       then Some (map (uses (im_creates ?md)) [0..<?n]) else None)"
    if "int (payload_bytes entries) \<le> 2 ^ 64 - 1"
    using count_references_sum [OF that, of "replicate ?n 0"]
    by (auto simp: referenced_bytes_def cong: map_cong)
  show ?thesis
    using take_contents_released [of entries "im_creates ?md"]
    by (cases "dg (tip_restore_plan (hydrated_plan entries ?md))")
      (auto simp: hydrate_entries_def Let_def s accepted_and_then c hydrated_plan_def)
qed

text \<open>
  C1.  The two passes over a prepared paste are the substitution they stand for. The paste is
  accepted exactly when every create refers to an entry of the payload, the creates together hold
  no more bytes than the payload does, the payload's bytes fit a \<open>usize\<close> and the filled-in plan
  has the digest the user saw; and then each create has the content of the entry it refers to,
  although contents are moved out of the entries at the last reference.
\<close>

theorem hydrate_fills_creates:
  "accepted (hydrate_entries dg self entries) =
     (let md = ipr_metadata self; plan = hydrated_plan entries md in
      if int (payload_bytes entries) \<le> 2 ^ 64 - 1 \<and> in_range entries (im_creates md) \<and>
         referenced_bytes entries (im_creates md) \<le> payload_bytes entries \<and>
         dg (tip_restore_plan plan) = Inr (ipr_digest self)
      then Some \<lparr>ip_plan = plan, ip_digest = ipr_digest self, ip_suggestion = ipr_suggestion self\<rparr>
      else None)"
  by (rule hydrate_entries_iff)

lemma create_of_planned:
  assumes "length idx = length cs"
    and "list_all2 (\<lambda>op i. i < length entries \<and> co_content op = entry_content (entries ! i)) cs idx"
  shows "map (create_of entries) (map (\<lambda>(op, entry).
           \<lparr>icm_relative_path = co_relative_path op, icm_absolute_path = co_absolute_path op,
            icm_existed = co_existed op, icm_root_path = co_root_path op, icm_entry = entry\<rparr>)
           (zip cs idx)) = cs"
  using assms(2) by (induction rule: list_all2_induct) (auto simp: create_of_def)

text \<open>
  C40.  A paste planned from a payload survives being kept as references into it: if every create's
  content is the content of the entry its index names, the indices reach each payload byte no more
  often than the payload pays for, and the digest is the plan's, then filling the references in
  again gives back the planned import, field for field.
\<close>

theorem prepared_round_trip:
  assumes "of_entry_indices plan idx = Inr md"
    and "list_all2 (\<lambda>op i. i < length entries \<and> co_content op = entry_content (entries ! i))
      (rp_create_operations (tip_restore_plan plan)) idx"
    and "referenced_bytes entries (im_creates md) \<le> payload_bytes entries"
    and "int (payload_bytes entries) \<le> 2 ^ 64 - 1"
    and "dg (tip_restore_plan plan) = Inr d"
  shows "accepted (hydrate_entries dg
      \<lparr>ipr_metadata = md, ipr_digest = d, ipr_suggestion = sug, ipr_token = tok\<rparr> entries) =
    Some \<lparr>ip_plan = plan, ip_digest = d, ip_suggestion = sug\<rparr>"
proof -
  let ?cs = "rp_create_operations (tip_restore_plan plan)"
  from assms(1) have l: "length idx = length ?cs"
    and md: "md = \<lparr>im_roots = tip_roots plan, im_restore_roots = rp_roots (tip_restore_plan plan),
         im_creates = map (\<lambda>(op, entry).
           \<lparr>icm_relative_path = co_relative_path op, icm_absolute_path = co_absolute_path op,
            icm_existed = co_existed op, icm_root_path = co_root_path op, icm_entry = entry\<rparr>)
           (zip ?cs idx),
         im_deletes = rp_delete_operations (tip_restore_plan plan),
         im_skips = rp_skipped_operations (tip_restore_plan plan), im_freshness = tip_freshness plan\<rparr>"
    by (auto simp: of_entry_indices_def Let_def split: if_splits)
  have "hydrated_plan entries md = plan"
    by (simp add: hydrated_plan_def md create_of_planned [OF l assms(2)] del: map_map)
  moreover have "in_range entries (im_creates md)"
    using assms(2) by (auto simp: in_range_def md list_all_iff list_all2_iff)
  ultimately show ?thesis
    using assms(3-5) by (simp add: hydrate_entries_iff Let_def)
qed

definition demo_create :: create_operation where
  "demo_create = \<lparr>co_relative_path = ''a.rs'', co_absolute_path = components ''/w/a.rs'',
     co_content = ''fn a() {}'', co_existed = False, co_root_path = components ''/w''\<rparr>"

definition demo_plan :: "unit transfer_import_plan" where
  "demo_plan = \<lparr>tip_roots = [components ''/w''],
     tip_restore_plan = \<lparr>rp_roots = [components ''/w''], rp_create_operations = [demo_create],
       rp_delete_operations = [], rp_skipped_operations = []\<rparr>, tip_freshness = ()\<rparr>"

definition demo_entries :: "parsed_entry list" where
  "demo_entries =
     [\<lparr>entry_path = ''b.rs'', entry_content = ''b'', entry_change_types = {}\<rparr>,
      \<lparr>entry_path = ''a.rs'', entry_content = ''fn a() {}'', entry_change_types = {}\<rparr>]"

definition demo_metadata :: "unit import_metadata" where
  "demo_metadata = \<lparr>im_roots = [components ''/w''], im_restore_roots = [components ''/w''],
     im_creates = [\<lparr>icm_relative_path = ''a.rs'', icm_absolute_path = components ''/w/a.rs'',
       icm_existed = False, icm_root_path = components ''/w'', icm_entry = 1\<rparr>],
     im_deletes = [], im_skips = [], im_freshness = ()\<rparr>"

theorem prepared_round_trip_witness:
  "accepted (hydrate_entries (\<lambda>_. Inr ''d'')
      \<lparr>ipr_metadata = demo_metadata, ipr_digest = ''d'', ipr_suggestion = None, ipr_token = None\<rparr>
      demo_entries) =
    Some \<lparr>ip_plan = demo_plan, ip_digest = ''d'', ip_suggestion = None\<rparr>"
  by (rule prepared_round_trip [where idx = "[1]"])
    (simp_all add: demo_plan_def demo_create_def demo_entries_def demo_metadata_def of_entry_indices_def
      referenced_bytes_def payload_bytes_def)

end
