(* ===== verification/Machine.thy ===== *)
theory Machine
  imports Main
begin

text \<open>
  State machines: what the operations of a shared object can do, one step at a time, in any order.
  A step is labelled with what the caller sees of it; \<open>runs\<close> is the sequences of steps.  The
  locale \<open>machine\<close> is the contract of an invariant, and \<open>keeping\<close> that of a fact which lasts as
  long as only certain steps are taken.  The prepared pastes, the admission of jobs and the
  lifecycle of a window interpret both.
\<close>

inductive runs :: "('s \<Rightarrow> 'e \<Rightarrow> 's \<Rightarrow> bool) \<Rightarrow> 's \<Rightarrow> 'e list \<Rightarrow> 's \<Rightarrow> bool"
  for step where
  runs_none: "runs step s [] s"
| runs_more: "step s e t \<Longrightarrow> runs step t es u \<Longrightarrow> runs step s (e # es) u"

inductive_simps runs_Nil [simp]: "runs step s [] t"
inductive_simps runs_Cons: "runs step s (e # es) u"

lemma runs_one: "step s e t \<Longrightarrow> runs step s [e] t"
  by (blast intro: runs_more runs_none)

lemma runs_append:
  "runs step s es t \<Longrightarrow> runs step t fs u \<Longrightarrow> runs step s (es @ fs) u"
  by (induction rule: runs.induct) (auto intro: runs_more)

locale machine =
  fixes start :: "'s \<Rightarrow> bool"
    and step :: "'s \<Rightarrow> 'e \<Rightarrow> 's \<Rightarrow> bool"
    and inv :: "'s \<Rightarrow> bool"
  assumes inv_start: "start s \<Longrightarrow> inv s"
    and inv_step: "inv s \<Longrightarrow> step s e t \<Longrightarrow> inv t"
begin

lemma inv_runs: "runs step s es t \<Longrightarrow> inv s \<Longrightarrow> inv t"
  by (induction rule: runs.induct) (auto intro: inv_step)

lemma inv_reachable: "start s \<Longrightarrow> runs step s es t \<Longrightarrow> inv t"
  using inv_runs inv_start by blast

end

text \<open>A fact that lasts through every step but the ones that may end it.\<close>

locale keeping = machine +
  fixes holds :: "'a \<Rightarrow> bool"
    and quiet :: "'b \<Rightarrow> bool"
  assumes kept: "inv s \<Longrightarrow> holds s \<Longrightarrow> step s e t \<Longrightarrow> quiet e \<Longrightarrow> holds t"
begin

lemma kept_runs:
  "runs step s es t \<Longrightarrow> inv s \<Longrightarrow> holds s \<Longrightarrow> list_all quiet es \<Longrightarrow> holds t"
  by (induction rule: runs.induct) (auto intro: inv_step kept)

end

end
