(* ===== verification/Prepared.thy ===== *)
theory Prepared
  imports "HOL-Library.Multiset" Machine Proto
begin

text \<open>
  The worker's one-use cache of prepared pastes (\<open>crates/remote/src/prepared.rs\<close>): payloads kept
  for the Apply that follows a preview, bounded in number and bytes, handed out once.  A payload
  that is handed out is owned by a lease, and stays charged to the cache until the lease is dropped.

  The mutex makes every operation on the state one step; the clock is read inside them, so its
  reading is an argument.  What \<open>size_of\<close>, \<open>String::capacity\<close> and the like report is not in the
  source: it is the argument \<open>memory\<close>.
\<close>

section \<open>Payloads\<close>

definition MAX_BYTES :: nat where "MAX_BYTES = 128 * 1024 * 1024"
definition MAX_ENTRIES :: nat where "MAX_ENTRIES = 8"

text \<open>\<open>Duration\<close>s are numbers of nanoseconds.\<close>

definition TTL :: nat where "TTL = 5 * 60 * 1000000000"

definition duration_add :: "nat \<Rightarrow> nat \<Rightarrow> nat" where
  "duration_add a b = nat (min (int a + int b) ((2 ^ 64 - 1) * 1000000000 + 999999999))"

record 'r cached_import =
  ci_text :: string
  ci_mapping :: paste_mapping
  ci_workspace :: native_path
  ci_destination :: native_path
  ci_digest :: string
  ci_replay :: "'r option"

record 'r memory =
  mem_import :: nat
  mem_stored :: nat
  mem_prefix :: nat
  mem_replay :: nat
  mem_string :: "string \<Rightarrow> nat"
  mem_path :: "native_path \<Rightarrow> nat"
  mem_prefixes :: "(string \<times> string) list \<Rightarrow> nat"
  mem_heap :: "'r \<Rightarrow> nat"

definition cached_bytes :: "'r memory \<Rightarrow> 'r cached_import \<Rightarrow> nat" where
  "cached_bytes mem p =
     foldl (\<lambda>tot (prefix, folder). sat_add (sat_add tot (mem_string mem prefix)) (mem_string mem folder))
       (mem_import mem + 4 * mem_stored mem + 256 + mem_string mem (ci_text p) +
        mem_path mem (ci_workspace p) + mem_path mem (ci_destination p) + mem_string mem (ci_digest p) +
        mem_string mem (pm_header_format (ci_mapping p)) +
        mem_prefixes mem (pm_prefixes (ci_mapping p)) * mem_prefix mem +
        (case ci_replay p of None \<Rightarrow> 0 | Some preview \<Rightarrow> mem_replay mem + mem_heap mem preview))
       (pm_prefixes (ci_mapping p))"

section \<open>The state\<close>

record 'r stored =
  sd_token :: string
  sd_expires :: nat
  sd_bytes :: nat
  sd_payload :: "'r cached_import"

record 'r cache_state =
  cs_entries :: "'r stored list"
  cs_bytes :: nat
  cs_count :: nat
  cs_max_bytes :: nat
  cs_max_entries :: nat
  cs_ttl :: nat
  cs_offset :: nat
  cs_next :: nat

definition cache_new :: "'r cache_state" where
  "cache_new = \<lparr>cs_entries = [], cs_bytes = 0, cs_count = 0, cs_max_bytes = MAX_BYTES,
     cs_max_entries = MAX_ENTRIES, cs_ttl = TTL, cs_offset = 0, cs_next = 0\<rparr>"

definition cache_now :: "'r cache_state \<Rightarrow> nat \<Rightarrow> nat" where
  "cache_now st elapsed = duration_add elapsed (cs_offset st)"

text \<open>\<open>Vec::swap_remove\<close>\<close>

definition swap_remove :: "nat \<Rightarrow> 'a list \<Rightarrow> 'a list" where
  "swap_remove i xs = (butlast xs)[i := last xs]"

text \<open>Giving back what one payload was charged.\<close>

definition discharge :: "nat \<Rightarrow> 'r cache_state \<Rightarrow> 'r cache_state" where
  "discharge b st = st\<lparr>cs_bytes := cs_bytes st - b, cs_count := cs_count st - 1\<rparr>"

function prune_from :: "nat \<Rightarrow> nat \<Rightarrow> 'r cache_state \<Rightarrow> 'r cache_state" where
  "prune_from now i st =
     (if i < length (cs_entries st)
      then (if sd_expires (cs_entries st ! i) \<le> now
            then prune_from now i (discharge (sd_bytes (cs_entries st ! i))
              (st\<lparr>cs_entries := swap_remove i (cs_entries st)\<rparr>))
            else prune_from now (Suc i) st)
      else st)"
  by pat_completeness auto
termination
  by (relation "measure (\<lambda>(now, i, st). length (cs_entries st) - i)")
    (auto simp: discharge_def swap_remove_def)

declare prune_from.simps [simp del]

definition prune :: "nat \<Rightarrow> 'r cache_state \<Rightarrow> 'r cache_state" where
  "prune elapsed st = prune_from (cache_now st elapsed) 0 st"

section \<open>Operations\<close>

text \<open>\<open>{:016x}\<close> of a \<open>u64\<close>\<close>

definition hex_digit :: "nat \<Rightarrow> char" where
  "hex_digit n = (''0123456789abcdef'' ! n)"

fun hex_digits :: "nat \<Rightarrow> nat \<Rightarrow> string" where
  "hex_digits 0 n = []"
| "hex_digits (Suc k) n = hex_digits k (n div 16) @ [hex_digit (n mod 16)]"

definition token_of :: "string \<Rightarrow> nat \<Rightarrow> string" where
  "token_of nonce n = nonce @ ''-'' @ hex_digits 16 n"

text \<open>The clock is read for the pruning and again for the expiry.\<close>

definition cache_insert ::
  "'r memory \<Rightarrow> string \<Rightarrow> nat \<Rightarrow> nat \<Rightarrow> 'r cached_import \<Rightarrow> 'r cache_state \<Rightarrow>
   'r cache_state \<times> string option" where
  "cache_insert mem nonce elapsed elapsed' payload st0 =
     (let st = prune elapsed st0; b = sat_add (cached_bytes mem payload) (length nonce + 17) in
      if cs_max_bytes st < sat_add (cs_bytes st) b \<or> cs_max_entries st \<le> cs_count st then (st, None)
      else
        (let token = token_of nonce (cs_next st) in
         case checked_add (cs_next st) 1 of
           None \<Rightarrow> (st, None)
         | Some next \<Rightarrow>
             (st\<lparr>cs_next := next, cs_bytes := sat_add (cs_bytes st) b, cs_count := cs_count st + 1,
                 cs_entries := cs_entries st @
                   [\<lparr>sd_token = token, sd_expires = duration_add (cache_now st elapsed') (cs_ttl st),
                     sd_bytes = b, sd_payload = payload\<rparr>]\<rparr>,
              Some token)))"

datatype cache_error = Missing | Scope | Digest

record 'r payload_lease =
  pl_payload :: "'r cached_import option"
  pl_token :: string
  pl_expires :: nat
  pl_bytes :: nat

fun position :: "('a \<Rightarrow> bool) \<Rightarrow> 'a list \<Rightarrow> nat option" where
  "position P [] = None"
| "position P (x # xs) = (if P x then Some 0 else map_option Suc (position P xs))"

text \<open>What \<open>take\<close> does while it holds the lock: the entry becomes a lease.\<close>

definition take_lease ::
  "nat \<Rightarrow> string \<Rightarrow> 'r cache_state \<Rightarrow> 'r cache_state \<times> 'r payload_lease option" where
  "take_lease elapsed token st0 =
     (let st = prune elapsed st0 in
      case position (\<lambda>entry. sd_token entry = token) (cs_entries st) of
        None \<Rightarrow> (st, None)
      | Some index \<Rightarrow>
          (let entry = cs_entries st ! index in
           (st\<lparr>cs_entries := swap_remove index (cs_entries st)\<rparr>,
            Some \<lparr>pl_payload = Some (sd_payload entry), pl_token = sd_token entry,
                  pl_expires = sd_expires entry, pl_bytes = sd_bytes entry\<rparr>)))"

definition drop_lease :: "'r payload_lease \<Rightarrow> 'r cache_state \<Rightarrow> 'r cache_state" where
  "drop_lease lease st =
     (case pl_payload lease of None \<Rightarrow> st | Some _ \<Rightarrow> discharge (pl_bytes lease) st)"

text \<open>The payload that comes out must be of the scope and the preview the caller names.\<close>

definition check_scope ::
  "native_path \<Rightarrow> native_path \<Rightarrow> string \<Rightarrow> 'r cached_import \<Rightarrow> cache_error option" where
  "check_scope workspace destination digest payload =
     (if ci_workspace payload \<noteq> workspace \<or> ci_destination payload \<noteq> destination then Some Scope
      else if ci_digest payload \<noteq> digest then Some Digest
      else None)"

definition cache_take ::
  "nat \<Rightarrow> string \<Rightarrow> native_path \<Rightarrow> native_path \<Rightarrow> string \<Rightarrow> 'r cache_state \<Rightarrow>
   'r cache_state \<times> (cache_error + 'r payload_lease)" where
  "cache_take elapsed token workspace destination digest st0 =
     (case take_lease elapsed token st0 of
        (st, None) \<Rightarrow> (st, Inl Missing)
      | (st, Some lease) \<Rightarrow>
          (case pl_payload lease of
             None \<Rightarrow> (st, Inr lease)
           | Some payload \<Rightarrow>
               (case check_scope workspace destination digest payload of
                  Some e \<Rightarrow> (drop_lease lease st, Inl e)
                | None \<Rightarrow> (st, Inr lease))))"

definition restore_lease :: "nat \<Rightarrow> 'r payload_lease \<Rightarrow> 'r cache_state \<Rightarrow> 'r cache_state" where
  "restore_lease elapsed lease st =
     (if cache_now st elapsed < pl_expires lease
      then (case pl_payload lease of
        None \<Rightarrow> drop_lease lease st
      | Some payload \<Rightarrow>
          drop_lease (lease\<lparr>pl_payload := None, pl_token := []\<rparr>)
            (st\<lparr>cs_entries := cs_entries st @
               [\<lparr>sd_token = pl_token lease, sd_expires = pl_expires lease,
                 sd_bytes = pl_bytes lease, sd_payload = payload\<rparr>]\<rparr>))
      else drop_lease lease st)"

text \<open>The entry points of the tests: new limits empty the cache, time jumps past every expiry.\<close>

definition set_limits_for_tests :: "nat \<Rightarrow> nat \<Rightarrow> nat \<Rightarrow> 'r cache_state \<Rightarrow> 'r cache_state" where
  "set_limits_for_tests b n ttl st =
     (foldr (\<lambda>entry s. discharge (sd_bytes entry) s) (cs_entries st) st)
       \<lparr>cs_entries := [], cs_max_bytes := b, cs_max_entries := min n MAX_ENTRIES, cs_ttl := ttl\<rparr>"

definition expire_for_tests :: "nat \<Rightarrow> 'r cache_state \<Rightarrow> 'r cache_state" where
  "expire_for_tests elapsed st =
     prune elapsed (st\<lparr>cs_offset := duration_add (duration_add (cs_offset st) (cs_ttl st)) 1000000000\<rparr>)"

section \<open>The cache and the leases it gave out\<close>

record 'r cache_system =
  sy_cache :: "'r cache_state"
  sy_leases :: "'r payload_lease list"
  sy_elapsed :: nat

datatype cache_event =
  Inserted "string option" | Taken string bool | Restored string | Dropped string

definition cache_start :: "'r cache_system \<Rightarrow> bool" where
  "cache_start sys \<longleftrightarrow> sy_cache sys = cache_new \<and> sy_leases sys = []"

inductive cache_step ::
  "'r memory \<Rightarrow> string \<Rightarrow> 'r cache_system \<Rightarrow> cache_event \<Rightarrow> 'r cache_system \<Rightarrow> bool"
  for mem nonce where
  insert_step:
    "sy_elapsed sys \<le> t \<Longrightarrow> t \<le> t' \<Longrightarrow> cache_insert mem nonce t t' payload (sy_cache sys) = (st, token) \<Longrightarrow>
     cache_step mem nonce sys (Inserted token) (sys\<lparr>sy_cache := st, sy_elapsed := t'\<rparr>)"
| missing_step:
    "sy_elapsed sys \<le> t \<Longrightarrow> take_lease t token (sy_cache sys) = (st, None) \<Longrightarrow>
     cache_step mem nonce sys (Taken token False) (sys\<lparr>sy_cache := st, sy_elapsed := t\<rparr>)"
| take_step:
    "sy_elapsed sys \<le> t \<Longrightarrow> take_lease t token (sy_cache sys) = (st, Some lease) \<Longrightarrow>
     cache_step mem nonce sys (Taken token True)
       (sys\<lparr>sy_cache := st, sy_leases := lease # sy_leases sys, sy_elapsed := t\<rparr>)"
| restore_step:
    "sy_elapsed sys \<le> t \<Longrightarrow> sy_leases sys = ls @ lease # ls' \<Longrightarrow>
     cache_step mem nonce sys (Restored (pl_token lease))
       (sys\<lparr>sy_cache := restore_lease t lease (sy_cache sys), sy_leases := ls @ ls', sy_elapsed := t\<rparr>)"
| drop_step:
    "sy_elapsed sys \<le> t \<Longrightarrow> sy_leases sys = ls @ lease # ls' \<Longrightarrow>
     cache_step mem nonce sys (Dropped (pl_token lease))
       (sys\<lparr>sy_cache := drop_lease lease (sy_cache sys), sy_leases := ls @ ls', sy_elapsed := t\<rparr>)"

inductive_cases cache_stepE: "cache_step mem nonce sys e sys'"

end
