(* ===== verification/Prepared_Correct.thy ===== *)
theory Prepared_Correct
  imports Prepared
begin

text \<open>
  The cache keeps its books: what it is charged is the payloads it holds and those out on lease,
  within the limits; a token is given out once, and what was taken is gone until it is put back.
\<close>

section \<open>Tokens\<close>

lemma hex_digit_inject:
  assumes "hex_digit a = hex_digit b" "a < 16" "b < 16"
  shows "a = b"
proof -
  have "distinct ''0123456789abcdef''" by simp
  moreover have "length ''0123456789abcdef'' = 16" by simp
  ultimately show ?thesis
    using assms nth_eq_iff_index_eq unfolding hex_digit_def by metis
qed

lemma hex_digits_length [simp]: "length (hex_digits k n) = k"
  by (induction k arbitrary: n) auto

lemma hex_digits_inject:
  "hex_digits k a = hex_digits k b \<Longrightarrow> a < 16 ^ k \<Longrightarrow> b < 16 ^ k \<Longrightarrow> a = b"
proof (induction k arbitrary: a b)
  case 0
  then show ?case by simp
next
  case (Suc k)
  have "a mod 16 = b mod 16"
    using Suc.prems(1) by (auto intro!: hex_digit_inject)
  moreover have "a div 16 = b div 16"
    using Suc.prems by (intro Suc.IH) (auto simp: less_mult_imp_div_less mult.commute)
  ultimately show ?case by (metis div_mult_mod_eq)
qed

lemma token_of_inject:
  "int a < 2 ^ 64 \<Longrightarrow> int b < 2 ^ 64 \<Longrightarrow> token_of nonce a = token_of nonce b \<longleftrightarrow> a = b"
proof -
  assume "int a < 2 ^ 64" "int b < 2 ^ 64"
  moreover have "(2 :: int) ^ 64 = int (16 ^ 16)" by simp
  ultimately have "a < 16 ^ 16" "b < 16 ^ 16" by (simp_all only: of_nat_less_iff)
  then show ?thesis using hex_digits_inject [of 16 a b] by (auto simp: token_of_def)
qed

section \<open>The books\<close>

type_synonym charges = "(string \<times> nat) multiset"

definition entry_charges :: "'r stored list \<Rightarrow> charges" where
  "entry_charges es = mset (map (\<lambda>e. (sd_token e, sd_bytes e)) es)"

definition lease_charges :: "'r payload_lease list \<Rightarrow> charges" where
  "lease_charges ls = mset (map (\<lambda>l. (pl_token l, pl_bytes l)) ls)"

lemma charges_simps [simp]:
  "entry_charges [] = {#}" "lease_charges [] = {#}"
  "entry_charges (e # es) = add_mset (sd_token e, sd_bytes e) (entry_charges es)"
  "lease_charges (l # ls) = add_mset (pl_token l, pl_bytes l) (lease_charges ls)"
  "entry_charges (es @ es') = entry_charges es + entry_charges es'"
  "lease_charges (ls @ ls') = lease_charges ls + lease_charges ls'"
  by (simp_all add: entry_charges_def lease_charges_def)

text \<open>The charges \<open>M\<close> are what the counters say, and their tokens are different and were issued.\<close>

definition accounts :: "string \<Rightarrow> 'r cache_state \<Rightarrow> charges \<Rightarrow> bool" where
  "accounts nonce st M \<longleftrightarrow>
     cs_bytes st = sum_mset (image_mset snd M) \<and> cs_count st = size M \<and>
     cs_bytes st \<le> cs_max_bytes st \<and> cs_count st \<le> cs_max_entries st \<and>
     (\<forall>t. count (image_mset fst M) t \<le> 1) \<and>
     set_mset (image_mset fst M) \<subseteq> token_of nonce ` {..<cs_next st} \<and> int (cs_next st) < 2 ^ 64"

lemma accounts_discharge:
  assumes "accounts nonce st (add_mset (t, b) M)"
  shows "accounts nonce (discharge b st) M" and "b \<le> cs_bytes st" and "1 \<le> cs_count st"
proof -
  have "count (image_mset fst M) t' \<le> 1" for t'
    using assms unfolding accounts_def
    by (metis (no_types, lifting) count_add_mset image_mset_add_mset Suc_leD)
  then show "accounts nonce (discharge b st) M"
    using assms by (auto simp: accounts_def discharge_def)
qed (use assms in \<open>auto simp: accounts_def\<close>)

lemma accounts_entries [simp]:
  "accounts nonce (cs_entries_update f st) M \<longleftrightarrow> accounts nonce st M"
  by (simp add: accounts_def)

lemma mset_map_swap_remove:
  assumes "i < length xs"
  shows "mset (map f xs) = add_mset (f (xs ! i)) (mset (map f (swap_remove i xs)))"
proof -
  have xs: "xs = butlast xs @ [last xs]" using assms by (cases xs rule: rev_cases) auto
  have l: "mset (map f xs) = add_mset (f (last xs)) (mset (map f (butlast xs)))"
    by (subst xs) simp
  show ?thesis
  proof (cases "i = length xs - 1")
    case True
    then have "xs ! i = last xs" using assms by (cases xs rule: rev_cases) auto
    moreover have "(butlast xs)[i := last xs] = butlast xs" using True by (simp add: list_update_beyond)
    ultimately show ?thesis using l by (simp add: swap_remove_def)
  next
    case False
    then have i: "i < length (butlast xs)" using assms by simp
    then have "f (xs ! i) \<in># mset (map f (butlast xs))"
      by (metis (no_types, lifting) image_eqI list.set_map nth_butlast nth_mem set_mset_mset)
    with i l show ?thesis
      by (simp add: swap_remove_def map_update mset_update nth_butlast add_mset_commute)
  qed
qed

lemma swap_remove_charges:
  "i < length es \<Longrightarrow> add_mset (sd_token (es ! i), sd_bytes (es ! i)) (entry_charges (swap_remove i es)) =
     entry_charges es"
  by (simp only: entry_charges_def mset_map_swap_remove [of i es "\<lambda>e. (sd_token e, sd_bytes e)"])

lemma swap_remove_set: "i < length es \<Longrightarrow> set (swap_remove i es) \<subseteq> set es"
proof -
  assume i: "i < length es"
  then have "last es \<in> set es" by (cases es) auto
  then show ?thesis
    using set_update_subset_insert [of "butlast es" i "last es"]
    by (auto simp: swap_remove_def dest: in_set_butlastD)
qed

text \<open>Pruning\<close>

lemma prune_from_unchanged:
  "cs_max_bytes (prune_from now i st) = cs_max_bytes st"
  "cs_max_entries (prune_from now i st) = cs_max_entries st"
  "cs_next (prune_from now i st) = cs_next st"
  "cs_ttl (prune_from now i st) = cs_ttl st"
  "cs_offset (prune_from now i st) = cs_offset st"
  by (induction now i st rule: prune_from.induct; subst prune_from.simps; simp add: discharge_def)+

lemma prune_from_accounts:
  "accounts nonce st (entry_charges (cs_entries st) + M) \<Longrightarrow>
   accounts nonce (prune_from now i st) (entry_charges (cs_entries (prune_from now i st)) + M)"
proof (induction now i st rule: prune_from.induct)
  case (1 now i st)
  show ?case
  proof (cases "i < length (cs_entries st) \<and> sd_expires (cs_entries st ! i) \<le> now")
    case True
    let ?st = "st\<lparr>cs_entries := swap_remove i (cs_entries st)\<rparr>"
    have "accounts nonce ?st (add_mset (sd_token (cs_entries st ! i), sd_bytes (cs_entries st ! i))
        (entry_charges (swap_remove i (cs_entries st)) + M))"
      using 1(3) swap_remove_charges [of i "cs_entries st"] True by (metis accounts_entries union_mset_add_mset_left)
    then have "accounts nonce (discharge (sd_bytes (cs_entries st ! i)) ?st)
        (entry_charges (swap_remove i (cs_entries st)) + M)"
      by (rule accounts_discharge)
    then show ?thesis
      using True 1(1) by (subst (1 2) prune_from.simps) (simp add: discharge_def)
  next
    case False
    then show ?thesis
      using 1(2,3) by (subst (1 2) prune_from.simps) auto
  qed
qed

lemma prune_from_set: "set (cs_entries (prune_from now i st)) \<subseteq> set (cs_entries st)"
proof (induction now i st rule: prune_from.induct)
  case (1 now i st)
  then show ?case
    using swap_remove_set [of i "cs_entries st"]
    by (subst prune_from.simps) (auto simp: discharge_def)
qed

text \<open>No entry that is past its expiry stays: the ones the index has passed are checked.\<close>

lemma prune_from_expired:
  "list_all (\<lambda>e. now < sd_expires e) (take i (cs_entries st)) \<Longrightarrow>
   list_all (\<lambda>e. now < sd_expires e) (cs_entries (prune_from now i st))"
proof (induction now i st rule: prune_from.induct)
  case (1 now i st)
  have "take i (swap_remove i (cs_entries st)) = take i (cs_entries st)" if "i < length (cs_entries st)"
    using that by (simp add: swap_remove_def take_butlast)
  moreover have "list_all (\<lambda>e. now < sd_expires e) (take (Suc i) (cs_entries st))"
    if "i < length (cs_entries st)" "\<not> sd_expires (cs_entries st ! i) \<le> now"
    using that 1(3) by (simp add: take_Suc_conv_app_nth)
  ultimately show ?case
    using 1 by (subst prune_from.simps) (auto simp: discharge_def)
qed

lemma position_Some: "position P xs = Some i \<Longrightarrow> i < length xs \<and> P (xs ! i)"
  by (induction xs arbitrary: i) (auto split: if_splits)

lemma position_None: "position P xs = None \<longleftrightarrow> list_all (\<lambda>x. \<not> P x) xs"
  by (induction xs) auto

lemma sat_add_exact: "sat_add a b \<le> m \<Longrightarrow> int m < 2 ^ 64 - 1 \<Longrightarrow> sat_add a b = a + b"
  by (auto simp: sat_add_def min_def split: if_splits)

lemma prune_accounts:
  "accounts nonce st (entry_charges (cs_entries st) + M) \<Longrightarrow>
   accounts nonce (prune t st) (entry_charges (cs_entries (prune t st)) + M)"
  by (simp add: prune_def prune_from_accounts)

lemma prune_unchanged [simp]:
  "cs_max_bytes (prune t st) = cs_max_bytes st" "cs_max_entries (prune t st) = cs_max_entries st"
  "cs_next (prune t st) = cs_next st"
  by (simp_all add: prune_def prune_from_unchanged)

lemma accounts_charge:
  assumes "accounts nonce st M" "cs_count st < cs_max_entries st" "cs_bytes st + b \<le> cs_max_bytes st"
    and "int (cs_next st) + 1 < 2 ^ 64"
  shows "accounts nonce (st\<lparr>cs_next := cs_next st + 1, cs_bytes := cs_bytes st + b,
    cs_count := cs_count st + 1\<rparr>) (add_mset (token_of nonce (cs_next st), b) M)"
proof -
  have "token_of nonce (cs_next st) \<notin> token_of nonce ` {..<cs_next st}"
    using assms(1) by (auto simp: accounts_def token_of_inject)
  then have "count (image_mset fst M) (token_of nonce (cs_next st)) = 0"
    using assms(1) unfolding accounts_def by (metis count_eq_zero_iff subsetD)
  moreover have "token_of nonce ` {..<cs_next st} \<subseteq> token_of nonce ` {..<cs_next st + 1}" by auto
  ultimately show ?thesis
    using assms by (auto simp: accounts_def lessThan_Suc)
qed

section \<open>The operations keep the books\<close>

lemma insert_accounts:
  assumes "accounts nonce st (entry_charges (cs_entries st) + M)"
    and "cache_insert mem nonce t t' p st = (st', r)" and "int (cs_max_bytes st) < 2 ^ 64 - 1"
  shows "accounts nonce st' (entry_charges (cs_entries st') + M) \<and>
    cs_max_bytes st' = cs_max_bytes st \<and> cs_max_entries st' = cs_max_entries st"
proof -
  let ?st = "prune t st" and ?b = "sat_add (cached_bytes mem p) (length nonce + 17)"
  note pruned = prune_accounts [OF assms(1), of t]
  show ?thesis
  proof (cases "cs_max_bytes ?st < sat_add (cs_bytes ?st) ?b \<or> cs_max_entries ?st \<le> cs_count ?st \<or>
      checked_add (cs_next ?st) 1 = None")
    case True
    then have "st' = ?st"
      using assms(2) by (auto simp: cache_insert_def Let_def split: if_splits option.splits)
    then show ?thesis using pruned by simp
  next
    case False
    then have b: "sat_add (cs_bytes ?st) ?b = cs_bytes ?st + ?b"
      using assms(3) sat_add_exact [of "cs_bytes ?st" ?b "cs_max_bytes st"] by simp
    have n: "checked_add (cs_next st) 1 = Some (cs_next st + 1)" "int (cs_next st) + 1 < 2 ^ 64"
      using False by (auto simp: checked_add_def split: if_splits)
    let ?new = "?st\<lparr>cs_next := cs_next ?st + 1, cs_bytes := cs_bytes ?st + ?b,
        cs_count := cs_count ?st + 1\<rparr>"
    have "accounts nonce ?new (add_mset (token_of nonce (cs_next ?st), ?b)
          (entry_charges (cs_entries ?st) + M))"
      using False n b by (intro accounts_charge [OF pruned]) auto
    moreover have "\<exists>e. st' = ?new\<lparr>cs_entries := cs_entries ?st @ [e]\<rparr> \<and>
        (sd_token e, sd_bytes e) = (token_of nonce (cs_next ?st), ?b)"
      using assms(2) False n b by (auto simp: cache_insert_def Let_def)
    ultimately show ?thesis by (elim exE conjE) simp
  qed
qed

lemma take_lease_cases:
  assumes "take_lease t token st = (st', r)"
  shows "cs_max_bytes st' = cs_max_bytes st \<and> cs_max_entries st' = cs_max_entries st \<and>
    cs_next st' = cs_next st \<and>
    (case r of
       None \<Rightarrow> st' = prune t st \<and> token \<notin> sd_token ` set (cs_entries st')
     | Some lease \<Rightarrow> pl_payload lease \<noteq> None \<and> pl_token lease = token \<and>
         (\<exists>es. st' = (prune t st)\<lparr>cs_entries := es\<rparr> \<and>
           add_mset (token, pl_bytes lease) (entry_charges es) = entry_charges (cs_entries (prune t st))))"
proof (cases "position (\<lambda>entry. sd_token entry = token) (cs_entries (prune t st))")
  case None
  then have "token \<notin> sd_token ` set (cs_entries (prune t st))"
    by (auto simp: position_None list_all_iff)
  with None show ?thesis
    using assms by (auto simp: take_lease_def Let_def)
next
  case (Some i)
  from position_Some [OF this] have i: "i < length (cs_entries (prune t st))"
    "sd_token (cs_entries (prune t st) ! i) = token" by auto
  then show ?thesis
    using assms Some swap_remove_charges [OF i(1)]
    by (auto simp: take_lease_def Let_def)
qed

lemma take_lease_accounts:
  assumes "accounts nonce st (entry_charges (cs_entries st) + M)" and "take_lease t token st = (st', r)"
  shows "accounts nonce st' (entry_charges (cs_entries st') + M +
    (case r of None \<Rightarrow> {#} | Some lease \<Rightarrow> {#(pl_token lease, pl_bytes lease)#}))"
proof (cases r)
  case None
  then show ?thesis
    using take_lease_cases [OF assms(2)] prune_accounts [OF assms(1), of t] by simp
next
  case (Some lease)
  then obtain es where es: "st' = (prune t st)\<lparr>cs_entries := es\<rparr>" "pl_token lease = token"
    "entry_charges (cs_entries (prune t st)) = add_mset (token, pl_bytes lease) (entry_charges es)"
    using take_lease_cases [OF assms(2)] by auto
  then show ?thesis
    using prune_accounts [OF assms(1), of t] Some by simp
qed

lemma drop_lease_accounts:
  assumes "accounts nonce st (add_mset (pl_token lease, pl_bytes lease) M)" and "pl_payload lease \<noteq> None"
  shows "accounts nonce (drop_lease lease st) M"
  using accounts_discharge(1) [OF assms(1)] assms(2) by (auto simp: drop_lease_def)

lemma restore_lease_accounts:
  assumes "accounts nonce st (add_mset (pl_token lease, pl_bytes lease) (entry_charges (cs_entries st) + M))"
    and "pl_payload lease \<noteq> None"
  shows "accounts nonce (restore_lease t lease st) (entry_charges (cs_entries (restore_lease t lease st)) + M)"
  using drop_lease_accounts [OF assms] assms
  by (auto simp: restore_lease_def drop_lease_def discharge_def)

lemma drop_lease_frame [simp]:
  "cs_entries (drop_lease lease st) = cs_entries st" "cs_max_bytes (drop_lease lease st) = cs_max_bytes st"
  "cs_max_entries (drop_lease lease st) = cs_max_entries st" "cs_next (drop_lease lease st) = cs_next st"
  by (auto simp: drop_lease_def discharge_def split: option.split)

lemma restore_lease_frame [simp]:
  "cs_max_bytes (restore_lease t lease st) = cs_max_bytes st"
  "cs_max_entries (restore_lease t lease st) = cs_max_entries st"
  "cs_next (restore_lease t lease st) = cs_next st"
  by (auto simp: restore_lease_def split: option.split)

definition cache_inv :: "string \<Rightarrow> 'r cache_system \<Rightarrow> bool" where
  "cache_inv nonce sys \<longleftrightarrow>
     accounts nonce (sy_cache sys)
       (entry_charges (cs_entries (sy_cache sys)) + lease_charges (sy_leases sys)) \<and>
     cs_max_bytes (sy_cache sys) = MAX_BYTES \<and> cs_max_entries (sy_cache sys) = MAX_ENTRIES \<and>
     list_all (\<lambda>lease. pl_payload lease \<noteq> None) (sy_leases sys)"

lemma cache_inv_step:
  assumes "cache_inv nonce sys" and "cache_step mem nonce sys e sys'"
  shows "cache_inv nonce sys'"
  using assms(2)
proof (cases rule: cache_step.cases)
  case (insert_step t t' payload st token)
  have "int MAX_BYTES < 2 ^ 64 - 1" by (simp add: MAX_BYTES_def)
  then show ?thesis
    using insert_accounts [OF _ insert_step(5)] assms(1) insert_step(2) by (auto simp: cache_inv_def)
next
  case (missing_step t token st)
  then show ?thesis
    using take_lease_accounts [OF _ missing_step(4)] take_lease_cases [OF missing_step(4)] assms(1)
    by (fastforce simp: cache_inv_def)
next
  case (take_step t token st lease)
  then show ?thesis
    using take_lease_accounts [OF _ take_step(4)] take_lease_cases [OF take_step(4)] assms(1)
    by (fastforce simp: cache_inv_def add.commute)
next
  case (restore_step t ls lease ls')
  then show ?thesis
    using restore_lease_accounts [where lease = lease and M = "lease_charges (ls @ ls')"] assms(1)
    by (auto simp: cache_inv_def)
next
  case (drop_step t ls lease ls')
  then show ?thesis
    using drop_lease_accounts [where lease = lease and M = "entry_charges (cs_entries (sy_cache sys)) + lease_charges (ls @ ls')"]
      assms(1)
    by (auto simp: cache_inv_def)
qed

interpretation cache: machine cache_start "cache_step mem nonce" "cache_inv nonce" for mem nonce
proof
  show "cache_inv nonce sys" if "cache_start sys" for sys :: "'a cache_system"
    using that by (auto simp: cache_start_def cache_inv_def cache_new_def accounts_def)
qed (rule cache_inv_step)

section \<open>What was taken is gone\<close>

text \<open>The token was issued and no stored payload has it.\<close>

definition gone :: "string \<Rightarrow> string \<Rightarrow> 'r cache_system \<Rightarrow> bool" where
  "gone nonce token sys \<longleftrightarrow>
     token \<notin> sd_token ` set (cs_entries (sy_cache sys)) \<and>
     token \<in> token_of nonce ` {..<cs_next (sy_cache sys)}"

lemma charge_tokens:
  "fst ` set_mset (entry_charges es) = sd_token ` set es"
  "fst ` set_mset (lease_charges ls) = pl_token ` set ls"
  by (auto simp: entry_charges_def lease_charges_def image_image)

lemma accounts_once:
  assumes "accounts nonce st (add_mset (t, b) M)"
  shows "t \<notin> fst ` set_mset M" and "t \<in> token_of nonce ` {..<cs_next st}"
proof -
  have "count (image_mset fst (add_mset (t, b) M)) t \<le> 1"
    using assms unfolding accounts_def by blast
  then have "t \<notin># image_mset fst M" by (simp add: count_eq_zero_iff)
  then show "t \<notin> fst ` set_mset M" by simp
  show "t \<in> token_of nonce ` {..<cs_next st}"
    using assms by (simp add: accounts_def)
qed

lemma prune_set: "set (cs_entries (prune t st)) \<subseteq> set (cs_entries st)"
  by (simp add: prune_def prune_from_set)

lemma insert_tokens:
  assumes "cache_insert mem nonce t t' p st = (st', r)"
  shows "sd_token ` set (cs_entries st') \<subseteq>
      insert (token_of nonce (cs_next st)) (sd_token ` set (cs_entries st)) \<and>
    (st' = prune t st \<or> cs_next st' = cs_next st + 1 \<and> r = Some (token_of nonce (cs_next st)))"
  using assms subsetD [OF prune_set, of _ t st]
  by (auto simp: cache_insert_def Let_def checked_add_def split: if_splits)

lemma take_lease_tokens:
  assumes "take_lease t token st = (st', r)"
  shows "sd_token ` set (cs_entries st') \<subseteq> sd_token ` set (cs_entries st)"
proof (cases "position (\<lambda>entry. sd_token entry = token) (cs_entries (prune t st))")
  case None
  then show ?thesis using assms prune_set [of t st] by (auto simp: take_lease_def Let_def)
next
  case (Some i)
  then show ?thesis
    using assms subset_trans [OF swap_remove_set [OF conjunct1 [OF position_Some [OF Some]]] prune_set]
    by (auto simp: take_lease_def Let_def)
qed

lemma restore_tokens:
  "sd_token ` set (cs_entries (restore_lease t lease st)) \<subseteq>
     insert (pl_token lease) (sd_token ` set (cs_entries st))"
  by (auto simp: restore_lease_def split: option.splits)

lemma gone_step:
  assumes "cache_inv nonce sys" "gone nonce token sys" "cache_step mem nonce sys e sys'" "e \<noteq> Restored token"
  shows "gone nonce token sys'"
  using assms(3)
proof (cases rule: cache_step.cases)
  case (insert_step t t' payload st new)
  have "int (cs_next (sy_cache sys)) < 2 ^ 64"
    using assms(1) by (simp add: cache_inv_def accounts_def)
  then have "token \<noteq> token_of nonce (cs_next (sy_cache sys))"
    using assms(2) by (auto simp: gone_def token_of_inject)
  moreover have "cs_next (sy_cache sys) \<le> cs_next st"
    using insert_tokens [OF insert_step(5)] by auto
  ultimately show ?thesis
    using insert_tokens [OF insert_step(5)] assms(2) insert_step(2) by (auto simp: gone_def)
next
  case (missing_step t tok st)
  then show ?thesis
    using take_lease_tokens [OF missing_step(4)] take_lease_cases [OF missing_step(4)] assms(2)
    by (auto simp: gone_def)
next
  case (take_step t tok st lease)
  then show ?thesis
    using take_lease_tokens [OF take_step(4)] take_lease_cases [OF take_step(4)] assms(2)
    by (auto simp: gone_def)
next
  case (restore_step t ls lease ls')
  then show ?thesis
    using restore_tokens [of t lease "sy_cache sys"] assms(2,4) by (auto simp: gone_def)
next
  case (drop_step t ls lease ls')
  then show ?thesis using assms(2) by (simp add: gone_def)
qed

interpretation taken: keeping cache_start "cache_step mem nonce" "cache_inv nonce"
    "gone nonce token" "\<lambda>e. e \<noteq> Restored token" for mem nonce token
  by unfold_locales (rule gone_step)

lemma gone_missing:
  assumes "gone nonce token sys"
  shows "snd (take_lease t token (sy_cache sys)) = None"
proof (cases "take_lease t token (sy_cache sys)")
  case (Pair st r)
  have *: "token \<notin> sd_token ` set (cs_entries (prune t (sy_cache sys)))"
    using assms prune_set [of t "sy_cache sys"] by (auto simp: gone_def)
  show ?thesis
  proof (cases r)
    case (Some lease)
    then obtain es where "st = (prune t (sy_cache sys))\<lparr>cs_entries := es\<rparr>" and
      "add_mset (token, pl_bytes lease) (entry_charges es) =
        entry_charges (cs_entries (prune t (sy_cache sys)))"
      using take_lease_cases [OF Pair] by auto
    from this(2) have "token \<in> fst ` set_mset (entry_charges (cs_entries (prune t (sy_cache sys))))"
      by (metis fst_conv image_eqI union_single_eq_member)
    with * show ?thesis by (simp add: charge_tokens)
  qed (simp add: Pair)
qed

lemma taken_is_gone:
  assumes "cache_inv nonce sys" and "take_lease t token (sy_cache sys) = (st, Some lease)"
  shows "gone nonce token (sys\<lparr>sy_cache := st, sy_leases := lease # sy_leases sys, sy_elapsed := t\<rparr>)"
proof -
  have "accounts nonce st (add_mset (token, pl_bytes lease) (entry_charges (cs_entries st) + lease_charges (sy_leases sys)))"
    using take_lease_accounts [OF _ assms(2)] assms(1) take_lease_cases [OF assms(2)]
    by (fastforce simp: cache_inv_def)
  from accounts_once [OF this] show ?thesis by (simp add: gone_def image_Un charge_tokens)
qed

section \<open>The properties\<close>

lemma cache_inv_books:
  assumes "cache_inv nonce sys"
  shows "let st = sy_cache sys; ls = sy_leases sys in
    cs_bytes st = sum_list (map sd_bytes (cs_entries st)) + sum_list (map pl_bytes ls) \<and>
    cs_count st = length (cs_entries st) + length ls \<and>
    cs_bytes st \<le> MAX_BYTES \<and> cs_count st \<le> MAX_ENTRIES \<and>
    distinct (map sd_token (cs_entries st) @ map pl_token ls)"
proof -
  let ?toks = "map sd_token (cs_entries (sy_cache sys)) @ map pl_token (sy_leases sys)"
  have i: "image_mset fst (entry_charges es + lease_charges ls) = mset (map sd_token es @ map pl_token ls)"
    "image_mset snd (entry_charges es + lease_charges ls) = mset (map sd_bytes es @ map pl_bytes ls)"
    for es :: "'a stored list" and ls :: "'a payload_lease list"
    by (simp_all add: entry_charges_def lease_charges_def image_mset.compositionality comp_def)
  have "count (mset ?toks) t \<le> 1" for t
    using assms unfolding cache_inv_def accounts_def i by blast
  then have "distinct ?toks"
    unfolding distinct_count_atmost_1 by (metis One_nat_def count_mset_0_iff le_Suc_eq le_zero_eq)
  moreover have "cs_bytes (sy_cache sys) = sum_mset (mset (map sd_bytes (cs_entries (sy_cache sys)) @
      map pl_bytes (sy_leases sys)))"
    using assms unfolding cache_inv_def accounts_def i by blast
  then have "cs_bytes (sy_cache sys) =
      sum_list (map sd_bytes (cs_entries (sy_cache sys))) + sum_list (map pl_bytes (sy_leases sys))"
    unfolding sum_mset_sum_list by simp
  moreover have "cs_count (sy_cache sys) = length (cs_entries (sy_cache sys)) + length (sy_leases sys)"
    using assms by (simp add: cache_inv_def accounts_def entry_charges_def lease_charges_def)
  ultimately show ?thesis
    using assms by (simp add: cache_inv_def accounts_def Let_def)
qed

text \<open>
  C18.  However insertions, takes, restored and dropped leases interleave, the cache is charged for
  exactly the payloads it stores and those still owned by a lease; together they are within the
  byte and the entry limit, and no two of them have the same token.  So no subtraction of a charge
  goes below zero.
\<close>

theorem prepared_within_limits:
  assumes "cache_start sys0" and "runs (cache_step mem nonce) sys0 es sys"
  shows "let st = sy_cache sys; ls = sy_leases sys in
    cs_bytes st = sum_list (map sd_bytes (cs_entries st)) + sum_list (map pl_bytes ls) \<and>
    cs_count st = length (cs_entries st) + length ls \<and>
    cs_bytes st \<le> MAX_BYTES \<and> cs_count st \<le> MAX_ENTRIES \<and>
    distinct (map sd_token (cs_entries st) @ map pl_token ls)"
  by (rule cache_inv_books [OF cache.inv_reachable [OF assms]])

text \<open>
  C17.  A token is good for one Apply: once a payload was taken with it, in whatever state the
  worker got into by then, every later attempt to take it finds nothing, until the lease is put
  back under this token; a payload prepared later never gets the token again.
\<close>

theorem prepared_taken_once:
  assumes "cache_start sys0" and "runs (cache_step mem nonce) sys0 es sys"
    and "sy_elapsed sys \<le> t" and "take_lease t token (sy_cache sys) = (st, Some lease)"
    and "runs (cache_step mem nonce)
      (sys\<lparr>sy_cache := st, sy_leases := lease # sy_leases sys, sy_elapsed := t\<rparr>) fs sys'"
    and "list_all (\<lambda>e. e \<noteq> Restored token) fs"
  shows "snd (cache_take t' token workspace destination digest (sy_cache sys')) = Inl Missing"
proof -
  note inv = cache.inv_reachable [OF assms(1,2)]
  let ?sys = "sys\<lparr>sy_cache := st, sy_leases := lease # sy_leases sys, sy_elapsed := t\<rparr>"
  have "cache_step mem nonce sys (Taken token True) ?sys"
    using assms(3,4) by (rule take_step)
  from taken.kept_runs [OF assms(5) cache_inv_step [OF inv this] taken_is_gone [OF inv assms(4)] assms(6)]
  have "snd (take_lease t' token (sy_cache sys')) = None" by (rule gone_missing)
  then show ?thesis
    by (cases "take_lease t' token (sy_cache sys')") (auto simp: cache_take_def)
qed

section \<open>An example\<close>

definition demo_memory :: "unit memory" where
  "demo_memory = \<lparr>mem_import = 200, mem_stored = 250, mem_prefix = 48, mem_replay = 0,
     mem_string = length, mem_path = (\<lambda>p. length (np_names p)), mem_prefixes = length,
     mem_heap = (\<lambda>_. 0)\<rparr>"

definition demo_payload :: "unit cached_import" where
  "demo_payload = \<lparr>ci_text = ''text'',
     ci_mapping = \<lparr>pm_prefixes = [(''a'', ''b'')], pm_adjust_paths = True, pm_header_format = ''''\<rparr>,
     ci_workspace = components ''/w'', ci_destination = components ''/w/d'', ci_digest = ''d'',
     ci_replay = None\<rparr>"

definition demo_cache :: "unit cache_system" where
  "demo_cache = \<lparr>sy_cache = cache_new, sy_leases = [], sy_elapsed = 0\<rparr>"

definition demo_stored :: "unit cache_system" where
  "demo_stored = demo_cache\<lparr>sy_cache := fst (cache_insert demo_memory ''n'' 0 0 demo_payload cache_new)\<rparr>"

lemma prune_from_keeps:
  "list_all (\<lambda>e. now < sd_expires e) (drop i (cs_entries st)) \<Longrightarrow> prune_from now i st = st"
proof (induction now i st rule: prune_from.induct)
  case (1 now i st)
  then show ?case
    by (subst prune_from.simps) (auto simp: Cons_nth_drop_Suc [symmetric] list_all_iff)
qed

lemma demo_paths: "length (np_names (components ''/w'')) = 1" "length (np_names (components ''/w/d'')) = 2"
  by code_simp+

lemma demo_stored_cache:
  "cache_insert demo_memory ''n'' 0 0 demo_payload cache_new =
     (\<lparr>cs_entries = [\<lparr>sd_token = token_of ''n'' 0, sd_expires = TTL, sd_bytes = 1532,
         sd_payload = demo_payload\<rparr>],
       cs_bytes = 1532, cs_count = 1, cs_max_bytes = MAX_BYTES, cs_max_entries = MAX_ENTRIES,
       cs_ttl = TTL, cs_offset = 0, cs_next = 1\<rparr>, Some (token_of ''n'' 0))"
proof -
  have b: "sat_add (cached_bytes demo_memory demo_payload) (length ''n'' + 17) = 1532"
    by (simp add: cached_bytes_def demo_memory_def demo_payload_def demo_paths sat_add_def)
  have p: "prune 0 cache_new = (cache_new :: unit cache_state)"
    by (simp add: prune_def prune_from_keeps cache_new_def)
  show ?thesis
    unfolding cache_insert_def p b Let_def
    by (simp add: cache_new_def checked_add_def sat_add_def MAX_BYTES_def MAX_ENTRIES_def
        cache_now_def duration_add_def TTL_def)
qed

definition demo_lease :: "unit payload_lease" where
  "demo_lease = \<lparr>pl_payload = Some demo_payload, pl_token = token_of ''n'' 0, pl_expires = TTL,
     pl_bytes = 1532\<rparr>"

lemma demo_insert: "cache_step demo_memory ''n'' demo_cache (Inserted (Some (token_of ''n'' 0))) demo_stored"
proof -
  have "cache_insert demo_memory ''n'' 0 0 demo_payload (sy_cache demo_cache) =
      (sy_cache demo_stored, Some (token_of ''n'' 0))"
    by (simp add: demo_stored_def demo_cache_def demo_stored_cache)
  from insert_step [OF _ _ this] show ?thesis
    by (simp add: demo_stored_def demo_cache_def)
qed

lemma demo_take:
  "take_lease 0 (token_of ''n'' 0) (sy_cache demo_stored) =
     ((sy_cache demo_stored)\<lparr>cs_entries := []\<rparr>, Some demo_lease)"
proof -
  have "prune 0 (sy_cache demo_stored) = sy_cache demo_stored"
    by (simp add: prune_def demo_stored_def demo_stored_cache)
      (subst prune_from_keeps, simp_all add: cache_now_def duration_add_def TTL_def)
  then show ?thesis
    by (simp add: take_lease_def Let_def) (simp add: demo_stored_def demo_stored_cache swap_remove_def demo_lease_def)
qed

lemma demo_run:
  "runs (cache_step demo_memory ''n'') demo_cache [Inserted (Some (token_of ''n'' 0))] demo_stored"
  by (rule runs_one) (rule demo_insert)

theorem prepared_within_limits_witness:
  "cs_bytes (sy_cache demo_stored) = 1532 \<and> cs_bytes (sy_cache demo_stored) \<le> MAX_BYTES"
  using prepared_within_limits [of demo_cache demo_memory "''n''" _ demo_stored]
    demo_run
  by (simp add: cache_start_def demo_cache_def Let_def demo_stored_def demo_stored_cache)

theorem prepared_taken_once_witness:
  "snd (cache_take 0 (token_of ''n'' 0) (components ''/w'') (components ''/w/d'') ''d''
     (drop_lease demo_lease ((sy_cache demo_stored)\<lparr>cs_entries := []\<rparr>))) = Inl Missing"
proof -
  let ?taken = "demo_stored\<lparr>sy_cache := (sy_cache demo_stored)\<lparr>cs_entries := []\<rparr>,
    sy_leases := demo_lease # sy_leases demo_stored, sy_elapsed := 0\<rparr>"
  have e: "sy_elapsed demo_stored \<le> 0" by (simp add: demo_stored_def demo_cache_def)
  let ?dropped = "?taken\<lparr>sy_cache := drop_lease demo_lease (sy_cache ?taken),
      sy_leases := [] @ sy_leases demo_stored, sy_elapsed := 0\<rparr>"
  have "cache_step demo_memory ''n'' ?taken (Dropped (pl_token demo_lease)) ?dropped"
    by (rule drop_step) simp_all
  then have "runs (cache_step demo_memory ''n'') ?taken [Dropped (pl_token demo_lease)] ?dropped"
    by (rule runs_one)
  from prepared_taken_once [OF _ demo_run e demo_take this]
  show ?thesis by (simp add: cache_start_def demo_cache_def)
qed

end
