(* ===== verification/Jobs.thy ===== *)
theory Jobs
  imports "HOL-Library.AList" Machine Proto
begin

text \<open>
  Admission of Git jobs on the worker (\<open>crates/remote/src/jobs.rs\<close>): a few slots, fewer for scans,
  a bounded queue of waiting requests with a deadline, and a registry of the running jobs' cancel
  tokens by workspace.  Each turn of the waiting loop holds the mutex, so it is one step; other
  threads run between the turns.  Cancel tokens are numbers; which of them are cancelled is a list
  outside the mutex, because anyone may cancel a token at any time.

  The second part is the loop that answers a request while its job runs.
\<close>

section \<open>Admission\<close>

definition MAX_GIT_JOBS :: nat where "MAX_GIT_JOBS = 2"
definition MAX_SCAN_JOBS :: nat where "MAX_SCAN_JOBS = 1"
definition MAX_JOBS_WAITING :: nat where "MAX_JOBS_WAITING = 16"
definition ADMIT_WAIT :: nat where "ADMIT_WAIT = 10 * 1000000000"

datatype job_kind = View | Scan

record jobs_inner =
  jb_running :: nat
  jb_scans :: nat
  jb_waiting :: nat
  jb_stopped :: bool
  jb_next_id :: nat
  jb_by_workspace :: "(string \<times> (nat \<times> nat) list) list"

record jobs_limits =
  jl_git :: nat
  jl_scan :: nat
  jl_waiting :: nat
  jl_wait :: nat

record job_guard =
  gd_workspace :: string
  gd_kind :: job_kind
  gd_id :: nat
  gd_cancel :: nat

definition with_limits :: jobs_inner where
  "with_limits = \<lparr>jb_running = 0, jb_scans = 0, jb_waiting = 0, jb_stopped = False, jb_next_id = 1,
     jb_by_workspace = []\<rparr>"

definition jobs_new :: jobs_limits where
  "jobs_new = \<lparr>jl_git = MAX_GIT_JOBS, jl_scan = MAX_SCAN_JOBS, jl_waiting = MAX_JOBS_WAITING,
     jl_wait = ADMIT_WAIT\<rparr>"

text \<open>\<open>Drop\<close> of a guard\<close>

definition release_job :: "string \<Rightarrow> job_kind \<Rightarrow> nat \<Rightarrow> jobs_inner \<Rightarrow> jobs_inner" where
  "release_job workspace kd i inner =
     (let inner1 = inner\<lparr>jb_running := jb_running inner - 1,
            jb_scans := (if kd = Scan then jb_scans inner - 1 else jb_scans inner)\<rparr> in
      case map_of (jb_by_workspace inner) workspace of
        None \<Rightarrow> inner1
      | Some jobs \<Rightarrow>
          (let kept = filter (\<lambda>(job_id, _). job_id \<noteq> i) jobs in
           inner1\<lparr>jb_by_workspace :=
             (if kept = [] then AList.delete workspace (jb_by_workspace inner)
              else AList.update workspace kept (jb_by_workspace inner))\<rparr>))"

text \<open>The start of \<open>admit\<close>: refused at once, or waiting.\<close>

definition admit_enter ::
  "jobs_limits \<Rightarrow> nat list \<Rightarrow> nat \<Rightarrow> jobs_inner \<Rightarrow> error_code + jobs_inner" where
  "admit_enter lm cancelled cancel inner =
     (if jb_stopped inner then Inl Busy
      else if cancel \<in> set cancelled then Inl Cancelled
      else if jl_waiting lm \<le> jb_waiting inner then Inl Busy
      else Inr (inner\<lparr>jb_waiting := jb_waiting inner + 1\<rparr>))"

datatype admission = Admitted job_guard | Refused error_code | Still_Waiting

definition can_admit :: "jobs_limits \<Rightarrow> job_kind \<Rightarrow> jobs_inner \<Rightarrow> bool" where
  "can_admit lm kd inner \<longleftrightarrow>
     jb_running inner < jl_git lm \<and>
     (case kd of View \<Rightarrow> True | Scan \<Rightarrow> jb_scans inner < jl_scan lm)"

text \<open>The slot, and the token in the registry: \<open>entry(workspace).or_default().push(..)\<close>.\<close>

definition take_slot ::
  "string \<Rightarrow> job_kind \<Rightarrow> nat \<Rightarrow> jobs_inner \<Rightarrow> jobs_inner \<times> job_guard" where
  "take_slot workspace kd cancel inner =
     (let i = jb_next_id inner;
          jobs = (case map_of (jb_by_workspace inner) workspace of None \<Rightarrow> [] | Some jobs \<Rightarrow> jobs) in
      (inner\<lparr>jb_waiting := jb_waiting inner - 1, jb_running := jb_running inner + 1,
         jb_scans := (if kd = Scan then jb_scans inner + 1 else jb_scans inner),
         jb_next_id := i + 1,
         jb_by_workspace := AList.update workspace (jobs @ [(i, cancel)]) (jb_by_workspace inner)\<rparr>,
       \<lparr>gd_workspace = workspace, gd_kind = kd, gd_id = i, gd_cancel = cancel\<rparr>))"

text \<open>One turn of the loop of \<open>admit\<close>.\<close>

definition admit_turn ::
  "jobs_limits \<Rightarrow> nat list \<Rightarrow> nat \<Rightarrow> string \<Rightarrow> job_kind \<Rightarrow> nat \<Rightarrow> nat \<Rightarrow> jobs_inner \<Rightarrow>
   jobs_inner \<times> admission" where
  "admit_turn lm cancelled now workspace kd cancel deadline inner =
     (let left = inner\<lparr>jb_waiting := jb_waiting inner - 1\<rparr> in
      if can_admit lm kd inner
      then (let (inner', guard) = take_slot workspace kd cancel inner in (inner', Admitted guard))
      else if jb_stopped inner then (left, Refused Busy)
      else if cancel \<in> set cancelled then (left, Refused Cancelled)
      else if deadline \<le> now then (left, Refused Busy)
      else (inner, Still_Waiting))"

text \<open>The registered tokens \<open>cancel_all\<close> cancels.\<close>

definition registered :: "jobs_inner \<Rightarrow> nat list" where
  "registered inner = concat (map (\<lambda>(_, jobs). map snd jobs) (jb_by_workspace inner))"

definition cancel_all :: "nat list \<Rightarrow> jobs_inner \<Rightarrow> nat list \<times> jobs_inner" where
  "cancel_all cancelled inner = (registered inner @ cancelled, inner\<lparr>jb_stopped := True\<rparr>)"

section \<open>The queue of jobs\<close>

record waiter =
  wt_workspace :: string
  wt_kind :: job_kind
  wt_cancel :: nat
  wt_deadline :: nat

record jobs_system =
  js_inner :: jobs_inner
  js_waiters :: "waiter list"
  js_guards :: "job_guard list"
  js_cancelled :: "nat list"
  js_now :: nat

datatype jobs_event =
  Entered | Turned_away error_code | Started job_guard | Gave_up waiter error_code | Slept waiter
  | Finished job_guard | Stopped | Token_cancelled nat

definition jobs_start :: "jobs_system \<Rightarrow> bool" where
  "jobs_start sys \<longleftrightarrow> js_inner sys = with_limits \<and> js_waiters sys = [] \<and> js_guards sys = []"

inductive jobs_step :: "jobs_limits \<Rightarrow> jobs_system \<Rightarrow> jobs_event \<Rightarrow> jobs_system \<Rightarrow> bool"
  for lm where
  enter_step:
    "js_now sys \<le> now \<Longrightarrow> admit_enter lm (js_cancelled sys) (wt_cancel w) (js_inner sys) = Inr inner \<Longrightarrow>
     wt_deadline w = now + jl_wait lm \<Longrightarrow>
     jobs_step lm sys Entered
       (sys\<lparr>js_inner := inner, js_waiters := js_waiters sys @ [w], js_now := now\<rparr>)"
| turned_away_step:
    "js_now sys \<le> now \<Longrightarrow> admit_enter lm (js_cancelled sys) cancel (js_inner sys) = Inl code \<Longrightarrow>
     jobs_step lm sys (Turned_away code) (sys\<lparr>js_now := now\<rparr>)"
| admitted_step:
    "js_now sys \<le> now \<Longrightarrow> js_waiters sys = ws @ w # ws' \<Longrightarrow>
     admit_turn lm (js_cancelled sys) now (wt_workspace w) (wt_kind w) (wt_cancel w) (wt_deadline w)
       (js_inner sys) = (inner, Admitted guard) \<Longrightarrow>
     jobs_step lm sys (Started guard)
       (sys\<lparr>js_inner := inner, js_waiters := ws @ ws', js_guards := js_guards sys @ [guard], js_now := now\<rparr>)"
| refused_step:
    "js_now sys \<le> now \<Longrightarrow> js_waiters sys = ws @ w # ws' \<Longrightarrow>
     admit_turn lm (js_cancelled sys) now (wt_workspace w) (wt_kind w) (wt_cancel w) (wt_deadline w)
       (js_inner sys) = (inner, Refused code) \<Longrightarrow>
     jobs_step lm sys (Gave_up w code)
       (sys\<lparr>js_inner := inner, js_waiters := ws @ ws', js_now := now\<rparr>)"
| sleep_step:
    "js_now sys \<le> now \<Longrightarrow> js_waiters sys = ws @ w # ws' \<Longrightarrow>
     admit_turn lm (js_cancelled sys) now (wt_workspace w) (wt_kind w) (wt_cancel w) (wt_deadline w)
       (js_inner sys) = (inner, Still_Waiting) \<Longrightarrow>
     jobs_step lm sys (Slept w) (sys\<lparr>js_inner := inner, js_now := now\<rparr>)"
| release_step:
    "js_now sys \<le> now \<Longrightarrow> js_guards sys = gs @ guard # gs' \<Longrightarrow>
     jobs_step lm sys (Finished guard)
       (sys\<lparr>js_inner := release_job (gd_workspace guard) (gd_kind guard) (gd_id guard) (js_inner sys),
          js_guards := gs @ gs', js_now := now\<rparr>)"
| stop_step:
    "js_now sys \<le> now \<Longrightarrow> cancel_all (js_cancelled sys) (js_inner sys) = (cancelled, inner) \<Longrightarrow>
     jobs_step lm sys Stopped (sys\<lparr>js_inner := inner, js_cancelled := cancelled, js_now := now\<rparr>)"
| token_step:
    "js_now sys \<le> now \<Longrightarrow>
     jobs_step lm sys (Token_cancelled c) (sys\<lparr>js_cancelled := c # js_cancelled sys, js_now := now\<rparr>)"

inductive_cases jobs_stepE: "jobs_step lm sys e sys'"

section \<open>Answering while the job runs\<close>

datatype deadline_reply = Fail_Reply | WriteOutcome

text \<open>
  What the answering loop observes of the job's channel in one wait: the response, nothing within
  the time, or that the job's thread is gone.  The clock is read before and after the wait, and
  writing a heartbeat succeeds or not.
\<close>

datatype 'r received = Received 'r | Recv_Timeout | Disconnected

record 'r turn =
  tn_before :: nat
  tn_received :: "'r received"
  tn_after :: nat
  tn_write_ok :: bool

datatype 'r sent = Pending | Reply 'r | Timed_Out

text \<open>
  What was sent, whether the job's token was cancelled, and how the loop ended; \<open>Unfinished\<close> when
  the observations run out.
\<close>

datatype job_end = Answered | Write_Failed | Panicked | Unfinished

fun past_deadline_reply :: "deadline_reply \<Rightarrow> 'r turn list \<Rightarrow> 'r sent list \<times> job_end" where
  "past_deadline_reply Fail_Reply turns = ([Timed_Out], Answered)"
| "past_deadline_reply WriteOutcome [] = ([], Unfinished)"
| "past_deadline_reply WriteOutcome (t # turns) =
     (case tn_received t of
        Received response \<Rightarrow> ([Reply response], Answered)
      | Recv_Timeout \<Rightarrow>
          if tn_write_ok t
          then (let (out, e) = past_deadline_reply WriteOutcome turns in (Pending # out, e))
          else ([], Write_Failed)
      | Disconnected \<Rightarrow> ([], Panicked))"

fun run_job :: "deadline_reply \<Rightarrow> nat \<Rightarrow> 'r turn list \<Rightarrow> 'r sent list \<times> bool \<times> job_end" where
  "run_job reply deadline [] = ([], False, Unfinished)"
| "run_job reply deadline (t # turns) =
     (if deadline \<le> tn_before t
      then (let (out, e) = past_deadline_reply reply (t # turns) in (out, True, e))
      else case tn_received t of
        Received response \<Rightarrow> ([Reply response], False, Answered)
      | Recv_Timeout \<Rightarrow>
          if deadline \<le> tn_after t
          then (let (out, e) = past_deadline_reply reply turns in (out, True, e))
          else if \<not> tn_write_ok t then ([], True, Write_Failed)
          else (let (out, c, e) = run_job reply deadline turns in (Pending # out, c, e))
      | Disconnected \<Rightarrow> ([], False, Panicked))"

end
