(* ===== verification/Jobs_Correct.thy ===== *)
theory Jobs_Correct
  imports Jobs
begin

text \<open>
  The counters of the worker's jobs are what runs and waits, within the limits; the registry names
  the token of every running job and of nothing else, so stopping the worker cancels all of them;
  and one reply is sent to a request, the job's own when it wrote.
\<close>

section \<open>The registry\<close>

definition jobs_of :: "jobs_inner \<Rightarrow> string \<Rightarrow> (nat \<times> nat) list" where
  "jobs_of inner workspace =
     (case map_of (jb_by_workspace inner) workspace of None \<Rightarrow> [] | Some jobs \<Rightarrow> jobs)"

definition running_in :: "job_guard list \<Rightarrow> string \<Rightarrow> (nat \<times> nat) list" where
  "running_in guards workspace =
     map (\<lambda>g. (gd_id g, gd_cancel g)) (filter (\<lambda>g. gd_workspace g = workspace) guards)"

definition registers :: "jobs_inner \<Rightarrow> job_guard list \<Rightarrow> bool" where
  "registers inner guards \<longleftrightarrow>
     (\<forall>workspace. jobs_of inner workspace = running_in guards workspace) \<and>
     distinct (map fst (jb_by_workspace inner))"

definition scans_of :: "job_guard list \<Rightarrow> nat" where
  "scans_of guards = length (filter (\<lambda>g. gd_kind g = Scan) guards)"

lemma running_in_simps [simp]:
  "running_in [] ws = []"
  "running_in (g # gs) ws = (if gd_workspace g = ws then [(gd_id g, gd_cancel g)] else []) @ running_in gs ws"
  "running_in (gs @ gs') ws = running_in gs ws @ running_in gs' ws"
  by (simp_all add: running_in_def)

lemma scans_of_simps [simp]:
  "scans_of [] = 0" "scans_of (gs @ gs') = scans_of gs + scans_of gs'"
  "scans_of (g # gs) = (if gd_kind g = Scan then 1 else 0) + scans_of gs"
  by (simp_all add: scans_of_def)

lemma running_in_ids: "x \<in> set (running_in gs ws) \<Longrightarrow> fst x \<in> gd_id ` set gs"
  by (auto simp: running_in_def)

lemma jobs_of_update:
  "jb_by_workspace inner' = AList.update ws jobs (jb_by_workspace inner) \<Longrightarrow>
   jobs_of inner' w = (if w = ws then jobs else jobs_of inner w)"
  by (auto simp: jobs_of_def update_conv')

lemma jobs_of_delete:
  "jb_by_workspace inner' = AList.delete ws (jb_by_workspace inner) \<Longrightarrow>
   jobs_of inner' w = (if w = ws then [] else jobs_of inner w)"
  by (auto simp: jobs_of_def delete_conv')

lemma take_slot_registers:
  assumes "registers inner guards" and "take_slot ws kd c inner = (inner', g)"
  shows "registers inner' (guards @ [g])"
proof -
  from assms(2) have g: "g = \<lparr>gd_workspace = ws, gd_kind = kd, gd_id = jb_next_id inner, gd_cancel = c\<rparr>"
    and i: "jb_by_workspace inner' = AList.update ws (jobs_of inner ws @ [(jb_next_id inner, c)]) (jb_by_workspace inner)"
    by (auto simp: take_slot_def Let_def jobs_of_def)
  have "jobs_of inner' w = running_in (guards @ [g]) w" for w
    using assms(1) by (simp add: registers_def jobs_of_update [OF i] g)
  then show ?thesis using assms(1) by (simp add: registers_def i distinct_update)
qed

lemma filter_ids:
  assumes "distinct (map gd_id (gs @ g # gs'))"
  shows "filter (\<lambda>(i, _). i \<noteq> gd_id g) (running_in (gs @ g # gs') ws) = running_in (gs @ gs') ws"
proof -
  have "filter (\<lambda>(i, _). i \<noteq> gd_id g) (running_in xs ws) = running_in xs ws" if "gd_id g \<notin> gd_id ` set xs" for xs
    using that by (auto simp: filter_id_conv dest!: running_in_ids)
  then show ?thesis using assms by auto
qed

lemma release_job_registers:
  assumes "registers inner (gs @ g # gs')" and "distinct (map gd_id (gs @ g # gs'))"
  shows "registers (release_job (gd_workspace g) kd (gd_id g) inner) (gs @ gs')"
proof -
  let ?w = "gd_workspace g" and ?bw = "jb_by_workspace inner"
  let ?kept = "running_in (gs @ gs') ?w"
  have j: "jobs_of inner w = running_in (gs @ g # gs') w" for w
    using assms(1) by (simp add: registers_def)
  then have "jobs_of inner ?w \<noteq> []" by simp
  then have m: "map_of ?bw ?w = Some (jobs_of inner ?w)"
    by (auto simp: jobs_of_def split: option.splits)
  have bw: "jb_by_workspace (release_job ?w kd (gd_id g) inner) =
      (if ?kept = [] then AList.delete ?w ?bw else AList.update ?w ?kept ?bw)"
    unfolding release_job_def Let_def m option.case j filter_ids [OF assms(2)]
    by (simp del: running_in_simps)
  have "jobs_of (release_job ?w kd (gd_id g) inner) w = running_in (gs @ gs') w" for w
  proof (cases "?kept = []")
    case True
    then have "jb_by_workspace (release_job ?w kd (gd_id g) inner) = AList.delete ?w ?bw" using bw by simp
    from jobs_of_delete [OF this] show ?thesis using True j [of w] by simp
  next
    case False
    then have "jb_by_workspace (release_job ?w kd (gd_id g) inner) = AList.update ?w ?kept ?bw" by (simp only: bw if_False)
    from jobs_of_update [OF this] show ?thesis using j [of w] by simp
  qed
  then show ?thesis
    using assms(1) by (simp add: registers_def bw distinct_update distinct_delete)
qed

text \<open>What \<open>cancel_all\<close> cancels is the tokens of the running jobs.\<close>

lemma registered_running:
  assumes "registers inner guards"
  shows "set (registered inner) = gd_cancel ` set guards"
proof -
  have d: "distinct (map fst (jb_by_workspace inner))" and j: "jobs_of inner ws = running_in guards ws" for ws
    using assms by (simp_all add: registers_def)
  have "c \<in> set (registered inner) \<longleftrightarrow> (\<exists>ws. c \<in> snd ` set (jobs_of inner ws))" for c
  proof
    assume "c \<in> set (registered inner)"
    then obtain ws l where "(ws, l) \<in> set (jb_by_workspace inner)" "c \<in> snd ` set l"
      by (auto simp: registered_def)
    moreover from this(1) d have "map_of (jb_by_workspace inner) ws = Some l" by simp
    ultimately have "c \<in> snd ` set (jobs_of inner ws)" by (simp add: jobs_of_def)
    then show "\<exists>ws. c \<in> snd ` set (jobs_of inner ws)" ..
  next
    assume "\<exists>ws. c \<in> snd ` set (jobs_of inner ws)"
    then obtain ws where ws: "c \<in> snd ` set (jobs_of inner ws)" ..
    then obtain l where "map_of (jb_by_workspace inner) ws = Some l" "c \<in> snd ` set l"
      by (cases "map_of (jb_by_workspace inner) ws") (simp_all add: jobs_of_def)
    with map_of_SomeD [OF this(1)] show "c \<in> set (registered inner)"
      by (auto simp: registered_def)
  qed
  then show ?thesis unfolding j by (auto simp: running_in_def image_image)
qed

section \<open>The counters\<close>

definition jobs_inv :: "jobs_limits \<Rightarrow> jobs_system \<Rightarrow> bool" where
  "jobs_inv lm sys \<longleftrightarrow>
     (let inner = js_inner sys; guards = js_guards sys in
      jb_running inner = length guards \<and> jb_scans inner = scans_of guards \<and>
      jb_waiting inner = length (js_waiters sys) \<and>
      jb_running inner \<le> jl_git lm \<and> jb_scans inner \<le> jl_scan lm \<and> jb_waiting inner \<le> jl_waiting lm \<and>
      distinct (map gd_id guards) \<and> list_all (\<lambda>g. gd_id g < jb_next_id inner) guards \<and>
      registers inner guards)"

lemma jobs_inv_start: "jobs_start sys \<Longrightarrow> jobs_inv lm sys"
  by (simp add: jobs_start_def jobs_inv_def with_limits_def Let_def registers_def jobs_of_def)

lemma admit_turn_admitted:
  assumes "admit_turn lm cancelled now ws kd c d inner = (inner', Admitted g)"
  shows "can_admit lm kd inner \<and> take_slot ws kd c inner = (inner', g)"
  using assms by (auto simp: admit_turn_def Let_def split: if_splits prod.splits)

lemma admit_turn_other:
  assumes "admit_turn lm cancelled now ws kd c d inner = (inner', r)" and "\<nexists>g. r = Admitted g"
  shows "\<not> can_admit lm kd inner \<and>
    inner' = (case r of Refused _ \<Rightarrow> inner\<lparr>jb_waiting := jb_waiting inner - 1\<rparr> | _ \<Rightarrow> inner)"
  using assms by (auto simp: admit_turn_def Let_def split: if_splits prod.splits)

lemma registers_counters [simp]:
  "registers (inner\<lparr>jb_waiting := n\<rparr>) guards = registers inner guards"
  "registers (inner\<lparr>jb_stopped := b\<rparr>) guards = registers inner guards"
  by (simp_all add: registers_def jobs_of_def)

lemma jobs_inv_step:
  assumes inv: "jobs_inv lm sys" and "jobs_step lm sys e sys'"
  shows "jobs_inv lm sys'"
  using assms(2)
proof (cases rule: jobs_step.cases)
  case (enter_step now w inner)
  then show ?thesis
    using inv by (auto simp: jobs_inv_def Let_def admit_enter_def split: if_splits)
next
  case (admitted_step now ws w ws' inner guard)
  note t = admit_turn_admitted [OF admitted_step(5)]
  have "registers inner (js_guards sys @ [guard])"
    using inv t by (intro take_slot_registers) (auto simp: jobs_inv_def Let_def)
  then show ?thesis
    using inv t admitted_step(2,4)
    by (auto simp: jobs_inv_def Let_def take_slot_def can_admit_def list_all_iff split: job_kind.splits)
next
  case (refused_step now ws w ws' inner code)
  then show ?thesis
    using inv admit_turn_other [OF refused_step(5)] by (auto simp: jobs_inv_def Let_def)
next
  case (sleep_step now ws w ws' inner)
  then show ?thesis
    using inv admit_turn_other [OF sleep_step(5)] by (auto simp: jobs_inv_def Let_def)
next
  case (release_step now gs guard gs')
  let ?inner = "release_job (gd_workspace guard) (gd_kind guard) (gd_id guard) (js_inner sys)"
  have r: "registers ?inner (gs @ gs')"
    using inv release_step(4) by (intro release_job_registers) (auto simp: jobs_inv_def Let_def)
  have "jb_running ?inner = jb_running (js_inner sys) - 1 \<and> jb_waiting ?inner = jb_waiting (js_inner sys) \<and>
      jb_scans ?inner = (if gd_kind guard = Scan then jb_scans (js_inner sys) - 1 else jb_scans (js_inner sys)) \<and>
      jb_next_id ?inner = jb_next_id (js_inner sys)"
    by (simp add: release_job_def Let_def split: option.split)
  then show ?thesis
    using inv release_step(2,4) r by (auto simp: jobs_inv_def Let_def)
next
  case (stop_step now cancelled inner)
  then show ?thesis using inv by (auto simp: jobs_inv_def Let_def cancel_all_def)
qed (use inv in \<open>auto simp: jobs_inv_def Let_def\<close>)

interpretation jobs: machine jobs_start "jobs_step lm" "jobs_inv lm" for lm
  by unfold_locales (auto intro: jobs_inv_start jobs_inv_step)

section \<open>The properties\<close>

text \<open>
  C19.  However requests arrive, wait, give up, run and end, the counters are the numbers of jobs
  that run, scan and wait, none above its limit, and the registry holds the cancel tokens of the
  running jobs and no others.
\<close>

theorem admission_within_limits:
  assumes "jobs_start sys0" and "runs (jobs_step lm) sys0 es sys"
  shows "let inner = js_inner sys; guards = js_guards sys in
    jb_running inner = length guards \<and> jb_scans inner = scans_of guards \<and>
    jb_waiting inner = length (js_waiters sys) \<and>
    jb_running inner \<le> jl_git lm \<and> jb_scans inner \<le> jl_scan lm \<and> jb_waiting inner \<le> jl_waiting lm \<and>
    distinct (map gd_id guards) \<and> set (registered inner) = gd_cancel ` set guards"
  using jobs.inv_reachable [OF assms] registered_running
  by (simp add: jobs_inv_def Let_def)

lemma stopped_step:
  assumes "jobs_step lm sys e sys'" and "jb_stopped (js_inner sys)"
  shows "jb_stopped (js_inner sys')"
  using assms
  by (cases rule: jobs_step.cases)
    (auto simp: admit_enter_def admit_turn_def take_slot_def release_job_def cancel_all_def Let_def
      split: if_splits option.splits)

interpretation stopping: keeping jobs_start "jobs_step lm" "jobs_inv lm"
    "\<lambda>sys. jb_stopped (js_inner sys)" "\<lambda>_. True" for lm
  by unfold_locales (rule stopped_step)

text \<open>
  C20.  Stopping the worker cancels the token of every job that runs then, and from then on every
  new request is refused as busy.
\<close>

theorem stop_cancels_running:
  assumes "jobs_start sys0" and "runs (jobs_step lm) sys0 es sys"
    and "jobs_step lm sys Stopped sys1" and "runs (jobs_step lm) sys1 fs sys2"
  shows "gd_cancel ` set (js_guards sys) \<subseteq> set (js_cancelled sys1) \<and>
    admit_enter lm (js_cancelled sys2) cancel (js_inner sys2) = Inl Busy"
proof -
  note inv = jobs.inv_reachable [OF assms(1,2)]
  from assms(3) have c: "cancel_all (js_cancelled sys) (js_inner sys) = (js_cancelled sys1, js_inner sys1)"
    by (cases rule: jobs_step.cases) auto
  then have "js_inner sys1 = (js_inner sys)\<lparr>jb_stopped := True\<rparr>" by (simp add: cancel_all_def)
  then have "jb_stopped (js_inner sys1)" by simp
  from stopping.kept_runs [OF assms(4) jobs_inv_step [OF inv assms(3)] this]
  have "jb_stopped (js_inner sys2)" by (simp add: list_all_iff)
  moreover have "js_cancelled sys1 = registered (js_inner sys) @ js_cancelled sys"
    using c by (simp add: cancel_all_def)
  moreover have "set (registered (js_inner sys)) = gd_cancel ` set (js_guards sys)"
    using inv by (intro registered_running) (simp add: jobs_inv_def Let_def)
  ultimately show ?thesis by (simp add: admit_enter_def)
qed

text \<open>
  A request that waits when the worker stops is not cancelled, and its next turn looks for a free
  slot before it looks at the stop: it may still start.
\<close>

lemma waiting_job_starts_after_stop:
  "can_admit lm kd inner \<Longrightarrow> jb_stopped inner \<Longrightarrow>
   \<exists>g. snd (admit_turn lm cancelled now ws kd c d inner) = Admitted g"
  by (simp add: admit_turn_def take_slot_def Let_def)

text \<open>A request never waits past its deadline.\<close>

lemma waiting_ends_at_deadline:
  "d \<le> now \<Longrightarrow> snd (admit_turn lm cancelled now ws kd c d inner) \<noteq> Still_Waiting"
  by (simp add: admit_turn_def Let_def split: prod.split)

section \<open>One answer\<close>

definition silent :: "'r turn \<Rightarrow> bool" where
  "silent t \<longleftrightarrow> tn_received t = Recv_Timeout \<and> tn_write_ok t"

lemma past_deadline_write:
  "list_all silent ts \<Longrightarrow> tn_received t = Received r \<Longrightarrow>
   past_deadline_reply WriteOutcome (ts @ [t]) = (replicate (length ts) Pending @ [Reply r], Answered)"
  by (induction ts) (auto simp: silent_def)


text \<open>A read past its deadline answers that it timed out, and its token is cancelled.\<close>

lemma read_times_out:
  "list_all (\<lambda>u. silent u \<and> tn_before u < deadline \<and> tn_after u < deadline) ts \<Longrightarrow> deadline \<le> tn_before t \<Longrightarrow>
   run_job Fail_Reply deadline (ts @ [t]) = (replicate (length ts) Pending @ [Timed_Out], True, Answered)"
  by (induction ts) (auto simp: silent_def)

section \<open>An example\<close>

text \<open>One scan of one workspace waits and starts.\<close>

definition demo_idle :: jobs_system where
  "demo_idle = \<lparr>js_inner = with_limits, js_waiters = [], js_guards = [], js_cancelled = [], js_now = 0\<rparr>"

definition demo_waiter :: waiter where
  "demo_waiter = \<lparr>wt_workspace = ''w'', wt_kind = Scan, wt_cancel = 7, wt_deadline = ADMIT_WAIT\<rparr>"

definition demo_waiting :: jobs_system where
  "demo_waiting = demo_idle\<lparr>js_inner := with_limits\<lparr>jb_waiting := 1\<rparr>, js_waiters := [demo_waiter]\<rparr>"

definition demo_guard :: job_guard where
  "demo_guard = \<lparr>gd_workspace = ''w'', gd_kind = Scan, gd_id = 1, gd_cancel = 7\<rparr>"

definition demo_running :: jobs_system where
  "demo_running = \<lparr>js_inner = \<lparr>jb_running = 1, jb_scans = 1, jb_waiting = 0, jb_stopped = False,
     jb_next_id = 2, jb_by_workspace = [(''w'', [(1, 7)])]\<rparr>, js_waiters = [], js_guards = [demo_guard],
     js_cancelled = [], js_now = 0\<rparr>"

definition demo_stopped :: jobs_system where
  "demo_stopped = demo_running\<lparr>js_inner := (js_inner demo_running)\<lparr>jb_stopped := True\<rparr>, js_cancelled := [7]\<rparr>"

lemma demo_jobs_run: "runs (jobs_step jobs_new) demo_idle [Entered, Started demo_guard] demo_running"
proof (intro runs_more runs_none)
  have "jobs_step jobs_new demo_idle Entered (demo_idle\<lparr>js_inner := with_limits\<lparr>jb_waiting := 1\<rparr>,
      js_waiters := js_waiters demo_idle @ [demo_waiter], js_now := 0\<rparr>)"
    by (rule enter_step)
      (simp_all add: demo_idle_def demo_waiter_def admit_enter_def with_limits_def jobs_new_def
        MAX_JOBS_WAITING_def)
  then show "jobs_step jobs_new demo_idle Entered demo_waiting"
    by (simp add: demo_waiting_def demo_idle_def)
  have "admit_turn jobs_new (js_cancelled demo_waiting) 0 (wt_workspace demo_waiter) (wt_kind demo_waiter)
      (wt_cancel demo_waiter) (wt_deadline demo_waiter) (js_inner demo_waiting) =
      (js_inner demo_running, Admitted demo_guard)"
    by (simp add: demo_waiting_def demo_idle_def demo_waiter_def demo_running_def demo_guard_def
        admit_turn_def can_admit_def take_slot_def with_limits_def jobs_new_def MAX_GIT_JOBS_def
        MAX_SCAN_JOBS_def)
  from admitted_step [OF _ _ this, where ws = "[]" and ws' = "[]"]
  show "jobs_step jobs_new demo_waiting (Started demo_guard) demo_running"
    by (simp add: demo_waiting_def demo_idle_def demo_running_def)
qed simp

lemma demo_jobs_start: "jobs_start demo_idle"
  by (simp add: jobs_start_def demo_idle_def)

theorem admission_within_limits_witness:
  "jb_scans (js_inner demo_running) \<le> jl_scan jobs_new \<and> set (registered (js_inner demo_running)) = {7}"
  using admission_within_limits [OF demo_jobs_start demo_jobs_run]
  by (simp add: Let_def demo_running_def demo_guard_def)

theorem stop_cancels_running_witness:
  "7 \<in> set (js_cancelled demo_stopped) \<and>
   admit_enter jobs_new (js_cancelled demo_stopped) 9 (js_inner demo_stopped) = Inl Busy"
proof -
  have "jobs_step jobs_new demo_running Stopped (demo_running\<lparr>js_inner := js_inner demo_stopped,
      js_cancelled := [7], js_now := 0\<rparr>)"
    by (rule stop_step) (simp_all add: demo_running_def demo_stopped_def cancel_all_def registered_def)
  then have "jobs_step jobs_new demo_running Stopped demo_stopped"
    by (simp add: demo_running_def demo_stopped_def)
  from stop_cancels_running [OF demo_jobs_start demo_jobs_run this runs_none]
  show ?thesis by (simp add: demo_running_def demo_guard_def)
qed


end
