(* ===== verification/Lifecycle.thy ===== *)
theory Lifecycle
  imports "HOL-Library.Word" Machine Host
begin

text \<open>
  The lifecycle of one native workbench (\<open>crates/desktop-native/src/lifecycle.rs\<close>): the background
  jobs it owns, and the drain that must end before it quits or changes the workspace.

  Cancel tokens are numbers, and the cancelled ones a list beside the state.  A job's finish flag is
  shared with its future; it is a field of the job here, set by a step of its own.  An
  \<open>Instant\<close> is a number of nanoseconds, and what a remote workspace's intent carries is a type
  parameter.
\<close>

definition DRAIN_DEADLINE :: nat where "DRAIN_DEADLINE = 8 * 1000000000"

datatype work_kind = CancellableRead | UncancellableRead | Mutating

datatype 'r intent = Quit | CloseWorkspace | OpenWorkspace native_path | OpenRemoteWorkspace 'r

fun intent_text :: "'r intent \<Rightarrow> string" where
  "intent_text Quit = ''quit''"
| "intent_text CloseWorkspace = ''close-workspace''"
| "intent_text (OpenWorkspace _) = ''open-workspace''"
| "intent_text (OpenRemoteWorkspace _) = ''open-remote-workspace''"

record git_load =
  gl_in_flight :: nat
  gl_queued :: nat
  gl_leaked :: nat

definition load_idle :: git_load where
  "load_idle = \<lparr>gl_in_flight = 0, gl_queued = 0, gl_leaked = 0\<rparr>"

definition own_tab :: "nat \<Rightarrow> git_load" where
  "own_tab leaked_slots = \<lparr>gl_in_flight = 0, gl_queued = 0, gl_leaked = leaked_slots\<rparr>"

definition is_clear :: "git_load \<Rightarrow> bool" where
  "is_clear git \<longleftrightarrow> gl_in_flight git = 0 \<and> gl_queued git = 0 \<and> gl_leaked git = 0"

datatype drain_request = RefusedApplying | Drain_Busy | Accepted

datatype 'r drain_step = Step_Idle | Step_Draining | Ready "'r intent" | Failed "'r intent" string

text \<open>\<open>Task\<close> is opaque: a task is a number.\<close>

record owned_job =
  oj_id :: "64 word"
  oj_kind :: work_kind
  oj_cancel :: "nat option"
  oj_finished :: bool
  oj_task :: "nat option"

datatype 'r phase = Phase_Idle | Draining "'r intent" nat

record 'r lifecycle =
  lc_generation :: "64 word"
  lc_next_id :: "64 word"
  lc_jobs :: "owned_job list"
  lc_phase :: "'r phase"

definition lifecycle_new :: "64 word \<Rightarrow> 'r lifecycle" where
  "lifecycle_new generation =
     \<lparr>lc_generation = generation, lc_next_id = 1, lc_jobs = [], lc_phase = Phase_Idle\<rparr>"

definition is_draining :: "'r lifecycle \<Rightarrow> bool" where
  "is_draining lc \<longleftrightarrow> (case lc_phase lc of Draining _ _ \<Rightarrow> True | Phase_Idle \<Rightarrow> False)"

definition pending_intent :: "'r lifecycle \<Rightarrow> 'r intent option" where
  "pending_intent lc = (case lc_phase lc of Draining intent _ \<Rightarrow> Some intent | Phase_Idle \<Rightarrow> None)"

definition intent_name :: "'r lifecycle \<Rightarrow> string" where
  "intent_name lc = (case lc_phase lc of Draining intent _ \<Rightarrow> intent_text intent | Phase_Idle \<Rightarrow> ''none'')"

text \<open>Only a cancellable read keeps the token it is registered with.\<close>

definition register :: "work_kind \<Rightarrow> nat option \<Rightarrow> 'r lifecycle \<Rightarrow> 'r lifecycle \<times> 64 word" where
  "register kd cancel lc =
     (let kept = (case kd of CancellableRead \<Rightarrow> cancel | UncancellableRead \<Rightarrow> None | Mutating \<Rightarrow> None);
          i = lc_next_id lc in
      (lc\<lparr>lc_next_id := i + 1,
          lc_jobs := lc_jobs lc @
            [\<lparr>oj_id = i, oj_kind = kd, oj_cancel = kept, oj_finished = False, oj_task = None\<rparr>]\<rparr>, i))"

text \<open>The first job with the id gets the task.\<close>

fun attach_task :: "64 word \<Rightarrow> nat \<Rightarrow> owned_job list \<Rightarrow> owned_job list" where
  "attach_task i task [] = []"
| "attach_task i task (job # jobs) =
     (if oj_id job = i then job\<lparr>oj_task := Some task\<rparr> # jobs else job # attach_task i task jobs)"

definition attach :: "64 word \<Rightarrow> nat \<Rightarrow> 'r lifecycle \<Rightarrow> 'r lifecycle" where
  "attach i task lc = lc\<lparr>lc_jobs := attach_task i task (lc_jobs lc)\<rparr>"

definition is_live :: "64 word \<Rightarrow> 'r lifecycle \<Rightarrow> bool" where
  "is_live i lc \<longleftrightarrow> list_ex (\<lambda>job. oj_id job = i \<and> \<not> oj_finished job) (lc_jobs lc)"

definition has_mutating :: "'r lifecycle \<Rightarrow> bool" where
  "has_mutating lc \<longleftrightarrow> list_ex (\<lambda>job. oj_kind job = Mutating \<and> \<not> oj_finished job) (lc_jobs lc)"

definition reap :: "'r lifecycle \<Rightarrow> 'r lifecycle" where
  "reap lc = lc\<lparr>lc_jobs := filter (\<lambda>job. \<not> oj_finished job) (lc_jobs lc)\<rparr>"

definition unfinished :: "'r lifecycle \<Rightarrow> 'r lifecycle \<times> nat" where
  "unfinished lc = (reap lc, length (lc_jobs (reap lc)))"

definition live_jobs :: "'r lifecycle \<Rightarrow> nat" where
  "live_jobs lc = length (filter (\<lambda>job. \<not> oj_finished job) (lc_jobs lc))"

text \<open>The tokens \<open>cancel_cancellable\<close> cancels.\<close>

fun cancellable_tokens :: "owned_job list \<Rightarrow> nat list" where
  "cancellable_tokens [] = []"
| "cancellable_tokens (job # jobs) =
     (if oj_kind job = CancellableRead
      then (case oj_cancel job of Some token \<Rightarrow> [token] | None \<Rightarrow> []) else []) @
     cancellable_tokens jobs"

definition cancel_cancellable :: "'r lifecycle \<Rightarrow> nat list \<Rightarrow> nat list" where
  "cancel_cancellable lc cancelled = cancellable_tokens (lc_jobs lc) @ cancelled"

definition request_drain ::
  "'r intent \<Rightarrow> nat \<Rightarrow> 'r lifecycle \<times> nat list \<Rightarrow> ('r lifecycle \<times> nat list) \<times> drain_request" where
  "request_drain intent now = (\<lambda>(lc, cancelled).
     if has_mutating lc then ((lc, cancelled), RefusedApplying)
     else case lc_phase lc of
       Draining current started \<Rightarrow>
         ((if current \<noteq> Quit then lc\<lparr>lc_phase := Draining intent started\<rparr> else lc, cancelled), Drain_Busy)
     | Phase_Idle \<Rightarrow>
         ((lc\<lparr>lc_generation := lc_generation lc + 1, lc_phase := Draining intent now\<rparr>,
           cancel_cancellable lc cancelled), Accepted))"

definition resume :: "'r intent \<Rightarrow> nat \<Rightarrow> 'r lifecycle \<Rightarrow> 'r lifecycle" where
  "resume intent now lc = (if is_draining lc then lc else lc\<lparr>lc_phase := Draining intent now\<rparr>)"

definition poll_at :: "nat \<Rightarrow> git_load \<Rightarrow> 'r lifecycle \<Rightarrow> 'r lifecycle \<times> 'r drain_step" where
  "poll_at now git lc0 =
     (let lc = reap lc0 in
      case lc_phase lc of
        Phase_Idle \<Rightarrow> (lc, Step_Idle)
      | Draining intent started \<Rightarrow>
          (let pending = (lc_jobs lc \<noteq> []) in
           if \<not> pending \<and> is_clear git then (lc\<lparr>lc_phase := Phase_Idle\<rparr>, Ready intent)
           else if \<not> pending \<and> gl_in_flight git = 0 \<and> gl_queued git = 0 \<and> 0 < gl_leaked git
           then (lc\<lparr>lc_phase := Phase_Idle\<rparr>, Failed intent ''leaked'')
           else if DRAIN_DEADLINE \<le> now - started
           then (lc\<lparr>lc_phase := Phase_Idle\<rparr>, Failed intent ''timeout'')
           else (lc, Step_Draining)))"

section \<open>The window polls its drain\<close>

text \<open>
  What a drain waits for besides the jobs (\<open>drain_load\<close> in \<open>main.rs\<close>): a quit waits for every Git
  child of the process, another intent only for leaked slots.
\<close>

definition drain_load :: "git_load \<Rightarrow> 'r intent option \<Rightarrow> git_load" where
  "drain_load current intent =
     (case intent of
        None \<Rightarrow> current
      | Some Quit \<Rightarrow> current
      | Some _ \<Rightarrow> own_tab (gl_leaked current))"

datatype 'r poll_outcome = Quiet | Blocked | Finished_Drain "'r intent" | Gave_Up "'r intent" string

text \<open>
  \<open>finish_intent\<close> up to the action the intent stands for, and \<open>poll_lifecycle\<close>: a ready drain is
  checked twice more, and put back when something came up.  The process-wide load is read anew for
  each check, and the clock for the last.
\<close>

definition finish_intent ::
  "nat \<Rightarrow> git_load \<Rightarrow> 'r intent \<Rightarrow> 'r lifecycle \<Rightarrow> 'r lifecycle \<times> 'r poll_outcome" where
  "finish_intent now current intent lc0 =
     (case unfinished lc0 of (lc, n) \<Rightarrow>
        if 0 < n \<or> \<not> is_clear (drain_load current (Some intent))
        then (resume intent now lc, Blocked)
        else (lc, Finished_Drain intent))"

definition poll_lifecycle ::
  "nat \<Rightarrow> nat \<Rightarrow> git_load \<Rightarrow> git_load \<Rightarrow> git_load \<Rightarrow> 'r lifecycle \<Rightarrow> 'r lifecycle \<times> 'r poll_outcome" where
  "poll_lifecycle now now' load1 load2 load3 lc0 =
     (case poll_at now (drain_load load1 (pending_intent lc0)) lc0 of
        (lc, Ready intent) \<Rightarrow>
          (case unfinished lc of (lc', n) \<Rightarrow>
             if 0 < n \<or> \<not> is_clear (drain_load load2 (Some intent))
             then (resume intent now lc', Blocked)
             else finish_intent now' load3 intent lc')
      | (lc, Failed intent reason) \<Rightarrow> (lc, Gave_Up intent reason)
      | (lc, _) \<Rightarrow> (lc, Quiet))"

section \<open>The window and its jobs\<close>

record 'r window =
  wd_lifecycle :: "'r lifecycle"
  wd_cancelled :: "nat list"
  wd_now :: nat

datatype 'r window_event =
  Registered work_kind "nat option" | Attached | Job_Finished | Requested "'r intent" drain_request
  | Polled git_load "'r poll_outcome" | Closed_Down | Cancelled_Elsewhere nat

definition window_start :: "'r window \<Rightarrow> bool" where
  "window_start wd \<longleftrightarrow> wd_lifecycle wd = lifecycle_new (lc_generation (wd_lifecycle wd)) \<and> wd_cancelled wd = []"

inductive window_step :: "'r window \<Rightarrow> 'r window_event \<Rightarrow> 'r window \<Rightarrow> bool" where
  register_step:
    "register kd cancel (wd_lifecycle wd) = (lc, i) \<Longrightarrow>
     window_step wd (Registered kd cancel) (wd\<lparr>wd_lifecycle := lc\<rparr>)"
| attach_step:
    "window_step wd Attached (wd\<lparr>wd_lifecycle := attach i task (wd_lifecycle wd)\<rparr>)"
| finish_step:
    "lc_jobs (wd_lifecycle wd) = jobs @ job # jobs' \<Longrightarrow>
     window_step wd Job_Finished
       (wd\<lparr>wd_lifecycle := (wd_lifecycle wd)\<lparr>lc_jobs := jobs @ job\<lparr>oj_finished := True\<rparr> # jobs'\<rparr>\<rparr>)"
| request_step:
    "wd_now wd \<le> now \<Longrightarrow>
     request_drain intent now (wd_lifecycle wd, wd_cancelled wd) = ((lc, cancelled), answer) \<Longrightarrow>
     window_step wd (Requested intent answer)
       (wd\<lparr>wd_lifecycle := lc, wd_cancelled := cancelled, wd_now := now\<rparr>)"
| poll_step:
    "wd_now wd \<le> now \<Longrightarrow> now \<le> now' \<Longrightarrow>
     poll_lifecycle now now' load1 load2 load3 (wd_lifecycle wd) = (lc, outcome) \<Longrightarrow>
     window_step wd (Polled load3 outcome) (wd\<lparr>wd_lifecycle := lc, wd_now := now'\<rparr>)"
| close_step:
    "window_step wd Closed_Down
       (wd\<lparr>wd_cancelled := cancel_cancellable (wd_lifecycle wd) (wd_cancelled wd)\<rparr>)"
| elsewhere_step:
    "window_step wd (Cancelled_Elsewhere token) (wd\<lparr>wd_cancelled := token # wd_cancelled wd\<rparr>)"

inductive_cases window_stepE: "window_step wd e wd'"

text \<open>The line the diagnostics print\<close>

definition format_line ::
  "string \<Rightarrow> string \<Rightarrow> string option \<Rightarrow> nat \<Rightarrow> git_load \<Rightarrow> 64 word \<Rightarrow> string" where
  "format_line phase intent reason jobs git generation =
     ''phase='' @ phase @ '' intent='' @ intent @
     (case reason of Some reason \<Rightarrow> '' reason='' @ reason | None \<Rightarrow> []) @
     '' jobs='' @ show_nat jobs @ '' inflight='' @ show_nat (gl_in_flight git) @
     '' queued='' @ show_nat (gl_queued git) @ '' leaked='' @ show_nat (gl_leaked git) @
     '' generation='' @ show_nat (unat generation)"

end
