(* ===== verification/Lifecycle_Correct.thy ===== *)
theory Lifecycle_Correct
  imports Lifecycle
begin

text \<open>
  A window quits or changes its workspace only when its jobs are over and nothing of Git is left,
  only as asked, and without cancelling a write; a quit that was asked for is not forgotten.
\<close>

section \<open>One operation at a time\<close>

lemma reap_simps [simp]:
  "lc_phase (reap lc) = lc_phase lc" "lc_next_id (reap lc) = lc_next_id lc"
  "lc_jobs (reap lc) = filter (\<lambda>job. \<not> oj_finished job) (lc_jobs lc)"
  "reap (reap lc) = reap lc" "pending_intent (reap lc) = pending_intent lc"
  "pending_intent (lc\<lparr>lc_phase := Phase_Idle\<rparr>) = None"
  by (simp_all add: reap_def pending_intent_def)

lemma unfinished_simp [simp]: "unfinished lc = (reap lc, live_jobs lc)"
  by (simp add: unfinished_def live_jobs_def)

lemma live_jobs_zero: "live_jobs lc = 0 \<longleftrightarrow> lc_jobs (reap lc) = []"
  by (simp add: live_jobs_def)

lemma resume_simps [simp]:
  "lc_jobs (resume intent now lc) = lc_jobs lc"
  "lc_phase lc = Phase_Idle \<Longrightarrow> pending_intent (resume intent now lc) = Some intent"
  by (simp_all add: resume_def is_draining_def pending_intent_def)

text \<open>A poll reaps, and goes on draining, or ends the drain with the intent it was asked for.\<close>

lemma poll_at_cases:
  assumes "poll_at now git lc0 = (lc, step)"
  shows "case step of
      Step_Idle \<Rightarrow> pending_intent lc0 = None \<and> lc = reap lc0
    | Step_Draining \<Rightarrow> pending_intent lc0 \<noteq> None \<and> lc = reap lc0
    | Ready intent \<Rightarrow> pending_intent lc0 = Some intent \<and> lc = (reap lc0)\<lparr>lc_phase := Phase_Idle\<rparr> \<and>
        live_jobs lc0 = 0 \<and> is_clear git
    | Failed intent reason \<Rightarrow> pending_intent lc0 = Some intent \<and> lc = (reap lc0)\<lparr>lc_phase := Phase_Idle\<rparr>"
  using assms
  by (auto simp: poll_at_def pending_intent_def Let_def live_jobs_def filter_empty_conv
      split: phase.splits if_splits)

text \<open>A drain is over when the deadline has passed, whatever is left.\<close>

lemma poll_after_deadline:
  "lc_phase lc = Draining intent started \<Longrightarrow> DRAIN_DEADLINE \<le> now - started \<Longrightarrow>
   snd (poll_at now git lc) \<in> {Ready intent, Failed intent ''leaked'', Failed intent ''timeout''}"
  by (simp add: poll_at_def Let_def)

lemma poll_lifecycle_cases:
  assumes "poll_lifecycle now now' load1 load2 load3 lc0 = (lc, outcome)"
  shows "case outcome of
      Quiet \<Rightarrow> pending_intent lc = pending_intent lc0 \<and> lc = reap lc0
    | Blocked \<Rightarrow> pending_intent lc = pending_intent lc0 \<and> lc_jobs lc = lc_jobs (reap lc0)
    | Finished_Drain intent \<Rightarrow> pending_intent lc0 = Some intent \<and> lc_jobs lc = [] \<and> pending_intent lc = None \<and>
        live_jobs lc0 = 0 \<and> is_clear (drain_load load1 (Some intent)) \<and>
        is_clear (drain_load load2 (Some intent)) \<and> is_clear (drain_load load3 (Some intent))
    | Gave_Up intent reason \<Rightarrow> pending_intent lc0 = Some intent \<and> lc_jobs lc = lc_jobs (reap lc0) \<and>
        pending_intent lc = None"
proof -
  obtain lc1 step where p: "poll_at now (drain_load load1 (pending_intent lc0)) lc0 = (lc1, step)"
    by fastforce
  note c = assms [unfolded poll_lifecycle_def p]
  show ?thesis
  proof (cases step)
    case (Ready intent)
    have lc1: "pending_intent lc0 = Some intent" "lc1 = (reap lc0)\<lparr>lc_phase := Phase_Idle\<rparr>" "live_jobs lc0 = 0"
      "is_clear (drain_load load1 (Some intent))"
      using poll_at_cases [OF p] Ready by auto
    have e: "lc_jobs (reap lc0) = []" "live_jobs lc1 = 0" "pending_intent lc1 = None"
      "pending_intent (resume intent t (reap lc1)) = Some intent" for t
      using lc1(2,3) by (simp_all add: live_jobs_def pending_intent_def resume_def is_draining_def)
    have "(if 0 < live_jobs lc1 \<or> \<not> is_clear (drain_load load2 (Some intent))
           then (resume intent now (reap lc1), Blocked)
           else finish_intent now' load3 intent (reap lc1)) = (lc, outcome)"
      using c Ready by simp
    then show ?thesis
      using lc1 e by (auto simp: finish_intent_def live_jobs_def split: if_splits)
  qed (use c poll_at_cases [OF p] in auto)
qed

text \<open>While a confirmed write runs, a request changes nothing.\<close>

lemma request_refused_while_applying:
  "has_mutating lc \<Longrightarrow> request_drain intent now (lc, cancelled) = ((lc, cancelled), RefusedApplying)"
  by (simp add: request_drain_def)

lemma request_drain_cases:
  assumes "request_drain intent now (lc, cancelled) = ((lc', cancelled'), answer)"
  shows "lc_jobs lc' = lc_jobs lc \<and>
    (cancelled' = cancelled \<or> cancelled' = cancel_cancellable lc cancelled \<and> \<not> has_mutating lc) \<and>
    (case answer of
       RefusedApplying \<Rightarrow> lc' = lc \<and> has_mutating lc
     | Drain_Busy \<Rightarrow> pending_intent lc' =
         (if pending_intent lc = Some Quit then Some Quit else Some intent)
     | Accepted \<Rightarrow> pending_intent lc = None \<and> pending_intent lc' = Some intent)"
  using assms
  by (auto simp: request_drain_def pending_intent_def split: if_splits phase.splits)

section \<open>Every run\<close>

text \<open>
  Only a cancellable read holds a token, and the ids of a window's jobs are not asked for: jobs are
  told apart by their place.
\<close>

definition tokens_read_only :: "'r window \<Rightarrow> bool" where
  "tokens_read_only wd \<longleftrightarrow>
     list_all (\<lambda>job. oj_kind job \<noteq> CancellableRead \<longrightarrow> oj_cancel job = None) (lc_jobs (wd_lifecycle wd))"

lemma attach_task_all:
  "(\<And>job t. P (job\<lparr>oj_task := t\<rparr>) = P job) \<Longrightarrow> list_all P (attach_task i task jobs) = list_all P jobs"
  by (induction jobs) auto

lemma cancellable_tokens_set:
  "set (cancellable_tokens jobs) =
     {t. \<exists>job \<in> set jobs. oj_kind job = CancellableRead \<and> oj_cancel job = Some t}"
proof (induction jobs)
  case (Cons job jobs)
  have "set (cancellable_tokens (job # jobs)) =
      {t. oj_kind job = CancellableRead \<and> oj_cancel job = Some t} \<union> set (cancellable_tokens jobs)"
    by (cases "oj_cancel job"; cases "oj_kind job") simp_all
  then show ?case unfolding Cons.IH list.set by blast
qed (unfold cancellable_tokens.simps list.set, blast)

lemma poll_lifecycle_jobs:
  assumes "poll_lifecycle now now' load1 load2 load3 lc0 = (lc, outcome)"
  shows "set (lc_jobs lc) \<subseteq> set (lc_jobs lc0)"
  using poll_lifecycle_cases [OF assms] by (auto split: poll_outcome.splits)

text \<open>A property of every job that no operation on the job changes holds of the jobs a step leaves.\<close>

lemma step_jobs:
  assumes "window_step wd e wd'" and "list_all P (lc_jobs (wd_lifecycle wd))"
    and "\<And>job t. P (job\<lparr>oj_task := t\<rparr>) = P job" and "\<And>job b. P (job\<lparr>oj_finished := b\<rparr>) = P job"
    and "\<And>kd cancel i. e = Registered kd cancel \<Longrightarrow>
      P \<lparr>oj_id = i, oj_kind = kd, oj_cancel = (if kd = CancellableRead then cancel else None),
         oj_finished = False, oj_task = None\<rparr>"
  shows "list_all P (lc_jobs (wd_lifecycle wd'))"
  using assms(1)
proof (cases rule: window_step.cases)
  case (register_step kd cancel lc i)
  then show ?thesis
    using assms(2,5) by (cases kd) (auto simp: register_def Let_def)
next
  case (request_step now intent lc cancelled answer)
  then show ?thesis
    using assms(2) request_drain_cases [OF request_step(4)] by simp
next
  case (poll_step now now' load1 load2 load3 lc outcome)
  then show ?thesis
    using assms(2) poll_lifecycle_jobs [OF poll_step(5)] by (auto simp: list_all_iff)
qed (use assms(2,4) in \<open>auto simp: attach_def attach_task_all [OF assms(3)]\<close>)

interpretation tokens: machine window_start window_step tokens_read_only
proof
  show "tokens_read_only wd" if "window_start wd" for wd :: "'a window"
  proof -
    have "lc_jobs (wd_lifecycle wd) = []"
      using that unfolding window_start_def lifecycle_new_def
      by (metis lifecycle.select_convs(3))
    then show ?thesis by (simp add: tokens_read_only_def)
  qed
  show "tokens_read_only wd'" if "tokens_read_only wd" "window_step wd e wd'" for wd e and wd' :: "'a window"
    using step_jobs [OF that(2), where P = "\<lambda>job. oj_kind job \<noteq> CancellableRead \<longrightarrow> oj_cancel job = None"] that(1)
    by (simp add: tokens_read_only_def)
qed

text \<open>What is cancelled stays among the tokens that may be.\<close>

definition cancels_within :: "nat set \<Rightarrow> 'r window \<Rightarrow> bool" where
  "cancels_within T wd \<longleftrightarrow>
     set (wd_cancelled wd) \<subseteq> T \<and>
     list_all (\<lambda>job. set_option (oj_cancel job) \<subseteq> T) (lc_jobs (wd_lifecycle wd))"

definition brings :: "nat \<Rightarrow> 'r window_event \<Rightarrow> bool" where
  "brings t e \<longleftrightarrow> e = Registered CancellableRead (Some t) \<or> e = Cancelled_Elsewhere t"

lemma cancel_cancellable_within:
  assumes "cancels_within T wd"
  shows "set (cancel_cancellable (wd_lifecycle wd) (wd_cancelled wd)) \<subseteq> T"
proof -
  have "t \<in> T" if "t \<in> set (cancellable_tokens (lc_jobs (wd_lifecycle wd)))" for t
  proof -
    from that obtain job where "job \<in> set (lc_jobs (wd_lifecycle wd))" "oj_cancel job = Some t"
      unfolding cancellable_tokens_set by blast
    with assms show ?thesis by (force simp: cancels_within_def list_all_iff)
  qed
  with assms show ?thesis by (auto simp: cancels_within_def cancel_cancellable_def)
qed

interpretation cancelling: keeping window_start window_step tokens_read_only
    "cancels_within T" "\<lambda>e. {t. brings t e} \<subseteq> T" for T
proof
  fix wd e and wd' :: "'a window"
  assume w: "cancels_within T wd" and s: "window_step wd e wd'" and q: "{t. brings t e} \<subseteq> T"
  have "list_all (\<lambda>job. set_option (oj_cancel job) \<subseteq> T) (lc_jobs (wd_lifecycle wd'))"
  proof (rule step_jobs [OF s])
    show "list_all (\<lambda>job. set_option (oj_cancel job) \<subseteq> T) (lc_jobs (wd_lifecycle wd))"
      using w by (simp add: cancels_within_def)
  qed (use q in \<open>auto simp: brings_def split: if_splits\<close>)
  moreover have "set (wd_cancelled wd') \<subseteq> T"
    using s
  proof (cases rule: window_step.cases)
    case (request_step now intent lc cancelled answer)
    then show ?thesis
      using w request_drain_cases [OF request_step(4)] cancel_cancellable_within [OF w]
      by (auto simp: cancels_within_def)
  next
    case close_step
    then show ?thesis using cancel_cancellable_within [OF w] by simp
  next
    case (elsewhere_step token)
    then show ?thesis using w q by (auto simp: cancels_within_def brings_def)
  qed (use w in \<open>auto simp: cancels_within_def\<close>)
  ultimately show "cancels_within T wd'" by (simp add: cancels_within_def)
qed

text \<open>The intent a drain ends with is one that was asked for.\<close>

definition asks :: "'r intent \<Rightarrow> 'r window_event \<Rightarrow> bool" where
  "asks intent e \<longleftrightarrow> e = Requested intent Accepted \<or> e = Requested intent Drain_Busy"

lemma step_intent:
  assumes "window_step wd e wd'" and "pending_intent (wd_lifecycle wd') = Some intent"
  shows "pending_intent (wd_lifecycle wd) = Some intent \<or> asks intent e"
  using assms(1)
proof (cases rule: window_step.cases)
  case (request_step now asked lc cancelled answer)
  then show ?thesis
    using assms(2) request_drain_cases [OF request_step(4)]
    by (cases answer) (auto simp: asks_def split: if_splits)
next
  case (poll_step now now' load1 load2 load3 lc outcome)
  then show ?thesis
    using assms(2) poll_lifecycle_cases [OF poll_step(5)] by (cases outcome) auto
qed (use assms(2) in \<open>auto simp: register_def attach_def pending_intent_def Let_def\<close>)

definition intends :: "'r intent set \<Rightarrow> 'r window \<Rightarrow> bool" where
  "intends I wd \<longleftrightarrow> set_option (pending_intent (wd_lifecycle wd)) \<subseteq> I"

interpretation intending: keeping window_start window_step tokens_read_only
    "intends I" "\<lambda>e. {i. asks i e} \<subseteq> I" for I
  by unfold_locales (force simp: intends_def dest: step_intent)

text \<open>What ends a drain.\<close>

fun ends_drain :: "'r window_event \<Rightarrow> bool" where
  "ends_drain (Polled _ (Finished_Drain _)) = True"
| "ends_drain (Polled _ (Gave_Up _ _)) = True"
| "ends_drain _ = False"

lemma step_quit:
  assumes "window_step wd e wd'" and "pending_intent (wd_lifecycle wd) = Some Quit" and "\<not> ends_drain e"
  shows "pending_intent (wd_lifecycle wd') = Some Quit"
  using assms(1)
proof (cases rule: window_step.cases)
  case (request_step now asked lc cancelled answer)
  then show ?thesis
    using assms(2) request_drain_cases [OF request_step(4)] by (cases answer) auto
next
  case (poll_step now now' load1 load2 load3 lc outcome)
  then show ?thesis
    using assms(2,3) poll_lifecycle_cases [OF poll_step(5)] by (cases outcome) auto
qed (use assms(2) in \<open>auto simp: register_def attach_def pending_intent_def Let_def\<close>)

interpretation quitting: keeping window_start window_step tokens_read_only
    "\<lambda>wd. pending_intent (wd_lifecycle wd) = Some Quit" "\<lambda>e. \<not> ends_drain e"
  by unfold_locales (rule step_quit)

section \<open>The properties\<close>


text \<open>
  C23.  Once a quit is under way nothing else is: whatever is asked for meanwhile, the drain stays a
  quit until it ends, and when it ends well the window quits.
\<close>

theorem quit_is_not_forgotten:
  assumes "window_start wd0" and "runs window_step wd0 es wd"
    and "window_step wd (Requested Quit answer) wd1" and "answer \<noteq> RefusedApplying"
    and "runs window_step wd1 fs wd2" and "list_all (\<lambda>e. \<not> ends_drain e) fs"
    and "window_step wd2 (Polled load (Finished_Drain intent)) wd3"
  shows "intent = Quit"
proof -
  note inv = tokens.inv_reachable [OF assms(1,2)]
  from assms(3) obtain now where r: "request_drain Quit now (wd_lifecycle wd, wd_cancelled wd) =
      ((wd_lifecycle wd1, wd_cancelled wd1), answer)"
    by (cases rule: window_step.cases) auto
  have "pending_intent (wd_lifecycle wd1) = Some Quit"
    using request_drain_cases [OF r] assms(4) by (cases answer) auto
  from quitting.kept_runs [OF assms(5) tokens.inv_step [OF inv assms(3)] this assms(6)]
  have "pending_intent (wd_lifecycle wd2) = Some Quit" .
  moreover from assms(7) obtain now now' load1 load2 where "poll_lifecycle now now' load1 load2 load
      (wd_lifecycle wd2) = (wd_lifecycle wd3, Finished_Drain intent)"
    by (cases rule: window_step.cases) auto
  from poll_lifecycle_cases [OF this, simplified]
  have "pending_intent (wd_lifecycle wd2) = Some intent" by blast
  ultimately show ?thesis by simp
qed

section \<open>An example\<close>

text \<open>A window with one read; a quit is asked for, and a request to close the workspace after it.\<close>

definition demo_read :: "bool \<Rightarrow> owned_job" where
  "demo_read finished = \<lparr>oj_id = 1, oj_kind = CancellableRead, oj_cancel = Some 3, oj_finished = finished,
     oj_task = None\<rparr>"

definition demo_window :: "owned_job list \<Rightarrow> 64 word \<Rightarrow> 64 word \<Rightarrow> unit phase \<Rightarrow> nat list \<Rightarrow> unit window" where
  "demo_window jobs generation next phase cancelled =
     \<lparr>wd_lifecycle = \<lparr>lc_generation = generation, lc_next_id = next, lc_jobs = jobs, lc_phase = phase\<rparr>,
      wd_cancelled = cancelled, wd_now = 0\<rparr>"

lemma demo_window_start: "window_start (demo_window [] 1 1 Phase_Idle [])"
  by (simp add: window_start_def demo_window_def lifecycle_new_def)

lemma demo_window_reads:
  "runs window_step (demo_window [] 1 1 Phase_Idle []) [Registered CancellableRead (Some 3)]
     (demo_window [demo_read False] 1 2 Phase_Idle [])"
proof (rule runs_one)
  have "register CancellableRead (Some 3) (wd_lifecycle (demo_window [] 1 1 Phase_Idle [])) =
      (wd_lifecycle (demo_window [demo_read False] 1 2 Phase_Idle []), 1)"
    by (simp add: register_def demo_window_def demo_read_def)
  from register_step [OF this] show "window_step (demo_window [] 1 1 Phase_Idle [])
      (Registered CancellableRead (Some 3)) (demo_window [demo_read False] 1 2 Phase_Idle [])"
    by (simp add: demo_window_def)
qed

lemma demo_window_quit:
  "window_step (demo_window [demo_read False] 1 2 Phase_Idle []) (Requested Quit Accepted)
     (demo_window [demo_read False] 2 2 (Draining Quit 0) [3])"
proof -
  let ?wd = "demo_window [demo_read False] 1 2 Phase_Idle []"
  have "request_drain Quit 0 (wd_lifecycle ?wd, wd_cancelled ?wd) =
      ((wd_lifecycle (demo_window [demo_read False] 2 2 (Draining Quit 0) [3]), [3]), Accepted)"
    by (simp add: request_drain_def demo_window_def demo_read_def has_mutating_def cancel_cancellable_def)
  from request_step [OF _ this] show ?thesis by (simp add: demo_window_def)
qed

lemma demo_window_close:
  "window_step (demo_window [demo_read False] 2 2 (Draining Quit 0) [3])
     (Requested CloseWorkspace Drain_Busy) (demo_window [demo_read False] 2 2 (Draining Quit 0) [3])"
proof -
  let ?wd = "demo_window [demo_read False] 2 2 (Draining Quit 0) [3]"
  have "request_drain CloseWorkspace 0 (wd_lifecycle ?wd, wd_cancelled ?wd) =
      ((wd_lifecycle ?wd, [3]), Drain_Busy)"
    by (simp add: request_drain_def demo_window_def demo_read_def has_mutating_def)
  from request_step [OF _ this] show ?thesis by (simp add: demo_window_def)
qed

lemma demo_window_finish:
  "window_step (demo_window [demo_read False] 2 2 (Draining Quit 0) [3]) Job_Finished
     (demo_window [demo_read True] 2 2 (Draining Quit 0) [3])"
  using finish_step [of "demo_window [demo_read False] 2 2 (Draining Quit 0) [3]" "[]" "demo_read False" "[]"]
  by (simp add: demo_window_def demo_read_def)

lemma demo_window_poll:
  "window_step (demo_window [demo_read True] 2 2 (Draining Quit 0) [3])
     (Polled load_idle (Finished_Drain Quit)) (demo_window [] 2 2 Phase_Idle [3])"
proof -
  have "poll_lifecycle 0 0 load_idle load_idle load_idle
      (wd_lifecycle (demo_window [demo_read True] 2 2 (Draining Quit 0) [3])) =
      (wd_lifecycle (demo_window [] 2 2 Phase_Idle [3]), Finished_Drain Quit)"
    by (simp add: poll_lifecycle_def demo_window_def poll_at_def reap_def demo_read_def is_clear_def
        drain_load_def load_idle_def pending_intent_def finish_intent_def live_jobs_def)
  from poll_step [OF _ _ this] show ?thesis by (simp add: demo_window_def)
qed

lemma demo_window_drains:
  "runs window_step (demo_window [] 1 1 Phase_Idle [])
     [Registered CancellableRead (Some 3), Requested Quit Accepted, Job_Finished]
     (demo_window [demo_read True] 2 2 (Draining Quit 0) [3])"
proof -
  have "runs window_step (demo_window [demo_read False] 1 2 Phase_Idle []) [Requested Quit Accepted, Job_Finished]
      (demo_window [demo_read True] 2 2 (Draining Quit 0) [3])"
    by (rule runs_more [where step = window_step, OF demo_window_quit]
        runs_one [where step = window_step, OF demo_window_finish])+
  from runs_append [OF demo_window_reads this] show ?thesis by simp
qed


theorem quit_is_not_forgotten_witness:
  "\<exists>intent wd. window_step (demo_window [demo_read True] 2 2 (Draining Quit 0) [3])
     (Polled load_idle (Finished_Drain intent)) wd \<and> intent = Quit"
proof -
  obtain intent where p: "window_step (demo_window [demo_read True] 2 2 (Draining Quit 0) [3])
      (Polled load_idle (Finished_Drain intent)) (demo_window [] 2 2 Phase_Idle [3])"
    using demo_window_poll by blast
  have "runs window_step (demo_window [demo_read False] 2 2 (Draining Quit 0) [3])
      [Requested CloseWorkspace Drain_Busy, Job_Finished] (demo_window [demo_read True] 2 2 (Draining Quit 0) [3])"
    by (rule runs_more [where step = window_step, OF demo_window_close]
        runs_one [where step = window_step, OF demo_window_finish])+
  from quit_is_not_forgotten [OF demo_window_start demo_window_reads demo_window_quit _ this _ p]
  have "intent = Quit" by simp
  with p show ?thesis by blast
qed

end
