(* ===== verification/Gitsrc_Correct.thy ===== *)
theory Gitsrc_Correct
  imports Gitsrc
begin

text \<open>
  What Git prints of a raw diff is read back record by record; the union of several listings keeps
  the first record of each path and collects where a deleted file may still be read.
\<close>

section \<open>Reading raw records\<close>

text \<open>A record as Git documents its \<open>-z\<close> output, with the similarity score of a rename.\<close>

definition raw_record :: "string \<Rightarrow> raw_entry \<Rightarrow> string" where
  "raw_record score e =
     '':'' @ join [space]
       [re_old_mode e, re_new_mode e, re_old_oid e, re_new_oid e, re_status e # score] @ [NUL] @
     (case re_old_path e of None \<Rightarrow> [] | Some p \<Rightarrow> p @ [NUL]) @ re_path e @ [NUL]"

definition plain_field :: "string \<Rightarrow> bool" where
  "plain_field f \<longleftrightarrow> (\<forall>c\<in>set f. bval c < 128 \<and> c \<noteq> space \<and> c \<noteq> NUL)"

definition printable_entry :: "string \<Rightarrow> raw_entry \<Rightarrow> bool" where
  "printable_entry score e \<longleftrightarrow>
     list_all plain_field [re_old_mode e, re_new_mode e, re_old_oid e, re_new_oid e, re_status e # score] \<and>
     NUL \<notin> set (re_path e) \<and>
     (case re_old_path e of None \<Rightarrow> re_status e \<noteq> CHR ''R'' \<and> re_status e \<noteq> CHR ''C''
      | Some p \<Rightarrow> (re_status e = CHR ''R'' \<or> re_status e = CHR ''C'') \<and> NUL \<notin> set p)"

lemma plain_fieldD: "plain_field f \<Longrightarrow> c \<in> set f \<Longrightarrow> bval c < 128 \<and> c \<noteq> space \<and> c \<noteq> NUL"
  by (simp add: plain_field_def)

lemma set_join_fields:
  assumes "\<And>f. f \<in> set fs \<Longrightarrow> plain_field f" and "c \<in> set (join [space] fs)"
  shows "bval c < 128 \<and> c \<noteq> NUL"
proof -
  have "c \<in> (\<Union>f\<in>set fs. set f) \<union> {space}" using set_join [of "[space]" fs] assms(2) by auto
  then show ?thesis using assms(1) plain_fieldD
    by (auto simp: space_def NUL_def bval_def)
qed

definition header_fields :: "string \<Rightarrow> raw_entry \<Rightarrow> string list" where
  "header_fields score e =
     [re_old_mode e, re_new_mode e, re_old_oid e, re_new_oid e, re_status e # score]"

lemma parse_header_print:
  assumes "printable_entry score e"
  shows "parse_header ('':'' @ join [space] (header_fields score e)) =
    Inr (re_old_mode e, re_new_mode e, re_old_oid e, re_new_oid e, re_status e)"
proof -
  have plain: "f \<in> set (header_fields score e) \<Longrightarrow> plain_field f" for f
    using assms by (auto simp: printable_entry_def header_fields_def)
  have valid: "valid_utf8 (join [space] (header_fields score e))"
    by (rule valid_utf8_ascii) (use plain set_join_fields in blast)
  have pieces: "split_char space (join [space] (header_fields score e)) = header_fields score e"
    by (rule split_char_join) (use plain in \<open>auto simp: header_fields_def plain_field_def\<close>)
  have "strip_prefix '':'' ('':'' @ join [space] (header_fields score e)) =
      Some (join [space] (header_fields score e))"
    by (rule strip_prefix_append)
  with valid pieces show ?thesis
    by (simp add: parse_header_def header_fields_def)
qed

lemma header_no_NUL:
  "printable_entry score e \<Longrightarrow> NUL \<notin> set ('':'' @ join [space] (header_fields score e))"
  using set_join_fields [of "header_fields score e" NUL]
  by (auto simp: printable_entry_def header_fields_def NUL_def)

lemma split_first: "c \<notin> set a \<Longrightarrow> split_char c (a @ c # b) = a # split_char c b"
  by (simp add: split_char_append split_char_free)

lemma raw_record_eq:
  "raw_record score e @ rest =
    ('':'' @ join [space] (header_fields score e)) @ NUL #
      (case re_old_path e of None \<Rightarrow> re_path e @ NUL # rest | Some p \<Rightarrow> p @ NUL # re_path e @ NUL # rest)"
  by (simp add: raw_record_def header_fields_def split: option.split)

lemma split_record:
  assumes "printable_entry score e"
  shows "split_char NUL (raw_record score e @ rest) =
    ('':'' @ join [space] (header_fields score e)) #
      (case re_old_path e of None \<Rightarrow> [] | Some p \<Rightarrow> [p]) @ re_path e # split_char NUL rest"
  unfolding raw_record_eq split_first [OF header_no_NUL [OF assms]]
  using assms by (auto simp: printable_entry_def split_first split: option.splits)

lemma next_entry_print:
  assumes "printable_entry score e"
  shows "next_entry (split_char NUL (raw_record score e @ rest)) = Inr (Some (e, split_char NUL rest))"
proof -
  have h: "next_header (('':'' @ join [space] (header_fields score e)) # fs) =
      Some ('':'' @ join [space] (header_fields score e), fs)" for fs
    by simp
  show ?thesis
    unfolding split_record [OF assms] next_entry_def h
    using assms parse_header_print [OF assms]
    by (auto simp: printable_entry_def is_two_paths_def split: option.splits)
qed

text \<open>
  C1.  Raw diff output is read back exactly: whatever paths the records hold (also paths that are
  not UTF-8), and whatever score follows the status letter, \<open>parse_raw_z\<close> gives the printed records
  in order.
\<close>

theorem parse_raw_z_reads_back:
  assumes "\<And>score e. (score, e) \<in> set records \<Longrightarrow> printable_entry score e"
  shows "parse_raw_z (concat (map (\<lambda>(score, e). raw_record score e) records)) = Inr (map snd records)"
  unfolding parse_raw_z_def raw_z_new_def
  using assms
proof (induction records)
  case Nil
  then show ?case by (simp add: parse_raw_fields.simps next_entry_def)
next
  case (Cons r records)
  obtain score e where r: "r = (score, e)" by (cases r)
  with Cons.prems have "printable_entry score e" by simp
  with Cons show ?case
    by (subst parse_raw_fields.simps) (simp add: r next_entry_print)
qed

definition demo_records :: "(string \<times> raw_entry) list" where
  "demo_records =
     [(''100'', \<lparr>re_status = CHR ''R'', re_old_mode = ''100644'', re_new_mode = ''100644'',
        re_old_oid = ''aa'', re_new_oid = ''aa'', re_old_path = Some ''old name'', re_path = ''new''\<rparr>),
      ([], \<lparr>re_status = CHR ''D'', re_old_mode = ''100644'', re_new_mode = ''000000'',
        re_old_oid = ''bb'', re_new_oid = ''00'', re_old_path = None, re_path = [CHR 0xFF]\<rparr>)]"

lemma parse_raw_z_reads_back_witness:
  "parse_raw_z (concat (map (\<lambda>(score, e). raw_record score e) demo_records)) = Inr (map snd demo_records)"
  by (rule parse_raw_z_reads_back)
    (auto simp: demo_records_def printable_entry_def plain_field_def is_two_paths_def bval_def
      space_def NUL_def)

section \<open>The union of several listings\<close>

definition deletes :: "string \<Rightarrow> raw_entry list \<Rightarrow> string list" where
  "deletes path entries =
     map re_old_oid (filter (\<lambda>e. re_path e = path \<and> re_status e = CHR ''D'') entries)"

text \<open>What the union of listings is: one change for the first record of each path.\<close>

definition union_change :: "raw_entry list \<Rightarrow> raw_entry \<Rightarrow> change" where
  "union_change entries e =
     (change_of e)\<lparr>ch_deleted_from :=
       (if re_status e = CHR ''D'' then deletes (re_path e) entries else [])\<rparr>"

definition listed :: "raw_entry \<Rightarrow> bool" where
  "listed e \<longleftrightarrow> valid_utf8 (re_path e)"

definition union_of :: "raw_entry list \<Rightarrow> change list" where
  "union_of entries = map (union_change entries) (distinct_by_from {} re_path (filter listed entries))"

definition index_ok :: "(string \<Rightarrow> nat option) \<Rightarrow> change list \<Rightarrow> bool" where
  "index_ok index changes \<longleftrightarrow>
     distinct (map ch_path changes) \<and>
     (\<forall>p i. index p = Some i \<longleftrightarrow> i < length changes \<and> ch_path (changes ! i) = p)"

lemma index_ok_unique: "index_ok index changes \<Longrightarrow> index_ok index' changes \<Longrightarrow> index = index'"
  unfolding index_ok_def by (metis (no_types, lifting) ext not_Some_eq)

lemma index_ok_change_index:
  assumes d: "distinct (map ch_path changes)"
  shows "index_ok (change_index changes) changes"
proof -
  let ?z = "zip (map ch_path changes) [0..<length changes]"
  have fst_z: "map fst ?z = map ch_path changes" by simp
  have "map_of (rev ?z) p = Some i \<longleftrightarrow> (p, i) \<in> set ?z" for p i
  proof -
    have "distinct (map fst (rev ?z))" using d fst_z by (metis distinct_rev rev_map)
    from map_of_eq_Some_iff [OF this] show ?thesis by simp
  qed
  moreover have "(p, i) \<in> set ?z \<longleftrightarrow> i < length changes \<and> ch_path (changes ! i) = p" for p i
    by (force simp: set_zip)
  ultimately show ?thesis using d by (simp add: index_ok_def change_index_def)
qed

lemma index_ok_None: "index_ok index changes \<Longrightarrow> index p = None \<longleftrightarrow> p \<notin> ch_path ` set changes"
  unfolding index_ok_def by (metis (no_types, lifting) image_iff in_set_conv_nth not_Some_eq)

lemma index_ok_snoc:
  assumes "index_ok index changes" and "index (ch_path c) = None"
  shows "index_ok (index(ch_path c \<mapsto> length changes)) (changes @ [c])"
  using assms index_ok_None [OF assms(1)]
  by (auto simp: index_ok_def nth_append less_Suc_eq) (metis image_eqI nth_mem)

lemma add_deletion_path [simp]: "ch_path (add_deletion c e) = ch_path c"
  by (simp add: add_deletion_def)

lemma index_ok_update:
  assumes "index_ok index changes" and "index p = Some i"
  shows "index_ok index (changes[i := add_deletion (changes ! i) e])"
proof -
  have "map ch_path (changes[i := add_deletion (changes ! i) e]) = map ch_path changes"
    by (metis add_deletion_path list_update_id map_update)
  then show ?thesis
    using assms unfolding index_ok_def by (metis length_list_update length_map nth_map)
qed

text \<open>What the rest of a listing adds to a change that is already there.\<close>

definition extend :: "raw_entry list \<Rightarrow> change \<Rightarrow> change" where
  "extend entries c =
     (if ch_status c = CHR ''D''
      then c\<lparr>ch_deleted_from := ch_deleted_from c @ deletes (ch_path c) entries\<rparr> else c)"

lemma deletes_Cons_other: "re_path e \<noteq> p \<Longrightarrow> deletes p (e # es) = deletes p es"
  by (simp add: deletes_def)

lemma extend_Nil: "extend [] c = c"
  by (simp add: extend_def deletes_def)

lemma extend_other: "re_path e \<noteq> ch_path c \<Longrightarrow> extend (e # es) c = extend es c"
  by (simp add: extend_def deletes_Cons_other)

lemma extend_add: "re_path e = ch_path c \<Longrightarrow> extend es (add_deletion c e) = extend (e # es) c"
  by (simp add: extend_def add_deletion_def deletes_def)

lemma union_change_other: "re_path e \<noteq> re_path e' \<Longrightarrow> union_change (e # es) e' = union_change es e'"
  by (simp add: union_change_def deletes_Cons_other)

lemma extend_first: "extend es (change_of e) = union_change (e # es) e"
  by (simp add: extend_def change_of_def union_change_def deletes_def)

lemma deletes_unlisted: "\<not> listed e \<Longrightarrow> valid_utf8 p \<Longrightarrow> deletes p (e # es) = deletes p es"
  by (rule deletes_Cons_other) (auto simp: listed_def)

definition changes_valid :: "change list \<Rightarrow> bool" where
  "changes_valid changes \<longleftrightarrow> (\<forall>c\<in>set changes. valid_utf8 (ch_path c))"

lemma union_entries_spec:
  assumes "index_ok index changes" and "changes_valid changes"
  shows "union_entries index changes es k =
    (map (extend es) changes @
       map (union_change es) (distinct_by_from (ch_path ` set changes) re_path (filter listed es)),
     k + length (filter (\<lambda>e. \<not> listed e) es))"
  using assms
proof (induction es arbitrary: index changes k)
  case Nil
  then show ?case by (simp add: extend_Nil)
next
  case (Cons e es)
  note ok = Cons.prems(1) and valid = Cons.prems(2)
  let ?paths = "ch_path ` set changes"
  show ?case
  proof (cases "listed e")
    case False
    have unlisted: "\<not> valid_utf8 (re_path e)" using False by (simp add: listed_def)
    have ext: "extend (e # es) c = extend es c" if "c \<in> set changes" for c
      using that valid False by (simp add: extend_def changes_valid_def deletes_unlisted)
    have new: "union_change (e # es) e' = union_change es e'" if "e' \<in> set (filter listed es)" for e'
      using that False by (simp add: union_change_def deletes_unlisted listed_def)
    have new': "map (union_change (e # es)) (distinct_by_from ?paths re_path (filter listed es)) =
        map (union_change es) (distinct_by_from ?paths re_path (filter listed es))"
      using new set_distinct_by_from [of ?paths re_path "filter listed es"] by (auto intro!: map_cong)
    show ?thesis
      using Cons.IH [OF ok valid] ext new' unlisted False
      by (simp cong: map_cong)
  next
    case True
    then have utf8: "valid_utf8 (re_path e)" by (simp add: listed_def)
    show ?thesis
    proof (cases "index (re_path e)")
      case None
      then have fresh: "re_path e \<notin> ?paths" using index_ok_None [OF ok] by blast
      have path: "ch_path (change_of e) = re_path e" by (simp add: change_of_def)
      have ok': "index_ok (index(re_path e \<mapsto> length changes)) (changes @ [change_of e])"
        using index_ok_snoc [OF ok, of "change_of e"] None by (simp add: path)
      have valid': "changes_valid (changes @ [change_of e])"
        using valid True by (simp add: changes_valid_def path listed_def)
      have ext: "extend (e # es) c = extend es c" if "c \<in> set changes" for c
        using that fresh by (metis extend_other image_eqI)
      have new: "map (union_change (e # es)) (distinct_by_from (insert (re_path e) ?paths) re_path (filter listed es)) =
          map (union_change es) (distinct_by_from (insert (re_path e) ?paths) re_path (filter listed es))"
        by (rule map_cong [OF refl], rule union_change_other)
          (auto dest!: distinct_by_from_fresh)
      show ?thesis
        using True None fresh Cons.IH [OF ok' valid'] ext new utf8
        by (simp add: path extend_first del: fun_upd_apply)
    next
      case (Some i)
      then have i: "i < length changes" "ch_path (changes ! i) = re_path e"
        using ok by (auto simp: index_ok_def)
      have seen: "re_path e \<in> ?paths" using i by (metis image_eqI nth_mem)
      let ?cs = "changes[i := add_deletion (changes ! i) e]"
      have ok': "index_ok index ?cs" by (rule index_ok_update [OF ok Some])
      have paths: "ch_path ` set ?cs = ?paths"
        by (metis add_deletion_path list.set_map list_update_id map_update)
      have valid': "changes_valid ?cs"
        using valid paths by (metis changes_valid_def image_iff)
      have ext: "map (extend es) ?cs = map (extend (e # es)) changes"
      proof (rule nth_equalityI)
        fix j assume j: "j < length (map (extend es) ?cs)"
        show "map (extend es) ?cs ! j = map (extend (e # es)) changes ! j"
        proof (cases "j = i")
          case True
          then show ?thesis using i by (simp add: extend_add)
        next
          case False
          have "distinct (map ch_path changes)" using ok by (simp add: index_ok_def)
          then have "ch_path (changes ! j) \<noteq> re_path e"
            using False j i by (metis length_list_update length_map nth_eq_iff_index_eq nth_map)
          then show ?thesis using False j i(1) by (simp add: extend_other)
        qed
      qed simp
      have new: "map (union_change (e # es)) (distinct_by_from ?paths re_path (filter listed es)) =
          map (union_change es) (distinct_by_from ?paths re_path (filter listed es))"
        using seen by (intro map_cong refl union_change_other) (metis distinct_by_from_fresh)
      show ?thesis
        using True Some seen Cons.IH [OF ok' valid'] ext new utf8
        by (simp add: paths)
    qed
  qed
qed

lemma union_entries_append:
  assumes "index_ok index changes"
  shows "union_entries index changes (xs @ ys) k =
    (let (changes', k') = union_entries index changes xs k in
     union_entries (change_index changes') changes' ys k')"
  using assms
proof (induction xs arbitrary: index changes k)
  case Nil
  then have "index = change_index changes"
    by (metis index_ok_change_index index_ok_def index_ok_unique)
  then show ?case by simp
next
  case (Cons e es)
  show ?case
  proof (cases "valid_utf8 (re_path e)")
    case True
    show ?thesis
    proof (cases "index (re_path e)")
      case None
      then have "index_ok (index(re_path e \<mapsto> length changes)) (changes @ [change_of e])"
        using index_ok_snoc [OF Cons.prems, of "change_of e"] by (simp add: change_of_def)
      with True None Cons.IH show ?thesis by (simp del: fun_upd_apply)
    next
      case (Some i)
      with True Cons.IH [OF index_ok_update [OF Cons.prems Some]] show ?thesis by simp
    qed
  qed (use Cons in simp)
qed

definition unlisted_count :: "raw_entry list \<Rightarrow> nat" where
  "unlisted_count entries = length (filter (\<lambda>e. \<not> listed e) entries)"

lemma union_into_start: "union_into ([], k) entries = (union_of entries, k + unlisted_count entries)"
proof -
  have "index_ok (change_index []) []" by (rule index_ok_change_index) simp
  from union_entries_spec [OF this] show ?thesis
    by (simp add: union_into_def union_of_def changes_valid_def unlisted_count_def)
qed

lemma union_into_append:
  "union_into (union_into ([], k) xs) ys = union_into ([], k) (xs @ ys)"
proof -
  have "index_ok (change_index []) []" by (rule index_ok_change_index) simp
  from union_entries_append [OF this, of xs ys k] show ?thesis
    by (simp add: union_into_def case_prod_beta Let_def)
qed

lemma union_of_distinct: "distinct (map ch_path (union_of entries))"
proof -
  have "map ch_path (union_of entries) = map re_path (distinct_by_from {} re_path (filter listed entries))"
    by (simp add: union_of_def union_change_def change_of_def)
  then show ?thesis by (simp add: distinct_by_from_distinct)
qed

text \<open>The listings of a commit, one for each parent.\<close>

definition parent_listing :: "git \<Rightarrow> string \<Rightarrow> string list \<Rightarrow> run_options \<Rightarrow> string \<Rightarrow> git_failure + raw_entry list" where
  "parent_listing g sha only opts parent =
     and_then (run_strict g (diff_tree_args parent sha @ only) opts) parse_raw_z"

lemma union_parents_spec:
  assumes "union_parents g sha only opts (union_into ([], 0) done_entries) parents = Inr r"
  shows "\<exists>listings. list_all2 (\<lambda>p es. parent_listing g sha only opts p = Inr es) parents listings \<and>
    r = union_into ([], 0) (done_entries @ concat listings)"
  using assms
proof (induction parents arbitrary: done_entries)
  case Nil
  then show ?case by simp
next
  case (Cons p ps)
  from Cons.prems obtain out es where run: "run_strict g (diff_tree_args p sha @ only) opts = Inr out"
      and parse: "parse_raw_z out = Inr es"
      and more_parents: "union_parents g sha only opts (union_into ([], 0) (done_entries @ es)) ps = Inr r"
    by (auto simp: union_into_append)
  have listing: "parent_listing g sha only opts p = Inr es"
    by (simp add: parent_listing_def run parse)
  from Cons.IH [OF more_parents] obtain listings where
    l: "list_all2 (\<lambda>p es. parent_listing g sha only opts p = Inr es) ps listings"
      "r = union_into ([], 0) ((done_entries @ es) @ concat listings)" by blast
  show ?case
    by (rule exI [of _ "es # listings"]) (use l listing in simp)
qed

text \<open>The trees a commit is compared with: its parents, or the empty tree of a root commit.\<close>

definition commit_bases :: "git \<Rightarrow> string \<Rightarrow> run_options \<Rightarrow> git_failure + string list" where
  "commit_bases g sha opts =
     (case parents_with g sha opts of
        Inl e \<Rightarrow> Inl e
      | Inr (p # ps) \<Rightarrow> Inr (p # ps)
      | Inr [] \<Rightarrow>
          (case is_shallow_with g opts of
             Inl e \<Rightarrow> Inl e
           | Inr True \<Rightarrow> Inl (Git_Shallow sha)
           | Inr False \<Rightarrow> map_sum id (\<lambda>tree. [tree]) (empty_tree_with g opts)))"

text \<open>
  C35.  The changes of a commit are the union of its diffs against all its parents, taken in order:
  one change for each path, from the first record of the path, without the records whose path is
  not UTF-8, which are counted; a deleted file may be read from every parent that lost it, in
  parent order.  A parentless commit is compared with the empty tree, unless the clone is shallow.
\<close>

theorem commit_changes_union:
  assumes "commit_changes g revision only opts = Inr (changes, skipped)"
  shows "\<exists>sha bases listings.
    resolve_commit_with g revision opts = Inr sha \<and> commit_bases g sha opts = Inr bases \<and>
    list_all2 (\<lambda>base entries. parent_listing g sha only opts base = Inr entries) bases listings \<and>
    changes = union_of (concat listings) \<and> skipped = unlisted_count (concat listings) \<and>
    distinct (map ch_path changes)"
proof -
  from assms obtain sha parents bases where sha: "resolve_commit_with g revision opts = Inr sha"
      and parents: "parents_with g sha opts = Inr parents"
      and bases: "(if parents \<noteq> [] then Inr parents
        else and_then (is_shallow_with g opts) (\<lambda>shallow.
          if shallow then Inl (Git_Shallow sha)
          else and_then (empty_tree_with g opts) (\<lambda>tree. Inr [tree]))) = Inr bases"
      and union: "union_parents g sha only opts ([], 0) bases = Inr (changes, skipped)"
    unfolding commit_changes_def by auto
  have b: "commit_bases g sha opts = Inr bases"
    using parents bases
    by (cases parents) (auto simp: commit_bases_def split: if_splits)
  have "union_into ([], 0) [] = ([], 0)" by (simp add: union_into_def)
  with union have "union_parents g sha only opts (union_into ([], 0) []) bases = Inr (changes, skipped)" by simp
  from union_parents_spec [OF this] obtain listings where
      l: "list_all2 (\<lambda>p es. parent_listing g sha only opts p = Inr es) bases listings"
      and r: "(changes, skipped) = union_into ([], 0) (concat listings)" by auto
  from r have "changes = union_of (concat listings)" "skipped = unlisted_count (concat listings)"
    by (simp_all add: union_into_start)
  with sha b l union_of_distinct show ?thesis by blast
qed

definition demo_oid :: "char \<Rightarrow> string" where "demo_oid c = replicate 40 c"

definition demo_git :: git where
  "demo_git =
     \<lparr>git_root = ''/r'', git_boundary = None,
      git_run = (\<lambda>_ args. Inr \<lparr>out_stdout =
        (if ''rev-list'' \<in> set args then join '' '' [demo_oid (CHR ''c''), demo_oid (CHR ''a''), demo_oid (CHR ''b'')]
         else if ''diff-tree'' \<in> set args then
           raw_record [] \<lparr>re_status = CHR ''D'', re_old_mode = ''100644'', re_new_mode = ''000000'',
             re_old_oid = (if demo_oid (CHR ''a'') \<in> set args then ''1a'' else ''1b''),
             re_new_oid = ''00'', re_old_path = None, re_path = ''f''\<rparr>
         else demo_oid (CHR ''c'')), out_truncated = False\<rparr>),
      git_run_diff = (\<lambda>_ _. Inl Git_Not_Found), git_cat = Inl Spawn_Error, git_cat_close = (\<lambda>_. None)\<rparr>"

definition demo_options :: run_options where
  "demo_options = \<lparr>ro_max_stdout = 1000, ro_truncate = False\<rparr>"

lemma demo_commit_changes:
  "commit_changes demo_git ''HEAD'' [] demo_options =
    Inr ([\<lparr>ch_status = CHR ''D'', ch_path = ''f'', ch_new_oid = ''00'', ch_deleted_from = [''1a'', ''1b''],
      ch_gitlink = False\<rparr>], 0)"
  by code_simp

lemma commit_changes_union_witness:
  "\<exists>sha bases listings.
    resolve_commit_with demo_git ''HEAD'' demo_options = Inr sha \<and>
    commit_bases demo_git sha demo_options = Inr bases \<and>
    list_all2 (\<lambda>base entries. parent_listing demo_git sha [] demo_options base = Inr entries) bases listings \<and>
    [\<lparr>ch_status = CHR ''D'', ch_path = ''f'', ch_new_oid = ''00'', ch_deleted_from = [''1a'', ''1b''],
      ch_gitlink = False\<rparr>] = union_of (concat listings) \<and> 0 = unlisted_count (concat listings) \<and>
    distinct (map ch_path [\<lparr>ch_status = CHR ''D'', ch_path = ''f'', ch_new_oid = ''00'',
      ch_deleted_from = [''1a'', ''1b''], ch_gitlink = False\<rparr>])"
  by (rule commit_changes_union [OF demo_commit_changes])

end
