(* ===== verification/Commit_Export.thy ===== *)
theory Commit_Export
  imports Gitsrc Settings Stats
begin

text \<open>
  Commit mode, the copying side (\<open>crates/core/src/commits.rs\<close>): selecting a range of commits, reading
  them within a limit on the finished document, and the document itself.  What \<open>serde_json\<close> writes
  for a value is the parameter \<open>pieces\<close>: the texts of its calls of \<open>write\<close>, in order.
\<close>

section \<open>Data\<close>

datatype file_change = File_Added | File_Modified | File_Deleted | File_Renamed

datatype not_copied_reason =
    Reason_Binary | Reason_NonUtf8 | Reason_NonUtf8Path | Reason_UnsupportedType | Reason_Unreadable

fun reason_of_not_text :: "not_text \<Rightarrow> not_copied_reason" where
  "reason_of_not_text Binary = Reason_Binary"
| "reason_of_not_text NotUtf8 = Reason_NonUtf8"

record commit_file =
  cf_path :: string
  cf_old_path :: "string option"
  cf_change :: file_change
  cf_content :: "string option"
  cf_not_copied :: "not_copied_reason option"

record commit_record =
  cr_message :: string
  cr_author_name :: string
  cr_author_email :: string
  cr_author_date :: string
  cr_files :: "commit_file list"

record commits_payload =
  cp_commits :: "commit_record list"

record commit_export =
  ce_payload :: commits_payload
  ce_text :: string

datatype commit_error =
    Commit_Git git_failure
  | Commit_Empty
  | Not_Enough_Commits nat nat
  | Discontinuous string string string "string option"
  | Not_Commit_Payload
  | Invalid_Payload string
  | Outside_Scope string string
  | Payload_Limit nat nat

section \<open>JSON\<close>

text \<open>The values \<open>Serialize\<close> is derived to give.\<close>

definition json_option :: "('a \<Rightarrow> json) \<Rightarrow> 'a option \<Rightarrow> json" where
  "json_option f v = (case v of None \<Rightarrow> JNull | Some x \<Rightarrow> f x)"

fun file_change_name :: "file_change \<Rightarrow> string" where
  "file_change_name File_Added = ''ADDED''"
| "file_change_name File_Modified = ''MODIFIED''"
| "file_change_name File_Deleted = ''DELETED''"
| "file_change_name File_Renamed = ''RENAMED''"

fun reason_name :: "not_copied_reason \<Rightarrow> string" where
  "reason_name Reason_Binary = ''BINARY''"
| "reason_name Reason_NonUtf8 = ''NON_UTF8''"
| "reason_name Reason_NonUtf8Path = ''NON_UTF8_PATH''"
| "reason_name Reason_UnsupportedType = ''UNSUPPORTED_TYPE''"
| "reason_name Reason_Unreadable = ''UNREADABLE''"

definition json_of_file :: "commit_file \<Rightarrow> json" where
  "json_of_file f = JObject
     [(''path'', JString (cf_path f)),
      (''oldPath'', json_option JString (cf_old_path f)),
      (''change'', JString (file_change_name (cf_change f))),
      (''content'', json_option JString (cf_content f)),
      (''notCopied'', json_option (\<lambda>r. JString (reason_name r)) (cf_not_copied f))]"

definition json_of_record :: "commit_record \<Rightarrow> json" where
  "json_of_record c = JObject
     [(''message'', JString (cr_message c)),
      (''authorName'', JString (cr_author_name c)),
      (''authorEmail'', JString (cr_author_email c)),
      (''authorDate'', JString (cr_author_date c)),
      (''files'', JArray (map json_of_file (cr_files c)))]"

definition json_of_payload :: "commits_payload \<Rightarrow> json" where
  "json_of_payload p = JObject [(''commits'', JArray (map json_of_record (cp_commits p)))]"

section \<open>Writing and measuring\<close>

text \<open>
  \<open>ByteCounter\<close>: each call of \<open>write\<close> looks at the token, then counts.  A token that was set stays
  set, so the look that explains a failed write sees it too.
\<close>

definition count_piece :: "string \<Rightarrow> nat \<Rightarrow> string \<Rightarrow> (commit_error, nat) run" where
  "count_piece label count piece =
     bind_run (poll (Commit_Git (Git_Cancelled label))) (\<lambda>_. done_with (sat_add count (length piece)))"

definition measure_json ::
  "(json \<Rightarrow> string list) \<Rightarrow> string \<Rightarrow> json \<Rightarrow> (commit_error, nat) run" where
  "measure_json pieces label value = fold_run (count_piece label) 0 (pieces value)"

definition measure_meta ::
  "(json \<Rightarrow> string list) \<Rightarrow> commit_record \<Rightarrow> (commit_error, nat) run" where
  "measure_meta pieces meta = measure_json pieces ''meta serialize'' (json_of_record meta)"

definition measure_file ::
  "(json \<Rightarrow> string list) \<Rightarrow> commit_file \<Rightarrow> (commit_error, nat) run" where
  "measure_file pieces file = measure_json pieces ''file serialize'' (json_of_file file)"

text \<open>
  \<open>CancellableBoundedWriter\<close>.  A write over the limit fails as a payload limit, unless the token is
  set by the time the failure is explained.
\<close>

definition bounded_piece :: "nat \<Rightarrow> string \<Rightarrow> string \<Rightarrow> (commit_error, string) run" where
  "bounded_piece max_bytes buffer piece =
     bind_run (poll (Commit_Git (Git_Cancelled ''serialize''))) (\<lambda>_.
       if max_bytes < sat_add (length buffer) (length piece) then
         bind_run (poll (Commit_Git (Git_Cancelled ''serialize'')))
           (\<lambda>_. fails_with (Payload_Limit max_bytes (length buffer)))
       else done_with (buffer @ piece))"

definition to_clipboard_text_bounded ::
  "(json \<Rightarrow> string list) \<Rightarrow> commits_payload \<Rightarrow> nat \<Rightarrow> nat \<Rightarrow> (commit_error, string) run" where
  "to_clipboard_text_bounded pieces payload expected_len max_bytes =
     bind_run (poll (Commit_Git (Git_Cancelled ''serialize''))) (\<lambda>_.
       if max_bytes < expected_len then fails_with (Payload_Limit max_bytes expected_len)
       else
         bind_run (fold_run (bounded_piece max_bytes) (COMMIT_MARKER @ [nl])
             (pieces (json_of_payload payload))) (\<lambda>text.
         bind_run (poll (Commit_Git (Git_Cancelled ''serialize''))) (\<lambda>_. done_with text)))"

definition to_clipboard_text :: "(json \<Rightarrow> string list) \<Rightarrow> commits_payload \<Rightarrow> string" where
  "to_clipboard_text pieces payload = COMMIT_MARKER @ nl # concat (pieces (json_of_payload payload))"

definition is_commit_payload :: "string \<Rightarrow> bool" where
  "is_commit_payload t \<longleftrightarrow> detect_mode t = Commits"

text \<open>\<open>serde_json::from_str\<close> is a parameter.\<close>

definition parse_commit_payload ::
  "(string \<Rightarrow> string + commits_payload) \<Rightarrow> string \<Rightarrow> commit_error + commits_payload" where
  "parse_commit_payload from_str t =
     (if \<not> is_commit_payload t then Inl Not_Commit_Payload
      else
        (let json = (case split_once nl t of None \<Rightarrow> [] | Some (_, rest) \<Rightarrow> rest) in
         case from_str json of Inl e \<Rightarrow> Inl (Invalid_Payload e) | Inr p \<Rightarrow> Inr p))"

section \<open>Selecting commits\<close>

definition default_options :: run_options where
  "default_options = \<lparr>ro_max_stdout = 256 * 1024 * 1024, ro_truncate = False\<rparr>"

text \<open>\<open>str::lines\<close>: a carriage return before a newline goes too; an unfinished line stays as it is.\<close>

definition str_lines :: "string \<Rightarrow> string list" where
  "str_lines s =
     (let pieces = split_char nl s in
      map (\<lambda>l. if ends_with [cr] l then butlast l else l) (butlast pieces) @
        (if last pieces = [] then [] else [last pieces]))"

definition chain_line :: "string \<Rightarrow> (string \<times> string option) option" where
  "chain_line l =
     (let words = split_char space l in
      if hd words = [] then None
      else Some (hd words, if length words < 2 then None else Some (words ! 1)))"

definition contiguous_chain :: "git \<Rightarrow> string \<Rightarrow> commit_error + (string \<times> string option) list" where
  "contiguous_chain g rev_list_out =
     (let chain = List.map_filter chain_line (str_lines (from_utf8_lossy rev_list_out)) in
      if chain \<noteq> [] \<and> snd (last chain) = None then
        (case is_shallow_with g default_options of
           Inl e \<Rightarrow> Inl (Commit_Git e)
         | Inr True \<Rightarrow> Inl (Commit_Git (Git_Shallow (fst (last chain))))
         | Inr False \<Rightarrow> Inr chain)
      else Inr chain)"

definition git_result :: "git_failure + 'a \<Rightarrow> commit_error + 'a" where
  "git_result r = (case r of Inl e \<Rightarrow> Inl (Commit_Git e) | Inr x \<Rightarrow> Inr x)"

definition select_range :: "git \<Rightarrow> string \<Rightarrow> string \<Rightarrow> commit_error + string list" where
  "select_range g base tip =
     and_then (git_result (resolve_commit_with g base default_options)) (\<lambda>base_sha.
     and_then (git_result (resolve_commit_with g tip default_options)) (\<lambda>tip_sha.
     and_then (git_result (git_run g default_options
         [''rev-list'', ''--first-parent'', ''--parents'', base_sha @ ''..'' @ tip_sha])) (\<lambda>out.
     and_then (contiguous_chain g (out_stdout out)) (\<lambda>chain.
       if chain = [] then Inl Commit_Empty
       else if snd (last chain) \<noteq> Some base_sha then
         Inl (Discontinuous base_sha tip_sha (fst (last chain)) (snd (last chain)))
       else Inr (rev (map fst chain))))))"

definition select_last_from :: "git \<Rightarrow> string \<Rightarrow> nat \<Rightarrow> commit_error + string list" where
  "select_last_from g tip n =
     (if n = 0 then Inl Commit_Empty
      else
        and_then (git_result (resolve_commit_with g tip default_options)) (\<lambda>tip_sha.
        and_then (git_result (git_run g default_options
            [''rev-list'', ''--first-parent'', ''--parents'', ''-n'', show_nat n, tip_sha])) (\<lambda>out.
        and_then (contiguous_chain g (out_stdout out)) (\<lambda>chain.
          if length chain < n then Inl (Not_Enough_Commits n (length chain))
          else Inr (rev (map fst chain))))))"

definition select_last :: "git \<Rightarrow> nat \<Rightarrow> commit_error + string list" where
  "select_last g n = select_last_from g ''HEAD'' n"

section \<open>Reading one commit\<close>

definition refuse_if_cancelled :: "string \<Rightarrow> (commit_error, unit) run" where
  "refuse_if_cancelled args = poll (Commit_Git (Git_Cancelled args))"

definition is_special_mode :: "string \<Rightarrow> bool" where
  "is_special_mode mode \<longleftrightarrow> mode = ''120000'' \<or> mode = ''160000''"

definition meta_args :: "string \<Rightarrow> string list" where
  "meta_args sha =
     [''log'', ''-1'', ''-z'', ''--no-show-signature'', ''--encoding=UTF-8'',
      ''--format=%an%x00%ae%x00%aI%x00%B'', sha]"

text \<open>
  The message is read no further than the limit allows; what is then cut off is over the limit of
  the document, not of one command.
\<close>

definition read_commit_meta_stdout ::
  "git \<Rightarrow> string \<Rightarrow> run_options \<Rightarrow> nat option \<Rightarrow> nat \<Rightarrow> (commit_error, string) run" where
  "read_commit_meta_stdout g sha opts limit current_wire_len =
     (let label = args_label (meta_args sha);
          capped = (case limit of None \<Rightarrow> False | Some m \<Rightarrow> m - current_wire_len < ro_max_stdout opts);
          meta_opts = (if capped
            then opts\<lparr>ro_max_stdout := sat_add (the limit - current_wire_len) 1\<rparr> else opts) in
      bind_run (refuse_if_cancelled label) (\<lambda>_.
      lift_result
        (case git_run g meta_opts (meta_args sha) of
           Inl e \<Rightarrow>
             (case e of
                Git_Output_Limit _ _ \<Rightarrow>
                  if capped
                  then Inl (Payload_Limit (the limit) (sat_add current_wire_len (ro_max_stdout meta_opts)))
                  else Inl (Commit_Git e)
              | _ \<Rightarrow> Inl (Commit_Git e))
         | Inr out \<Rightarrow>
             if out_truncated out then
               if capped
               then Inl (Payload_Limit (the limit) (sat_add current_wire_len (length (out_stdout out))))
               else Inl (Commit_Git (Git_Output_Limit label (ro_max_stdout opts)))
             else Inr (out_stdout out))))"

definition parse_commit_meta :: "string \<Rightarrow> commit_error + string \<times> string \<times> string \<times> string" where
  "parse_commit_meta out =
     (let parts = split_char NUL out in
      if length parts < 3 then Inl (Commit_Git (Git_Malformed ''commit metadata''))
      else
        (let msg = join [NUL] (drop 3 parts);
             msg' = (if ends_with [NUL] msg then butlast msg else msg) in
         Inr (from_utf8_lossy (parts ! 0), from_utf8_lossy (parts ! 1), from_utf8_lossy (parts ! 2),
           from_utf8_lossy msg')))"

definition parent_or_empty :: "git \<Rightarrow> string \<Rightarrow> run_options \<Rightarrow> commit_error + string" where
  "parent_or_empty g sha opts =
     and_then (git_result (parents_with g sha opts)) (\<lambda>parents.
       case parents of
         parent # _ \<Rightarrow> Inr parent
       | [] \<Rightarrow>
           and_then (git_result (is_shallow_with g opts)) (\<lambda>shallow.
             if shallow then Inl (Commit_Git (Git_Shallow sha))
             else git_result (empty_tree_with g opts)))"

definition git_bytes :: "git \<Rightarrow> string list \<Rightarrow> run_options \<Rightarrow> (commit_error, string) run" where
  "git_bytes g args opts =
     bind_run (refuse_if_cancelled (args_label args)) (\<lambda>_.
     lift_result (git_result (run_strict g args opts)))"

section \<open>Admission\<close>

text \<open>
  The commits admitted so far, the last one still being filled, and the length of the document
  with them.
\<close>

record export_state =
  ex_commits :: "commit_record list"
  ex_wire_len :: nat

text \<open>The comma before an element that is not the first.\<close>

definition comma :: "'a list \<Rightarrow> nat" where
  "comma xs = (if xs = [] then 0 else 1)"

definition over :: "nat option \<Rightarrow> nat \<Rightarrow> bool" where
  "over limit n \<longleftrightarrow> (case limit of None \<Rightarrow> False | Some m \<Rightarrow> m < n)"

definition over_limit :: "nat option \<Rightarrow> nat \<Rightarrow> commit_error" where
  "over_limit limit n = Payload_Limit (the limit) n"

definition add_file :: "commit_file \<Rightarrow> commit_record list \<Rightarrow> commit_record list" where
  "add_file file commits =
     butlast commits @ [(last commits)\<lparr>cr_files := cr_files (last commits) @ [file]\<rparr>]"

definition push_commit_file ::
  "(json \<Rightarrow> string list) \<Rightarrow> nat option \<Rightarrow> commit_file \<Rightarrow> export_state \<Rightarrow> (commit_error, export_state) run" where
  "push_commit_file pieces limit file st =
     bind_run (refuse_if_cancelled ''commit file admission'') (\<lambda>_.
     bind_run (measure_file pieces file) (\<lambda>file_wire_len.
       (let new_wire_len = ex_wire_len st + comma (cr_files (last (ex_commits st))) + file_wire_len in
        if over limit new_wire_len then fails_with (over_limit limit new_wire_len)
        else done_with
          \<lparr>ex_commits = add_file file (ex_commits st), ex_wire_len = new_wire_len\<rparr>)))"

definition change_of_status :: "char \<Rightarrow> file_change" where
  "change_of_status status =
     (if status = CHR ''A'' \<or> status = CHR ''C'' then File_Added
      else if status = CHR ''D'' then File_Deleted
      else if status = CHR ''R'' then File_Renamed
      else File_Modified)"

definition blobs_deleted_not_text ::
  "git \<Rightarrow> blob_reader \<Rightarrow> string \<Rightarrow> (git_failure, not_text option \<times> blob_reader) run" where
  "blobs_deleted_not_text g reader spec =
     bind_run (blobs_read g reader spec 0) (\<lambda>(answer, reader'). done_with (not_text_of answer, reader'))"

text \<open>
  How much of a file's content may be kept, and the length of the document with the file empty:
  only known under a limit.
\<close>

definition retain_limit ::
  "(json \<Rightarrow> string list) \<Rightarrow> nat option \<Rightarrow> commit_file \<Rightarrow> export_state \<Rightarrow> (commit_error, nat \<times> nat) run" where
  "retain_limit pieces limit file st =
     (case limit of
        None \<Rightarrow> done_with (u64_bound - 1, 0)
      | Some m \<Rightarrow>
          bind_run (measure_file pieces (file\<lparr>cf_content := Some [], cf_not_copied := None\<rparr>)) (\<lambda>empty_len.
            (let len_empty = ex_wire_len st + comma (cr_files (last (ex_commits st))) + empty_len in
             if m < len_empty then fails_with (Payload_Limit m len_empty)
             else done_with (m - len_empty, len_empty))))"

text \<open>
  The file with what a read found.  Without a limit everything fits: the last case cannot happen
  there (the source has \<open>expect\<close>).
\<close>

definition with_blob :: "nat option \<Rightarrow> nat \<Rightarrow> commit_file \<Rightarrow> blob_read \<Rightarrow> commit_error + commit_file" where
  "with_blob limit len_empty file answer =
     (let without = (\<lambda>reason. Inr (file\<lparr>cf_content := None, cf_not_copied := Some reason\<rparr>)) in
      case answer of
        Missing \<Rightarrow> without Reason_Unreadable
      | Blob_Text t \<Rightarrow> Inr (file\<lparr>cf_content := Some t, cf_not_copied := None\<rparr>)
      | Blob_NotText r \<Rightarrow> without (reason_of_not_text r)
      | TooLarge _ (Some r) \<Rightarrow> without (reason_of_not_text r)
      | NotABlob _ \<Rightarrow> without Reason_UnsupportedType
      | TooLarge sz None \<Rightarrow> Inl (Payload_Limit (the limit) (sat_add len_empty sz)))"

definition admit_blob ::
  "(json \<Rightarrow> string list) \<Rightarrow> git \<Rightarrow> nat option \<Rightarrow> commit_file \<Rightarrow> string \<Rightarrow> export_state \<times> blob_reader \<Rightarrow>
   (commit_error, export_state \<times> blob_reader) run" where
  "admit_blob pieces g limit file oid s =
     bind_run (retain_limit pieces limit file (fst s)) (\<lambda>(max_retain, len_empty).
     bind_run (map_error Commit_Git (blobs_read g (snd s) oid max_retain)) (\<lambda>(answer, blobs).
     bind_run (lift_result (with_blob limit len_empty file answer)) (\<lambda>file'.
     bind_run (push_commit_file pieces limit file' (fst s)) (\<lambda>st'. done_with (st', blobs)))))"

definition entry_file :: "raw_entry \<Rightarrow> commit_file" where
  "entry_file e =
     \<lparr>cf_path = from_utf8_lossy (re_path e), cf_old_path = map_option from_utf8_lossy (re_old_path e),
      cf_change = change_of_status (re_status e), cf_content = None, cf_not_copied = None\<rparr>"

definition entry_path_ok :: "raw_entry \<Rightarrow> bool" where
  "entry_path_ok e \<longleftrightarrow>
     valid_utf8 (re_path e) \<and> (case re_old_path e of None \<Rightarrow> True | Some p \<Rightarrow> valid_utf8 p)"

definition entry_special :: "raw_entry \<Rightarrow> bool" where
  "entry_special e \<longleftrightarrow>
     (if change_of_status (re_status e) = File_Deleted then is_special_mode (re_old_mode e)
      else is_special_mode (re_new_mode e) \<or>
        (change_of_status (re_status e) = File_Renamed \<and> is_special_mode (re_old_mode e)))"

definition admit_entry ::
  "(json \<Rightarrow> string list) \<Rightarrow> git \<Rightarrow> nat option \<Rightarrow> export_state \<times> blob_reader \<Rightarrow> raw_entry \<Rightarrow>
   (commit_error, export_state \<times> blob_reader) run" where
  "admit_entry pieces g limit s e =
     (let file = entry_file e;
          refused = (\<lambda>reason.
            bind_run (push_commit_file pieces limit (file\<lparr>cf_not_copied := Some reason\<rparr>) (fst s))
              (\<lambda>st. done_with (st, snd s))) in
      if \<not> entry_path_ok e then refused Reason_NonUtf8Path
      else if entry_special e then refused Reason_UnsupportedType
      else if cf_change file = File_Deleted then
        bind_run (map_error Commit_Git (blobs_deleted_not_text g (snd s) (re_old_oid e))) (\<lambda>(r, blobs).
        bind_run (push_commit_file pieces limit
            (file\<lparr>cf_not_copied := map_option reason_of_not_text r\<rparr>) (fst s))
          (\<lambda>st. done_with (st, blobs)))
      else admit_blob pieces g limit file (re_new_oid e) s)"

text \<open>Records are admitted as they are parsed; the token is looked at before each.\<close>

function admit_entries ::
  "(json \<Rightarrow> string list) \<Rightarrow> git \<Rightarrow> nat option \<Rightarrow> string list \<Rightarrow> export_state \<times> blob_reader \<Rightarrow>
   (commit_error, export_state \<times> blob_reader) run" where
  "admit_entries pieces g limit fs s =
     (case next_entry fs of
        Inr None \<Rightarrow> done_with s
      | Inl err \<Rightarrow>
          bind_run (refuse_if_cancelled ''diff-tree scan'') (\<lambda>_. fails_with (Commit_Git err))
      | Inr (Some (e, rest)) \<Rightarrow>
          bind_run (refuse_if_cancelled ''diff-tree scan'') (\<lambda>_.
          bind_run (admit_entry pieces g limit s e) (\<lambda>s'. admit_entries pieces g limit rest s')))"
  by pat_completeness auto
termination
  by (relation "measure (\<lambda>(pieces, g, limit, fs, s). length fs)") (auto dest: next_entry_shorter)

declare admit_entries.simps [simp del]

definition export_one ::
  "(json \<Rightarrow> string list) \<Rightarrow> git \<Rightarrow> run_options \<Rightarrow> nat option \<Rightarrow> export_state \<Rightarrow> string \<Rightarrow>
   (commit_error, export_state) run" where
  "export_one pieces g opts limit st sha =
     bind_run (refuse_if_cancelled ''export commit'') (\<lambda>_.
     bind_run (read_commit_meta_stdout g sha opts limit (ex_wire_len st)) (\<lambda>out.
     bind_run (lift_result (parse_commit_meta out)) (\<lambda>(author_name, author_email, author_date, message).
       (let meta = \<lparr>cr_message = message, cr_author_name = author_name,
              cr_author_email = author_email, cr_author_date = author_date, cr_files = []\<rparr> in
        bind_run (measure_meta pieces meta) (\<lambda>meta_wire_len.
          (let projected_len = ex_wire_len st + comma (ex_commits st) + meta_wire_len in
           if over limit projected_len then fails_with (over_limit limit projected_len)
           else
             bind_run (refuse_if_cancelled ''export commit'') (\<lambda>_.
             bind_run (lift_result (parent_or_empty g sha opts)) (\<lambda>parent.
             bind_run (refuse_if_cancelled ''diff-tree'') (\<lambda>_.
             bind_run (git_bytes g (diff_tree_args parent sha) opts) (\<lambda>raw.
             bind_run (admit_entries pieces g limit (raw_z_new raw)
                 (\<lparr>ex_commits = ex_commits st @ [meta], ex_wire_len = projected_len\<rparr>, blobs_new)) (\<lambda>(st', blobs).
             bind_run (map_error Commit_Git (blobs_close g blobs)) (\<lambda>_.
             bind_run (refuse_if_cancelled ''export commit'') (\<lambda>_. done_with st')))))))))))))"

definition EMPTY_PAYLOAD_WIRE_LEN :: nat where
  "EMPTY_PAYLOAD_WIRE_LEN = length COMMIT_MARKER + 1 + 14"

definition export_commits_counted ::
  "(json \<Rightarrow> string list) \<Rightarrow> git \<Rightarrow> string list \<Rightarrow> run_options \<Rightarrow> nat option \<Rightarrow>
   (commit_error, commits_payload \<times> nat) run" where
  "export_commits_counted pieces g shas opts limit =
     bind_run (refuse_if_cancelled ''commits'') (\<lambda>_.
       if over limit EMPTY_PAYLOAD_WIRE_LEN then fails_with (over_limit limit EMPTY_PAYLOAD_WIRE_LEN)
       else
         bind_run (fold_run (\<lambda>st sha. bind_run (refuse_if_cancelled ''commits'')
             (\<lambda>_. export_one pieces g opts limit st sha))
             \<lparr>ex_commits = [], ex_wire_len = EMPTY_PAYLOAD_WIRE_LEN\<rparr> shas) (\<lambda>st.
         bind_run (refuse_if_cancelled ''commits'') (\<lambda>_.
         done_with (\<lparr>cp_commits = ex_commits st\<rparr>, ex_wire_len st))))"

definition copy_commits ::
  "(json \<Rightarrow> string list) \<Rightarrow> git \<Rightarrow> string list \<Rightarrow> (commit_error, commits_payload) run" where
  "copy_commits pieces g shas =
     bind_run (export_commits_counted pieces g shas default_options None) (\<lambda>r. done_with (fst r))"

definition copy_commits_with ::
  "(json \<Rightarrow> string list) \<Rightarrow> git \<Rightarrow> string list \<Rightarrow> run_options \<Rightarrow> nat \<Rightarrow> (commit_error, commit_export) run" where
  "copy_commits_with pieces g shas opts max_serialized_bytes =
     bind_run (export_commits_counted pieces g shas opts (Some max_serialized_bytes)) (\<lambda>(payload, total_wire_len).
     bind_run (to_clipboard_text_bounded pieces payload total_wire_len max_serialized_bytes) (\<lambda>text.
     done_with \<lparr>ce_payload = payload, ce_text = text\<rparr>))"

section \<open>Numbers about a copy\<close>

definition empty_record :: commit_record where
  "empty_record =
     \<lparr>cr_message = [], cr_author_name = [], cr_author_email = [], cr_author_date = [], cr_files = []\<rparr>"

definition min_commit_document_len :: "(json \<Rightarrow> string list) \<Rightarrow> nat \<Rightarrow> nat" where
  "min_commit_document_len pieces count =
     (if count = 0 then EMPTY_PAYLOAD_WIRE_LEN
      else EMPTY_PAYLOAD_WIRE_LEN + count * length (concat (pieces (json_of_record empty_record))) + (count - 1))"

record commit_copy_summary =
  sm_commit_count :: nat
  sm_file_count :: nat
  sm_chars :: nat
  sm_not_copied_count :: nat

definition copy_summary :: "commits_payload \<Rightarrow> string \<Rightarrow> commit_copy_summary" where
  "copy_summary payload t =
     (let all_files = concat (map cr_files (cp_commits payload)) in
      \<lparr>sm_commit_count = length (cp_commits payload), sm_file_count = length all_files,
       sm_chars = length (encode_utf16 t),
       sm_not_copied_count = length (filter (\<lambda>f. cf_not_copied f \<noteq> None) all_files)\<rparr>)"

record commit_copy_outcome =
  co_text :: string
  co_commit_count :: nat
  co_file_count :: nat
  co_chars :: nat
  co_not_copied :: "(nat \<times> string) list"

definition outcome :: "commit_export \<Rightarrow> commit_copy_outcome" where
  "outcome export =
     (let sum = copy_summary (ce_payload export) (ce_text export);
          commits = cp_commits (ce_payload export) in
      \<lparr>co_text = ce_text export, co_commit_count = sm_commit_count sum,
       co_file_count = sm_file_count sum, co_chars = sm_chars sum,
       co_not_copied = concat (map
         (\<lambda>(n, c). map (\<lambda>f. (n, cf_path f)) (filter (\<lambda>f. cf_not_copied f \<noteq> None) (cr_files c)))
         (enumerate 0 commits))\<rparr>)"

end
