(* ===== verification/Commit_Export_Correct.thy ===== *)
theory Commit_Export_Correct
  imports Commit_Export Blob_Correct
begin

text \<open>
  The running length of an export is the length of the finished document, so its limit is exact;
  and a limit changes nothing but whether the export succeeds.
\<close>

section \<open>Compact JSON\<close>

text \<open>
  The documented compact layout of \<open>serde_json\<close>; \<open>js\<close> and \<open>jn\<close> write a string and a number.
\<close>

fun json_text :: "(string \<Rightarrow> string) \<Rightarrow> (f64 \<Rightarrow> string) \<Rightarrow> json \<Rightarrow> string" where
  "json_text js jn JNull = ''null''"
| "json_text js jn (JBool b) = (if b then ''true'' else ''false'')"
| "json_text js jn (JNumber x) = jn x"
| "json_text js jn (JString s) = js s"
| "json_text js jn (JArray xs) = ''['' @ join '','' (map (json_text js jn) xs) @ '']''"
| "json_text js jn (JObject kvs) =
     ''{'' @ join '','' (map (\<lambda>(k, v). js k @ '':'' @ json_text js jn v) kvs) @ ''}''"

definition compact :: "(json \<Rightarrow> string list) \<Rightarrow> (string \<Rightarrow> string) \<Rightarrow> (f64 \<Rightarrow> string) \<Rightarrow> bool" where
  "compact pieces js jn \<longleftrightarrow>
     (\<forall>v. concat (pieces v) = json_text js jn v) \<and> length (js ''commits'') = 9"

lemma compactD: "compact pieces js jn \<Longrightarrow> concat (pieces v) = json_text js jn v"
  by (simp add: compact_def)

lemma length_join_snoc:
  "length (join '','' (xs @ [x])) = length (join '','' xs) + comma xs + length x"
proof (cases "xs = []")
  case False
  then show ?thesis by (simp add: join_append comma_def)
qed (simp add: comma_def)

lemma comma_map [simp]: "comma (map f xs) = comma xs"
  by (simp add: comma_def)

section \<open>The length of the document\<close>

definition wire_len :: "(json \<Rightarrow> string list) \<Rightarrow> commit_record list \<Rightarrow> nat" where
  "wire_len pieces commits = length (to_clipboard_text pieces \<lparr>cp_commits = commits\<rparr>)"

definition text_len :: "(json \<Rightarrow> string list) \<Rightarrow> json \<Rightarrow> nat" where
  "text_len pieces v = length (concat (pieces v))"

lemma wire_len_eq:
  assumes "compact pieces js jn"
  shows "wire_len pieces commits = EMPTY_PAYLOAD_WIRE_LEN +
    length (join '','' (map (json_text js jn) (map json_of_record commits)))"
proof -
  have "length (js ''commits'') = 9" using assms by (simp add: compact_def)
  then show ?thesis
    by (simp add: wire_len_def to_clipboard_text_def compactD [OF assms] json_of_payload_def
        EMPTY_PAYLOAD_WIRE_LEN_def)
qed

lemma wire_len_Nil: "compact pieces js jn \<Longrightarrow> wire_len pieces [] = EMPTY_PAYLOAD_WIRE_LEN"
  by (simp add: wire_len_eq)

lemma wire_len_snoc:
  assumes "compact pieces js jn"
  shows "wire_len pieces (commits @ [c]) =
    wire_len pieces commits + comma commits + text_len pieces (json_of_record c)"
  by (simp add: wire_len_eq [OF assms] length_join_snoc text_len_def compactD [OF assms])

lemma record_len_add_file:
  assumes "compact pieces js jn"
  shows "text_len pieces (json_of_record (c\<lparr>cr_files := cr_files c @ [f]\<rparr>)) =
    text_len pieces (json_of_record c) + comma (cr_files c) + text_len pieces (json_of_file f)"
  by (simp add: text_len_def compactD [OF assms] json_of_record_def length_join_snoc)

lemma wire_len_add_file:
  assumes "compact pieces js jn" and "commits \<noteq> []"
  shows "wire_len pieces (add_file f commits) =
    wire_len pieces commits + comma (cr_files (last commits)) + text_len pieces (json_of_file f)"
proof -
  have "wire_len pieces (butlast commits @ [last commits]) = wire_len pieces commits"
    using assms(2) by simp
  then show ?thesis
    using wire_len_snoc [OF assms(1), of "butlast commits" "last commits"]
    by (simp add: add_file_def wire_len_snoc [OF assms(1)] record_len_add_file [OF assms(1)])
qed

section \<open>Measuring\<close>

definition usize_max :: nat where "usize_max = 2 ^ 64 - 1"

lemma sat_add_eq: "sat_add a b = min (a + b) usize_max"
  by (simp add: sat_add_def usize_max_def)

lemma count_piece_Inr [run_simps]:
  "count_piece label c p polls = Inr (n, polls') \<longleftrightarrow>
    n = sat_add c (length p) \<and> polls' = tl polls \<and> (polls = [] \<or> \<not> hd polls)"
  by (auto simp: count_piece_def run_simps)

lemma fold_count_piece:
  "fold_run (count_piece label) c ps polls = Inr (n, polls') \<Longrightarrow> c \<le> usize_max \<Longrightarrow>
    n = min (c + length (concat ps)) usize_max"
proof (induction ps arbitrary: c polls)
  case Nil
  then show ?case by simp
next
  case (Cons p ps)
  from Cons.prems(1) obtain polls1 where
    f: "fold_run (count_piece label) (sat_add c (length p)) ps polls1 = Inr (n, polls')"
    by (auto simp: run_simps)
  have "sat_add c (length p) \<le> usize_max" by (simp add: sat_add_eq)
  from Cons.IH [OF f this] show ?case by (simp add: sat_add_eq)
qed

lemma measure_json_Inr:
  "measure_json pieces label v polls = Inr (n, polls') \<Longrightarrow> n = min (text_len pieces v) usize_max"
  unfolding measure_json_def text_len_def
  by (drule fold_count_piece) (simp_all add: usize_max_def)

lemma measure_file_Inr:
  "measure_file pieces f polls = Inr (n, polls') \<Longrightarrow> n = min (text_len pieces (json_of_file f)) usize_max"
  by (simp add: measure_file_def measure_json_Inr)

lemma measure_meta_Inr:
  "measure_meta pieces c polls = Inr (n, polls') \<Longrightarrow> n = min (text_len pieces (json_of_record c)) usize_max"
  by (simp add: measure_meta_def measure_json_Inr)

section \<open>The invariant of an export\<close>

definition counted :: "(json \<Rightarrow> string list) \<Rightarrow> nat \<Rightarrow> export_state \<Rightarrow> bool" where
  "counted pieces m st \<longleftrightarrow>
     ex_wire_len st = wire_len pieces (ex_commits st) \<and> ex_wire_len st \<le> m"

lemma add_file_not_Nil [simp]: "add_file f commits \<noteq> []"
  by (simp add: add_file_def)

lemma length_add_file: "commits \<noteq> [] \<Longrightarrow> length (add_file f commits) = length commits"
  by (simp add: add_file_def)

lemma push_commit_file_counted:
  assumes compact: "compact pieces js jn" and m: "m < usize_max"
    and st: "counted pieces m st" "ex_commits st \<noteq> []"
    and push: "push_commit_file pieces (Some m) f st polls = Inr (st', polls')"
  shows "counted pieces m st' \<and> ex_commits st' = add_file f (ex_commits st)"
proof -
  from push obtain n polls1 polls2 where n: "measure_file pieces f polls1 = Inr (n, polls2)"
      and fits: "\<not> over (Some m) (ex_wire_len st + comma (cr_files (last (ex_commits st))) + n)"
      and st': "st' = \<lparr>ex_commits = add_file f (ex_commits st),
        ex_wire_len = ex_wire_len st + comma (cr_files (last (ex_commits st))) + n\<rparr>"
    by (auto simp: push_commit_file_def run_simps Let_def split: if_splits)
  from fits have le: "ex_wire_len st + comma (cr_files (last (ex_commits st))) + n \<le> m"
    by (simp add: over_def)
  with m have "n < usize_max" by simp
  with measure_file_Inr [OF n] have "n = text_len pieces (json_of_file f)" by (simp add: min_def split: if_splits)
  with le st st' show ?thesis
    by (simp add: counted_def wire_len_add_file [OF compact])
qed

lemma push_commit_file_state:
  assumes "push_commit_file pieces limit f st polls = Inr (st', polls')"
  shows "ex_commits st' = add_file f (ex_commits st)"
  using assms by (auto simp: push_commit_file_def run_simps Let_def split: if_splits)

text \<open>
  Whatever an entry turns out to be, admitting it is pushing one file.  The file is the entry's,
  with content or with a reason why it has none.
\<close>

definition admitted :: "raw_entry \<Rightarrow> commit_file \<Rightarrow> bool" where
  "admitted e f \<longleftrightarrow>
     cf_path f = from_utf8_lossy (re_path e) \<and> cf_old_path f = map_option from_utf8_lossy (re_old_path e) \<and>
     cf_change f = change_of_status (re_status e) \<and>
     (cf_content f \<noteq> None \<longrightarrow> cf_not_copied f = None \<and> cf_change f \<noteq> File_Deleted \<and>
        entry_path_ok e \<and> \<not> entry_special e) \<and>
     (cf_content f = None \<longrightarrow> cf_not_copied f \<noteq> None \<or> cf_change f = File_Deleted) \<and>
     (\<not> entry_path_ok e \<longrightarrow> cf_not_copied f = Some Reason_NonUtf8Path) \<and>
     (entry_path_ok e \<and> entry_special e \<longrightarrow> cf_not_copied f = Some Reason_UnsupportedType)"

lemma with_blob_admitted:
  assumes "with_blob limit len_empty (entry_file e) answer = Inr f"
    and "entry_path_ok e" and "\<not> entry_special e" and "change_of_status (re_status e) \<noteq> File_Deleted"
  shows "admitted e f"
  using assms
  by (cases answer) (auto simp: with_blob_def Let_def entry_file_def admitted_def split: option.splits)

lemma admit_blob_pushes:
  assumes "admit_blob pieces g limit file oid s polls = Inr (s', polls')"
  shows "\<exists>f n answer ps ps'. push_commit_file pieces limit f (fst s) ps = Inr (fst s', ps') \<and>
    with_blob limit n file answer = Inr f"
proof -
  from assms obtain n f answer st' blobs ps ps' where
    "push_commit_file pieces limit f (fst s) ps = Inr (st', ps')" "s' = (st', blobs)"
    "with_blob limit n file answer = Inr f"
    unfolding admit_blob_def run_simps by (auto simp: run_simps split: prod.splits)
  then show ?thesis by auto
qed

lemma admit_entry_pushes:
  assumes "admit_entry pieces g limit s e polls = Inr (s', polls')"
  shows "\<exists>f ps ps'. push_commit_file pieces limit f (fst s) ps = Inr (fst s', ps') \<and> admitted e f"
proof -
  let ?file = "entry_file e"
  consider (path) "\<not> entry_path_ok e" | (special) "entry_path_ok e" "entry_special e"
    | (deleted) "entry_path_ok e" "\<not> entry_special e" "change_of_status (re_status e) = File_Deleted"
    | (blob) "entry_path_ok e" "\<not> entry_special e" "change_of_status (re_status e) \<noteq> File_Deleted"
    by blast
  then show ?thesis
  proof cases
    case path
    let ?f = "?file\<lparr>cf_not_copied := Some Reason_NonUtf8Path\<rparr>"
    from path assms obtain ps' where "push_commit_file pieces limit ?f (fst s) polls = Inr (fst s', ps')"
      by (auto simp: admit_entry_def Let_def run_simps)
    moreover from path have "admitted e ?f" by (simp add: admitted_def entry_file_def)
    ultimately show ?thesis by blast
  next
    case special
    let ?f = "?file\<lparr>cf_not_copied := Some Reason_UnsupportedType\<rparr>"
    from special assms obtain ps' where "push_commit_file pieces limit ?f (fst s) polls = Inr (fst s', ps')"
      by (auto simp: admit_entry_def Let_def run_simps)
    moreover from special have "admitted e ?f" by (simp add: admitted_def entry_file_def)
    ultimately show ?thesis by blast
  next
    case deleted
    then have change: "cf_change ?file = File_Deleted" by (simp add: entry_file_def)
    from deleted assms obtain r ps ps' where
      push: "push_commit_file pieces limit (?file\<lparr>cf_not_copied := r\<rparr>) (fst s) ps = Inr (fst s', ps')"
      by (auto simp: admit_entry_def Let_def run_simps change split: prod.splits)
    from deleted have "admitted e (?file\<lparr>cf_not_copied := r\<rparr>)" by (simp add: admitted_def entry_file_def)
    with push show ?thesis by blast
  next
    case blob
    then have change: "cf_change ?file \<noteq> File_Deleted" by (simp add: entry_file_def)
    with blob assms have "admit_blob pieces g limit ?file (re_new_oid e) s polls = Inr (s', polls')"
      by (simp add: admit_entry_def Let_def)
    from admit_blob_pushes [OF this] with_blob_admitted blob show ?thesis by blast
  qed
qed

section \<open>One commit\<close>

lemma fold_add_file_last:
  "commits \<noteq> [] \<Longrightarrow> fold add_file files commits =
    butlast commits @ [(last commits)\<lparr>cr_files := cr_files (last commits) @ files\<rparr>]"
proof (induction files arbitrary: commits)
  case Nil
  then show ?case by simp
next
  case (Cons f files)
  show ?case
    using Cons.IH [OF add_file_not_Nil [of f commits]] Cons.prems by (simp add: add_file_def)
qed

text \<open>All records are admitted, in order.\<close>

lemma admit_entries_pushes:
  assumes "admit_entries pieces g limit fs s polls = Inr (s', polls')"
  shows "\<exists>entries files. parse_raw_fields fs = Inr entries \<and> list_all2 admitted entries files \<and>
    ex_commits (fst s') = fold add_file files (ex_commits (fst s))"
  using assms
proof (induction pieces g limit fs s arbitrary: polls rule: admit_entries.induct)
  case (1 pieces g limit fs s)
  show ?case
  proof (cases "next_entry fs")
    case (Inl err)
    with 1(2) show ?thesis by (subst (asm) admit_entries.simps) (simp add: run_simps)
  next
    case (Inr r)
    show ?thesis
    proof (cases r)
      case None
      with Inr 1(2) have "s' = s" by (subst (asm) admit_entries.simps) simp
      then show ?thesis by (intro exI [of _ "[]"]) (simp add: parse_raw_fields.simps Inr None)
    next
      case (Some er)
      obtain e rest where er: "er = (e, rest)" by (cases er)
      from Inr Some er 1(2) obtain s1 ps1 ps2 where
          one: "admit_entry pieces g limit s e ps1 = Inr (s1, ps2)"
          and rest: "admit_entries pieces g limit rest s1 ps2 = Inr (s', polls')"
        by (subst (asm) admit_entries.simps) (auto simp: run_simps)
      from admit_entry_pushes [OF one] push_commit_file_state obtain f where
        f: "admitted e f" "ex_commits (fst s1) = add_file f (ex_commits (fst s))" by blast
      from 1(1) [OF Inr _ _ rest] Some er obtain entries files where
        es: "parse_raw_fields rest = Inr entries" "list_all2 admitted entries files"
          "ex_commits (fst s') = fold add_file files (ex_commits (fst s1))" by blast
      show ?thesis
        by (rule exI [of _ "e # entries"], rule exI [of _ "f # files"])
          (use f es in \<open>simp add: parse_raw_fields.simps [of fs] Inr Some er\<close>)
    qed
  qed
qed

lemma admit_entries_counted:
  assumes compact: "compact pieces js jn" and m: "m < usize_max"
    and "admit_entries pieces g (Some m) fs s polls = Inr (s', polls')"
    and "counted pieces m (fst s)" and "ex_commits (fst s) \<noteq> []"
  shows "counted pieces m (fst s')"
  using assms(1,3-)
proof (induction pieces g "Some m" fs s arbitrary: polls rule: admit_entries.induct)
  case (1 pieces g fs s)
  show ?case
  proof (cases "next_entry fs")
    case (Inl err)
    with 1(3) show ?thesis by (subst (asm) admit_entries.simps) (simp add: run_simps)
  next
    case (Inr r)
    show ?thesis
    proof (cases r)
      case None
      with Inr 1(3) have "s' = s" by (subst (asm) admit_entries.simps) simp
      then show ?thesis using 1(4) by simp
    next
      case (Some er)
      obtain e rest where er: "er = (e, rest)" by (cases er)
      from Inr Some er 1(3) obtain s1 ps1 ps2 where
          one: "admit_entry pieces g (Some m) s e ps1 = Inr (s1, ps2)"
          and rest: "admit_entries pieces g (Some m) rest s1 ps2 = Inr (s', polls')"
        by (subst (asm) admit_entries.simps) (auto simp: run_simps)
      from admit_entry_pushes [OF one] obtain f qs qs' where
        push: "push_commit_file pieces (Some m) f (fst s) qs = Inr (fst s1, qs')" by blast
      from push_commit_file_counted [OF 1(2) m 1(4,5) push]
      have "counted pieces m (fst s1)" "ex_commits (fst s1) \<noteq> []" by simp_all
      from 1(1) [OF Inr _ _ 1(2) rest this] Some er show ?thesis by blast
    qed
  qed
qed

text \<open>
  What a commit is exported as: what \<open>git log\<close> printed about it and one file for each record of its
  diff against its first parent.
\<close>

definition exported_as :: "git \<Rightarrow> run_options \<Rightarrow> string \<Rightarrow> commit_record \<Rightarrow> bool" where
  "exported_as g opts sha c \<longleftrightarrow>
     (\<exists>opts' out parent raw entries.
        git_run g opts' (meta_args sha) = Inr \<lparr>out_stdout = out, out_truncated = False\<rparr> \<and>
        parse_commit_meta out = Inr (cr_author_name c, cr_author_email c, cr_author_date c, cr_message c) \<and>
        parent_or_empty g sha opts = Inr parent \<and>
        run_strict g (diff_tree_args parent sha) opts = Inr raw \<and>
        parse_raw_z raw = Inr entries \<and> list_all2 admitted entries (cr_files c))"

lemma read_commit_meta_stdout_Inr:
  assumes "read_commit_meta_stdout g sha opts limit n polls = Inr (out, polls')"
  shows "\<exists>opts'. git_run g opts' (meta_args sha) = Inr \<lparr>out_stdout = out, out_truncated = False\<rparr>"
proof -
  from assms obtain opts' r where "git_run g opts' (meta_args sha) = Inr r" "out_stdout r = out" "\<not> out_truncated r"
    by (auto simp: read_commit_meta_stdout_def Let_def run_simps split: sum.splits git_failure.splits if_splits)
  then have "git_run g opts' (meta_args sha) = Inr \<lparr>out_stdout = out, out_truncated = False\<rparr>"
    by (cases r) simp
  then show ?thesis by blast
qed

lemma git_result_Inr [simp]: "git_result r = Inr x \<longleftrightarrow> r = Inr x"
  by (auto simp: git_result_def split: sum.splits)

text \<open>The steps of \<open>export_one\<close>, up to the looks at the token.\<close>

lemma export_one_steps:
  assumes "export_one pieces g opts limit st sha polls = Inr (st', polls')"
  shows "\<exists>out name email date message meta_len meta parent raw blobs ps1 ps2 ps3 ps4 ps5 ps6.
    read_commit_meta_stdout g sha opts limit (ex_wire_len st) ps1 = Inr (out, ps2) \<and>
    parse_commit_meta out = Inr (name, email, date, message) \<and>
    meta = \<lparr>cr_message = message, cr_author_name = name, cr_author_email = email,
      cr_author_date = date, cr_files = []\<rparr> \<and>
    measure_meta pieces meta ps3 = Inr (meta_len, ps4) \<and>
    \<not> over limit (ex_wire_len st + comma (ex_commits st) + meta_len) \<and>
    parent_or_empty g sha opts = Inr parent \<and>
    run_strict g (diff_tree_args parent sha) opts = Inr raw \<and>
    admit_entries pieces g limit (raw_z_new raw)
      (\<lparr>ex_commits = ex_commits st @ [meta],
        ex_wire_len = ex_wire_len st + comma (ex_commits st) + meta_len\<rparr>, blobs_new) ps5 =
      Inr ((st', blobs), ps6)"
  using assms
  by (auto simp: export_one_def run_simps Let_def git_bytes_def split: if_splits) blast

lemma export_one_exports:
  assumes "export_one pieces g opts limit st sha polls = Inr (st', polls')"
  shows "\<exists>c. ex_commits st' = ex_commits st @ [c] \<and> exported_as g opts sha c"
proof -
  from export_one_steps [OF assms] obtain out name email date message meta_len meta parent raw blobs
      ps1 ps2 ps5 ps6 where
    out: "read_commit_meta_stdout g sha opts limit (ex_wire_len st) ps1 = Inr (out, ps2)"
      "parse_commit_meta out = Inr (name, email, date, message)" and
    meta: "meta = \<lparr>cr_message = message, cr_author_name = name, cr_author_email = email,
      cr_author_date = date, cr_files = []\<rparr>" and
    parent: "parent_or_empty g sha opts = Inr parent" and
    raw: "run_strict g (diff_tree_args parent sha) opts = Inr raw" and
    admit: "admit_entries pieces g limit (raw_z_new raw)
      (\<lparr>ex_commits = ex_commits st @ [meta],
        ex_wire_len = ex_wire_len st + comma (ex_commits st) + meta_len\<rparr>, blobs_new) ps5 =
      Inr ((st', blobs), ps6)"
    by blast
  from admit_entries_pushes [OF admit] obtain entries files where
    es: "parse_raw_z raw = Inr entries" "list_all2 admitted entries files"
    and cs: "ex_commits st' = fold add_file files (ex_commits st @ [meta])"
    by (auto simp: parse_raw_z_def)
  from cs have c: "ex_commits st' = ex_commits st @ [meta\<lparr>cr_files := files\<rparr>]"
    by (simp add: fold_add_file_last meta)
  from read_commit_meta_stdout_Inr [OF out(1)] out(2) parent raw es
  have "exported_as g opts sha (meta\<lparr>cr_files := files\<rparr>)"
    unfolding exported_as_def meta by auto
  with c show ?thesis by blast
qed

lemma export_one_counted:
  assumes compact: "compact pieces js jn" and m: "m < usize_max"
    and st: "counted pieces m st"
    and export: "export_one pieces g opts (Some m) st sha polls = Inr (st', polls')"
  shows "counted pieces m st'"
proof -
  from export_one_steps [OF export] obtain meta_len meta raw blobs ps3 ps4 ps5 ps6 where
    len: "measure_meta pieces meta ps3 = Inr (meta_len, ps4)" and
    fits: "\<not> over (Some m) (ex_wire_len st + comma (ex_commits st) + meta_len)" and
    admit: "admit_entries pieces g (Some m) (raw_z_new raw)
      (\<lparr>ex_commits = ex_commits st @ [meta],
        ex_wire_len = ex_wire_len st + comma (ex_commits st) + meta_len\<rparr>, blobs_new) ps5 =
      Inr ((st', blobs), ps6)"
    by blast
  from fits have le: "ex_wire_len st + comma (ex_commits st) + meta_len \<le> m" by (simp add: over_def)
  with m have "meta_len < usize_max" by simp
  with measure_meta_Inr [OF len] have "meta_len = text_len pieces (json_of_record meta)"
    by (simp add: min_def split: if_splits)
  with le st have "counted pieces m \<lparr>ex_commits = ex_commits st @ [meta],
      ex_wire_len = ex_wire_len st + comma (ex_commits st) + meta_len\<rparr>"
    by (simp add: counted_def wire_len_snoc [OF compact])
  with admit_entries_counted [OF compact m admit] show ?thesis by simp
qed

section \<open>The whole export\<close>

abbreviation export_step ::
  "(json \<Rightarrow> string list) \<Rightarrow> git \<Rightarrow> run_options \<Rightarrow> nat option \<Rightarrow> export_state \<Rightarrow> string \<Rightarrow>
   (commit_error, export_state) run" where
  "export_step pieces g opts limit st sha \<equiv>
     bind_run (refuse_if_cancelled ''commits'') (\<lambda>_. export_one pieces g opts limit st sha)"

lemma fold_export:
  assumes "fold_run (export_step pieces g opts limit) st shas polls = Inr (st', polls')"
  shows "\<exists>cs. ex_commits st' = ex_commits st @ cs \<and> list_all2 (exported_as g opts) shas cs"
  using assms
proof (induction shas arbitrary: st polls)
  case Nil
  then show ?case by simp
next
  case (Cons sha shas)
  from Cons.prems obtain s1 ps ps1 where one: "export_one pieces g opts limit st sha ps = Inr (s1, ps1)"
      and rest: "fold_run (export_step pieces g opts limit) s1 shas ps1 = Inr (st', polls')"
    by (auto simp: run_simps)
  from export_one_exports [OF one] obtain c where
    c: "ex_commits s1 = ex_commits st @ [c]" "exported_as g opts sha c" by blast
  from Cons.IH [OF rest] obtain cs where "ex_commits st' = ex_commits s1 @ cs"
      "list_all2 (exported_as g opts) shas cs" by blast
  with c show ?case by (intro exI [of _ "c # cs"]) simp
qed

lemma fold_export_counted:
  assumes "compact pieces js jn" and "m < usize_max" and "counted pieces m st"
    and "fold_run (export_step pieces g opts (Some m)) st shas polls = Inr (st', polls')"
  shows "counted pieces m st'"
  by (rule fold_run_inv [where P = "counted pieces m", OF assms(4,3)])
    (auto simp: run_simps intro: export_one_counted [OF assms(1,2)])

lemma export_commits_Inr:
  "export_commits_counted pieces g shas opts limit polls = Inr ((payload, n), polls') \<Longrightarrow>
    \<exists>st ps ps'. \<not> over limit EMPTY_PAYLOAD_WIRE_LEN \<and>
      fold_run (export_step pieces g opts limit)
        \<lparr>ex_commits = [], ex_wire_len = EMPTY_PAYLOAD_WIRE_LEN\<rparr> shas ps = Inr (st, ps') \<and>
      payload = \<lparr>cp_commits = ex_commits st\<rparr> \<and> n = ex_wire_len st"
  by (auto simp: export_commits_counted_def run_simps split: if_splits)

lemma fold_bounded_piece:
  assumes "length (buffer @ concat ps) \<le> m" and "m < usize_max"
  shows "fold_run (bounded_piece m) buffer ps [] = Inr (buffer @ concat ps, [])"
  using assms
proof (induction ps arbitrary: buffer)
  case Nil
  then show ?case by (simp add: done_with_def)
next
  case (Cons p ps)
  then have "bounded_piece m buffer p [] = Inr (buffer @ p, [])"
    by (simp add: bounded_piece_def bind_run_def poll_def done_with_def sat_add_eq)
  with Cons show ?case by (simp add: bind_run_def)
qed


section \<open>A limit changes nothing else\<close>

text \<open>
  Git as the comparison needs it: a session on a repository answers the reads, and a larger cap on
  the output of a command does not change an answer that was complete.
\<close>

definition serves :: "repository \<Rightarrow> git \<Rightarrow> bool" where
  "serves repo g \<longleftrightarrow>
     repository_ok repo \<and> git_cat g = Inr (session_of repo) \<and> git_cat_close g = (\<lambda>_. None)"

definition steady :: "git \<Rightarrow> bool" where
  "steady g \<longleftrightarrow>
     (\<forall>opts n args out. git_run g opts args = Inr out \<and> \<not> out_truncated out \<and> ro_max_stdout opts \<le> n \<longrightarrow>
        git_run g (opts\<lparr>ro_max_stdout := n\<rparr>) args = Inr out)"

definition reader_on :: "repository \<Rightarrow> blob_reader \<Rightarrow> bool" where
  "reader_on repo reader \<longleftrightarrow> reader_ok (\<lambda>_. repo) reader \<and> \<not> br_require_blob reader"

definition after_read :: "git \<Rightarrow> repository \<Rightarrow> blob_reader \<Rightarrow> blob_reader" where
  "after_read g repo reader =
     reader\<lparr>br_open := Some (git_root g, session_of repo), br_cancelled := False\<rparr>"

lemma reader_on_new: "reader_on repo blobs_new"
  by (simp add: reader_on_def reader_ok_def blobs_new_def)

lemma reader_on_after_read: "reader_on repo reader \<Longrightarrow> reader_on repo (after_read g repo reader)"
  by (simp add: reader_on_def reader_ok_def after_read_def)

lemma blobs_read_serves:
  assumes "serves repo g" and "reader_on repo reader" and "valid_utf8 spec"
  shows "blobs_read g reader spec cap [] =
    Inr ((expected_blob repo spec cap False, after_read g repo reader), [])"
proof -
  let ?rd = "reader\<lparr>br_cancelled := False\<rparr>"
  have ok: "reader_ok (\<lambda>_. repo) ?rd" "\<not> br_cancelled ?rd" "br_require_blob ?rd = False"
    using assms(2) by (simp_all add: reader_on_def reader_ok_def)
  have git: "repository_ok repo" "git_cat g = Inr (session_of repo)" "git_cat_close g = (\<lambda>_. None)"
    using assms(1) by (simp_all add: serves_def)
  from read_internal_from_root [of "\<lambda>_. repo", OF git(1) ok(1,2) assms(3)]
  have "read_internal (\<lambda>_. git_cat g) (git_cat_close g) ?rd (git_root g) spec cap False =
      (Inr (expected_blob repo spec cap False), ?rd\<lparr>br_open := Some (git_root g, session_of repo)\<rparr>)"
    by (simp add: git)
  then show ?thesis
    using ok(3) by (simp add: blobs_read_def polled_read_def look_def reader_read_def session_run_def
        after_read_def Let_def)
qed

lemma poll_none [simp]: "poll e [] = Inr ((), [])"
  by (simp add: poll_def)

lemma refuse_none [simp]: "refuse_if_cancelled label [] = Inr ((), [])"
  by (simp add: refuse_if_cancelled_def)

lemma fold_count_none: "\<exists>n. fold_run (count_piece label) c ps [] = Inr (n, [])"
proof (induction ps arbitrary: c)
  case Nil
  then show ?case by (simp add: done_with_def)
next
  case (Cons p ps)
  then show ?case by (simp add: bind_run_def count_piece_def done_with_def)
qed

lemma measure_json_none:
  "measure_json pieces label v [] = Inr (min (text_len pieces v) usize_max, [])"
  using fold_count_none [of label 0 "pieces v"] measure_json_Inr [of pieces label v "[]"]
  by (auto simp: measure_json_def)

lemma push_unlimited:
  assumes "push_commit_file pieces limit f st [] = Inr (st', ps)"
  shows "ps = [] \<and> push_commit_file pieces None f st [] = Inr (st', [])"
  using assms
  by (auto simp: push_commit_file_def bind_run_def measure_file_def measure_json_none Let_def over_def
      done_with_def fails_with_def split: if_splits)

lemma with_blob_unlimited:
  assumes "repository_ok repo"
    and "with_blob (Some m) k file (expected_blob repo oid cap False) = Inr f"
  shows "with_blob None k' file (expected_blob repo oid (u64_bound - 1) False) = Inr f"
proof (cases "line_break oid \<or> repo oid = None")
  case True
  with assms(2) show ?thesis by (auto simp: expected_blob_def with_blob_def)
next
  case False
  then obtain n kind body where r: "repo oid = Some (n, kind, body)" by auto
  with assms(1) have "answer_ok n kind body" by (auto simp: repository_ok_def)
  then have small: "\<not> u64_bound - 1 < length body" by (auto simp: answer_ok_def)
  with False r assms(2) show ?thesis
    by (auto simp: expected_blob_def expected_read_def with_blob_def classify_error_def
        split: if_splits sum.splits)
qed

lemma admit_blob_unlimited:
  assumes g: "serves repo g" and rd: "reader_on repo (snd s)" and oid: "valid_utf8 oid"
    and admit: "admit_blob pieces g (Some m) file oid s [] = Inr (s', ps)"
  shows "ps = [] \<and> admit_blob pieces g None file oid s [] = Inr (s', []) \<and> reader_on repo (snd s')"
proof -
  obtain st blobs where s: "s = (st, blobs)" by (cases s)
  have repo: "repository_ok repo" using g by (simp add: serves_def)
  have read: "blobs_read g blobs oid cap [] =
      Inr ((expected_blob repo oid cap False, after_read g repo blobs), [])" for cap
    using blobs_read_serves [OF g _ oid] rd s by simp
  from admit obtain retain k p1 where
    r: "retain_limit pieces (Some m) file st [] = Inr ((retain, k), p1)"
    unfolding admit_blob_def bind_run_Inr s by auto
  have p1: "p1 = []"
    using r by (auto simp: retain_limit_def bind_run_def measure_file_def measure_json_none Let_def
        done_with_def fails_with_def split: if_splits)
  from admit obtain f st' p2 where
    f: "with_blob (Some m) k file (expected_blob repo oid retain False) = Inr f" and
    push: "push_commit_file pieces (Some m) f st [] = Inr (st', p2)" and
    s': "s' = (st', after_read g repo blobs)" "ps = p2"
    by (auto simp: admit_blob_def s bind_run_def r p1 map_error_def read lift_result_def done_with_def
        split: sum.splits)
  from push_unlimited [OF push] have push': "p2 = []" "push_commit_file pieces None f st [] = Inr (st', [])" by auto
  note unlimited = with_blob_unlimited [OF repo f, of 0]
  have "admit_blob pieces g None file oid s [] = Inr (s', [])"
    using unlimited by (simp add: admit_blob_def s s' bind_run_def retain_limit_def done_with_def map_error_def read
        lift_result_def push')
  with push' s' rd s reader_on_after_read show ?thesis by simp
qed

lemma admit_entry_unlimited:
  assumes g: "serves repo g" and rd: "reader_on repo (snd s)"
    and oids: "valid_utf8 (re_old_oid e)" "valid_utf8 (re_new_oid e)"
    and admit: "admit_entry pieces g (Some m) s e [] = Inr (s', ps)"
  shows "ps = [] \<and> admit_entry pieces g None s e [] = Inr (s', []) \<and> reader_on repo (snd s')"
proof -
  obtain st blobs where s: "s = (st, blobs)" by (cases s)
  have read: "blobs_read g blobs (re_old_oid e) cap [] =
      Inr ((expected_blob repo (re_old_oid e) cap False, after_read g repo blobs), [])" for cap
    using blobs_read_serves [OF g _ oids(1)] rd s by simp
  have pushes: "ps = [] \<and> bind_run (push_commit_file pieces None f st) (\<lambda>st. done_with (st, b)) [] = Inr (s', []) \<and>
      snd s' = b"
    if "bind_run (push_commit_file pieces (Some m) f st) (\<lambda>st. done_with (st, b)) [] = Inr (s', ps)" for f b
    using that push_unlimited [of pieces "Some m" f st]
    by (auto simp: bind_run_def done_with_def split: sum.splits)
  show ?thesis
  proof (cases "entry_path_ok e \<and> \<not> entry_special e")
    case False
    with admit show ?thesis
      using pushes [of _ blobs] rd
      by (auto simp: admit_entry_def Let_def s split: if_splits)
  next
    case ok: True
    show ?thesis
    proof (cases "cf_change (entry_file e) = File_Deleted")
      case True
      with ok admit show ?thesis
        using pushes [of _ "after_read g repo blobs"] rd reader_on_after_read
        by (simp add: admit_entry_def Let_def s blobs_deleted_not_text_def bind_run_def [of _ _ "[]"]
            map_error_def read done_with_def)
    next
      case False
      with ok admit admit_blob_unlimited [OF g rd oids(2)] show ?thesis
        by (simp add: admit_entry_def Let_def)
    qed
  qed
qed

lemma next_entry_valid:
  assumes "next_entry fs = Inr (Some (e, rest))"
  shows "valid_utf8 (re_old_oid e) \<and> valid_utf8 (re_new_oid e)"
proof -
  from assms obtain header fs1 om nm oo no st where h: "next_header fs = Some (header, fs1)"
      "parse_header header = Inr (om, nm, oo, no, st)" "re_old_oid e = oo" "re_new_oid e = no"
    by (auto simp: next_entry_def split: option.splits if_splits)
  then obtain text_header where t: "valid_utf8 text_header" "{oo, no} \<subseteq> set (split_char space text_header)"
    by (auto simp: parse_header_def split: option.splits if_splits list.splits)
  have "bval space < 128" by (simp add: space_def bval_def)
  with t h valid_utf8_split_char show ?thesis by blast
qed

lemma admit_entries_unlimited:
  assumes "serves repo g"
    and "admit_entries pieces g (Some m) fs s [] = Inr (s', ps)" and "reader_on repo (snd s)"
  shows "ps = [] \<and> admit_entries pieces g None fs s [] = Inr (s', [])"
  using assms
proof (induction pieces g "Some m" fs s arbitrary: ps rule: admit_entries.induct)
  case (1 pieces g fs s)
  show ?case
  proof (cases "next_entry fs")
    case (Inl err)
    with 1(3) show ?thesis by (subst (asm) admit_entries.simps) (simp add: run_simps)
  next
    case (Inr r)
    show ?thesis
    proof (cases r)
      case None
      with Inr 1(3) show ?thesis
        by (subst (asm) admit_entries.simps, subst admit_entries.simps) (simp add: done_with_def)
    next
      case (Some er)
      obtain e rest where er: "er = (e, rest)" by (cases er)
      from Inr Some er 1(3) obtain s1 ps1 where
          one: "admit_entry pieces g (Some m) s e [] = Inr (s1, ps1)"
          and rest: "admit_entries pieces g (Some m) rest s1 ps1 = Inr (s', ps)"
        by (subst (asm) admit_entries.simps) (auto simp: bind_run_Inr)
      from next_entry_valid Inr Some er have "valid_utf8 (re_old_oid e)" "valid_utf8 (re_new_oid e)" by blast+
      from admit_entry_unlimited [OF 1(2,4) this one] have
        s1: "ps1 = []" "admit_entry pieces g None s e [] = Inr (s1, [])" "reader_on repo (snd s1)" by auto
      from 1(1) [OF Inr _ _ 1(2) _ s1(3)] Some er rest s1(1) have
        "ps = [] \<and> admit_entries pieces g None rest s1 [] = Inr (s', [])" by blast
      with s1 Inr Some er show ?thesis
        by (subst admit_entries.simps) (simp add: bind_run_def)
    qed
  qed
qed

lemma read_meta_unlimited:
  assumes "steady g"
    and "read_commit_meta_stdout g sha opts (Some m) n [] = Inr (out, ps)"
  shows "ps = [] \<and> read_commit_meta_stdout g sha opts None n' [] = Inr (out, [])"
proof -
  define cap where "cap = (if m - n < ro_max_stdout opts then sat_add (m - n) 1 else ro_max_stdout opts)"
  have le: "cap \<le> ro_max_stdout opts" by (auto simp: cap_def sat_add_eq min_def)
  have "opts\<lparr>ro_max_stdout := cap\<rparr> =
      (if m - n < ro_max_stdout opts then opts\<lparr>ro_max_stdout := sat_add (m - n) 1\<rparr> else opts)"
    by (simp add: cap_def)
  with assms(2) obtain r where
    r: "git_run g (opts\<lparr>ro_max_stdout := cap\<rparr>) (meta_args sha) = Inr r" "\<not> out_truncated r" "out_stdout r = out"
      "ps = []"
    by (auto simp: read_commit_meta_stdout_def Let_def bind_run_def lift_result_def
        split: sum.splits git_failure.splits if_splits)
  have "git_run g ((opts\<lparr>ro_max_stdout := cap\<rparr>)\<lparr>ro_max_stdout := ro_max_stdout opts\<rparr>) (meta_args sha) = Inr r"
    using assms(1) r le unfolding steady_def by (metis run_options.select_convs(1) run_options.surjective run_options.update_convs(1))
  then have "git_run g opts (meta_args sha) = Inr r" by simp
  with r show ?thesis
    by (simp add: read_commit_meta_stdout_def bind_run_def lift_result_def)
qed

lemma measure_meta_none:
  "measure_meta pieces c [] = Inr (min (text_len pieces (json_of_record c)) usize_max, [])"
  by (simp add: measure_meta_def measure_json_none)

lemma export_one_none:
  assumes "read_commit_meta_stdout g sha opts limit (ex_wire_len st) [] = Inr (out, [])"
  shows "export_one pieces g opts limit st sha [] = Inr (st', ps) \<longleftrightarrow>
    (\<exists>name email date message meta_len meta parent raw blobs ps5 ps6.
      parse_commit_meta out = Inr (name, email, date, message) \<and>
      meta = \<lparr>cr_message = message, cr_author_name = name, cr_author_email = email,
        cr_author_date = date, cr_files = []\<rparr> \<and>
      meta_len = min (text_len pieces (json_of_record meta)) usize_max \<and>
      \<not> over limit (ex_wire_len st + comma (ex_commits st) + meta_len) \<and>
      parent_or_empty g sha opts = Inr parent \<and>
      run_strict g (diff_tree_args parent sha) opts = Inr raw \<and>
      admit_entries pieces g limit (raw_z_new raw)
        (\<lparr>ex_commits = ex_commits st @ [meta],
          ex_wire_len = ex_wire_len st + comma (ex_commits st) + meta_len\<rparr>, blobs_new) [] =
        Inr ((st', blobs), ps5) \<and>
      blobs_close g blobs ps5 = Inr ((), ps6) \<and> refuse_if_cancelled ''export commit'' ps6 = Inr ((), ps))"
  by (auto simp: export_one_def bind_run_Inr assms lift_result_Inr measure_meta_none Let_def
      git_bytes_def map_error_Inr) blast+

lemma export_one_unlimited:
  assumes g: "serves repo g" and steady: "steady g"
    and export: "export_one pieces g opts (Some m) st sha [] = Inr (st', ps)"
  shows "ps = [] \<and> export_one pieces g opts None st sha [] = Inr (st', [])"
proof -
  from export obtain out p1 where read: "read_commit_meta_stdout g sha opts (Some m) (ex_wire_len st) [] = Inr (out, p1)"
    unfolding export_one_def by (auto simp: bind_run_Inr)
  from read_meta_unlimited [OF steady read] have p1: "p1 = []" and
    read': "read_commit_meta_stdout g sha opts None (ex_wire_len st) [] = Inr (out, [])" by auto
  have close: "blobs_close g rd ps = Inr ((), ps)" for rd ps
    using g by (auto simp: serves_def blobs_close_def reader_close_def done_with_def split: option.splits)
  from export [unfolded export_one_none [OF read [unfolded p1]]]
  obtain name email date message meta_len meta parent raw blobs ps5 ps6 where
    steps: "parse_commit_meta out = Inr (name, email, date, message)"
      "meta = \<lparr>cr_message = message, cr_author_name = name, cr_author_email = email,
        cr_author_date = date, cr_files = []\<rparr>"
      "meta_len = min (text_len pieces (json_of_record meta)) usize_max"
      "parent_or_empty g sha opts = Inr parent"
      "run_strict g (diff_tree_args parent sha) opts = Inr raw" and
    admit: "admit_entries pieces g (Some m) (raw_z_new raw)
        (\<lparr>ex_commits = ex_commits st @ [meta],
          ex_wire_len = ex_wire_len st + comma (ex_commits st) + meta_len\<rparr>, blobs_new) [] =
        Inr ((st', blobs), ps5)" and
    fin: "blobs_close g blobs ps5 = Inr ((), ps6)" "refuse_if_cancelled ''export commit'' ps6 = Inr ((), ps)"
    by blast
  from admit_entries_unlimited [OF g admit] have
    admit': "ps5 = []" "admit_entries pieces g None (raw_z_new raw)
        (\<lparr>ex_commits = ex_commits st @ [meta],
          ex_wire_len = ex_wire_len st + comma (ex_commits st) + meta_len\<rparr>, blobs_new) [] =
        Inr ((st', blobs), [])"
    by (simp_all add: reader_on_new)
  from fin admit'(1) have ps: "ps = []" by (simp add: close)
  have "\<not> over None (ex_wire_len st + comma (ex_commits st) + meta_len)" by (simp add: over_def)
  with steps admit'(2) close [of blobs "[]"] have "export_one pieces g opts None st sha [] = Inr (st', [])"
    unfolding export_one_none [OF read'] using refuse_none by blast
  with ps show ?thesis by simp
qed

lemma bind_run_at: "m polls = Inr (x, polls') \<Longrightarrow> bind_run m f polls = f x polls'"
  by (simp add: bind_run_def)

lemma fold_export_unlimited:
  assumes g: "serves repo g" and steady: "steady g"
    and "fold_run (export_step pieces g opts (Some m)) st shas [] = Inr (st', ps)"
  shows "ps = [] \<and> fold_run (export_step pieces g opts None) st shas [] = Inr (st', [])"
  using assms(3)
proof (induction shas arbitrary: st)
  case Nil
  then show ?case by (simp add: done_with_def)
next
  case (Cons sha shas)
  from Cons.prems obtain s1 p1 where one: "export_one pieces g opts (Some m) st sha [] = Inr (s1, p1)"
      and rest: "fold_run (export_step pieces g opts (Some m)) s1 shas p1 = Inr (st', ps)"
    by (auto simp: bind_run_Inr)
  from export_one_unlimited [OF g steady one] have
    s1: "p1 = []" "export_one pieces g opts None st sha [] = Inr (s1, [])" by auto
  then have step: "export_step pieces g opts None st sha [] = Inr (s1, [])"
    by (simp add: bind_run_at)
  from Cons.IH rest s1(1) have "ps = [] \<and> fold_run (export_step pieces g opts None) s1 shas [] = Inr (st', [])"
    by blast
  then show ?case by (simp add: bind_run_at [where m = "export_step pieces g opts None st sha", OF step])
qed

text \<open>
  C10.  A limit decides only whether an export succeeds.  When an export under a limit succeeds and
  nothing is cancelled, the export without a limit succeeds with the same payload and count: nothing
  was cut off, left out or read differently to stay within the limit.  Git is assumed to serve the
  objects of one repository, and to answer a command as before when more output is allowed.
\<close>

theorem limit_changes_nothing:
  assumes "serves repo g" and "steady g"
    and "export_commits_counted pieces g shas opts (Some max_bytes) [] = Inr (result, polls')"
  shows "export_commits_counted pieces g shas opts None [] = Inr (result, [])"
proof -
  from assms(3) obtain st p where
    fold: "fold_run (export_step pieces g opts (Some max_bytes))
      \<lparr>ex_commits = [], ex_wire_len = EMPTY_PAYLOAD_WIRE_LEN\<rparr> shas [] = Inr (st, p)" and
    result: "result = (\<lparr>cp_commits = ex_commits st\<rparr>, ex_wire_len st)"
    by (auto simp: export_commits_counted_def bind_run_Inr split: if_splits)
  from fold_export_unlimited [OF assms(1,2) fold] show ?thesis
    by (simp add: export_commits_counted_def bind_run_def over_def done_with_def result)
qed

section \<open>An example\<close>

definition demo_js :: "string \<Rightarrow> string" where
  "demo_js s = CHR 0x22 # s @ [CHR 0x22]"

definition demo_pieces :: "json \<Rightarrow> string list" where
  "demo_pieces v = [json_text demo_js (\<lambda>_. ''0'') v]"

lemma demo_compact: "compact demo_pieces demo_js (\<lambda>_. ''0'')"
  by (simp add: compact_def demo_pieces_def demo_js_def)

definition demo_export_git :: git where
  "demo_export_git =
     \<lparr>git_root = ''/r'', git_boundary = None,
      git_run = (\<lambda>_ args. Inr \<lparr>out_stdout =
        (if hd args = ''log'' then join [NUL] [''n'', ''e'', ''d'', ''m'']
         else if hd args = ''rev-list'' then ''c p''
         else join [NUL] ['':000000 100644 0 a A'', ''f'', []]), out_truncated = False\<rparr>),
      git_run_diff = (\<lambda>_ _. Inl Git_Not_Found),
      git_cat = Inr (session_of (demo_repository ''r1'')), git_cat_close = (\<lambda>_. None)\<rparr>"

definition demo_record :: commit_record where
  "demo_record =
     \<lparr>cr_message = ''m'', cr_author_name = ''n'', cr_author_email = ''e'', cr_author_date = ''d'',
      cr_files = [\<lparr>cf_path = ''f'', cf_old_path = None, cf_change = File_Added,
        cf_content = Some ''one'', cf_not_copied = None\<rparr>]\<rparr>"

definition demo_export_options :: run_options where
  "demo_export_options = \<lparr>ro_max_stdout = 100, ro_truncate = False\<rparr>"

lemma demo_export:
  "export_commits_counted demo_pieces demo_export_git [''c''] demo_export_options (Some 300) [] =
    Inr ((\<lparr>cp_commits = [demo_record]\<rparr>, 193), [])"
  by code_simp


lemma demo_serves: "serves (demo_repository ''r1'') demo_export_git"
  using demo_repository_ok by (simp add: serves_def demo_export_git_def)

lemma demo_steady: "steady demo_export_git"
  by (simp add: steady_def demo_export_git_def)

lemma limit_changes_nothing_witness:
  "export_commits_counted demo_pieces demo_export_git [''c''] demo_export_options None [] =
    Inr ((\<lparr>cp_commits = [demo_record]\<rparr>, 193), [])"
  by (rule limit_changes_nothing [OF demo_serves demo_steady demo_export])

section \<open>Well-formed records\<close>

text \<open>Content, a reason, or a deletion: the shapes of a file that replay knows.\<close>

definition file_typed :: "commit_file \<Rightarrow> bool" where
  "file_typed f \<longleftrightarrow>
     (case cf_content f of
        Some _ \<Rightarrow> cf_not_copied f = None \<and> cf_change f \<noteq> File_Deleted
      | None \<Rightarrow> cf_not_copied f \<noteq> None \<or> cf_change f = File_Deleted) \<and>
     (cf_change f = File_Renamed \<longrightarrow> cf_old_path f \<noteq> None)"

lemma next_entry_renamed:
  "next_entry fs = Inr (Some (e, rest)) \<Longrightarrow> re_status e = CHR ''R'' \<Longrightarrow> re_old_path e \<noteq> None"
  by (auto simp: next_entry_def is_two_paths_def split: option.splits if_splits)

lemma parse_raw_fields_renamed:
  "parse_raw_fields fs = Inr es \<Longrightarrow> e \<in> set es \<Longrightarrow> re_status e = CHR ''R'' \<Longrightarrow> re_old_path e \<noteq> None"
proof (induction fs arbitrary: es rule: parse_raw_fields.induct)
  case (1 fs)
  from 1(2,3) obtain e1 rest es1 where n: "next_entry fs = Inr (Some (e1, rest))"
      and r: "parse_raw_fields rest = Inr es1" and es: "es = e1 # es1"
    by (subst (asm) parse_raw_fields.simps) (auto split: sum.splits option.splits)
  show ?case
  proof (cases "e = e1")
    case True
    with next_entry_renamed [OF n] 1(4) show ?thesis by simp
  next
    case False
    with 1(1) [OF n refl refl r] es 1(3,4) show ?thesis by simp
  qed
qed

lemma admitted_typed:
  assumes "admitted e f" and "re_status e = CHR ''R'' \<Longrightarrow> re_old_path e \<noteq> None"
  shows "file_typed f"
proof -
  have "cf_change f = File_Renamed \<Longrightarrow> re_status e = CHR ''R''"
    using assms(1) by (auto simp: admitted_def change_of_status_def split: if_splits)
  with assms show ?thesis
    by (auto simp: file_typed_def admitted_def split: option.split)
qed

text \<open>
  C34.  Every file of an export, limited or not, cancelled meanwhile or not, has either content, or
  the reason why it has none, or is a deletion, never content with one of the others; and a renamed
  file names where it came from.
\<close>

theorem exported_files_typed:
  assumes "export_commits_counted pieces g shas opts limit polls = Inr ((payload, n), polls')"
    and "c \<in> set (cp_commits payload)" and "f \<in> set (cr_files c)"
  shows "file_typed f"
proof -
  from export_commits_Inr [OF assms(1)] obtain st ps ps' where
    fold: "fold_run (export_step pieces g opts limit)
        \<lparr>ex_commits = [], ex_wire_len = EMPTY_PAYLOAD_WIRE_LEN\<rparr> shas ps = Inr (st, ps')" and
    payload: "payload = \<lparr>cp_commits = ex_commits st\<rparr>"
    by blast
  from fold_export [OF fold] payload have "list_all2 (exported_as g opts) shas (cp_commits payload)" by simp
  with assms(2) obtain sha where "exported_as g opts sha c"
    by (metis in_set_conv_nth list_all2_conv_all_nth)
  then obtain raw entries where es: "parse_raw_z raw = Inr entries" "list_all2 admitted entries (cr_files c)"
    by (auto simp: exported_as_def)
  from es(2) assms(3) obtain e where e: "e \<in> set entries" "admitted e f"
    by (metis in_set_conv_nth list_all2_conv_all_nth)
  show ?thesis
    by (rule admitted_typed [OF e(2)])
      (use parse_raw_fields_renamed es(1) e(1) in \<open>simp add: parse_raw_z_def\<close>)
qed

lemma exported_files_typed_witness:
  "file_typed \<lparr>cf_path = ''f'', cf_old_path = None, cf_change = File_Added,
    cf_content = Some ''one'', cf_not_copied = None\<rparr>"
  by (rule exported_files_typed [OF demo_export, of demo_record]) (simp_all add: demo_record_def)

end
