(* ===== verification/Replay_Plan.thy ===== *)
theory Replay_Plan
  imports Commit_Export Restore "HOL-Library.AList" "HOL-Library.Char_ord" "HOL-Library.List_Lexorder"
begin

text \<open>
  Commit mode, the pasting side (\<open>crates/core/src/commits.rs\<close>): planning the replay of a payload's
  commits onto a worktree.  A plan looks at the disk through the effects of the commits planned before
  (\<open>PlannedLayout\<close>).  Hash maps and sets are association lists and lists.
\<close>

section \<open>Plans\<close>

datatype replay_action = Replay_Write | Replay_Delete | Replay_Skip

datatype replay_skip_reason = Replay_NotCopied | Replay_UnsafePath | Replay_NonUtf8Target

datatype layout_conflict =
    RenamedFromIsDirectory | DeleteTargetIsDirectory | DirectoryInTheWay | FileInTheWayOfParent | CaseAlias

fun describe :: "layout_conflict \<Rightarrow> string" where
  "describe RenamedFromIsDirectory = ''the renamed-from path is a directory''"
| "describe DeleteTargetIsDirectory = ''the path to delete is a directory''"
| "describe DirectoryInTheWay = ''a directory is in the way of the file''"
| "describe FileInTheWayOfParent = ''a file is in the way of its parent directory''"
| "describe CaseAlias =
     ''the path differs only in letter case from another one in the destination or the commit''"

definition hint :: "layout_conflict \<Rightarrow> string option" where
  "hint c =
     (if c = CaseAlias
      then Some ''paste the files in file mode instead, or first rename the path to match the existing case''
      else None)"

datatype replay_preview_unavailable =
    Preview_Skipped | Preview_Symlink | Preview_Directory | Preview_Binary | Preview_TooLarge
  | Preview_ContentTooLarge | Preview_Unreadable

datatype replay_content_source =
    Source_Absent
  | Source_Destination
  | Source_Payload nat nat
  | Source_Unavailable replay_preview_unavailable

definition default_source :: replay_content_source where
  "default_source = Source_Unavailable Preview_Unreadable"

record file_plan =
  fp_path :: string
  fp_old_path :: "string option"
  fp_change :: file_change
  fp_action :: replay_action
  fp_existed :: bool
  fp_old_existed :: bool
  fp_not_copied :: "not_copied_reason option"
  fp_skip_reason :: "replay_skip_reason option"
  fp_layout_conflict :: "layout_conflict option"
  fp_absolute_path :: "native_path option"
  fp_old_absolute_path :: "native_path option"
  fp_before :: replay_content_source
  fp_old_before :: replay_content_source

definition zip_option :: "'a option \<Rightarrow> 'b option \<Rightarrow> ('a \<times> 'b) list" where
  "zip_option a b = (case (a, b) of (Some x, Some y) \<Rightarrow> [(x, y)] | _ \<Rightarrow> [])"

definition freshness_targets :: "file_plan \<Rightarrow> (native_path \<times> string) list" where
  "freshness_targets f =
     (if fp_skip_reason f = Some Replay_NotCopied then []
      else zip_option (fp_absolute_path f) (Some (fp_path f)) @
        zip_option (fp_old_absolute_path f) (fp_old_path f))"

definition overwrites_existing :: "file_plan \<Rightarrow> bool" where
  "overwrites_existing f \<longleftrightarrow> fp_layout_conflict f = None \<and> fp_action f = Replay_Write \<and> fp_existed f"

record commit_plan =
  cpl_message :: string
  cpl_author_name :: string
  cpl_author_email :: string
  cpl_author_date :: string
  cpl_files :: "file_plan list"

definition refused_by :: "commit_plan \<Rightarrow> layout_conflict option" where
  "refused_by c = find_map fp_layout_conflict (cpl_files c)"

record commit_replay_plan =
  crp_root :: native_path
  crp_commits :: "commit_plan list"

text \<open>What an Apply is held to: everything but the two fields for display.\<close>

definition same_file_operation :: "file_plan \<Rightarrow> file_plan \<Rightarrow> bool" where
  "same_file_operation a b \<longleftrightarrow>
     fp_path a = fp_path b \<and> fp_old_path a = fp_old_path b \<and> fp_change a = fp_change b \<and>
     fp_action a = fp_action b \<and> fp_existed a = fp_existed b \<and> fp_old_existed a = fp_old_existed b \<and>
     fp_not_copied a = fp_not_copied b \<and> fp_skip_reason a = fp_skip_reason b \<and>
     fp_layout_conflict a = fp_layout_conflict b \<and> fp_absolute_path a = fp_absolute_path b \<and>
     fp_old_absolute_path a = fp_old_absolute_path b"

definition same_operations :: "commit_replay_plan \<Rightarrow> commit_replay_plan \<Rightarrow> bool" where
  "same_operations p q \<longleftrightarrow>
     crp_root p = crp_root q \<and> length (crp_commits p) = length (crp_commits q) \<and>
     list_all2 (\<lambda>a b.
         (cpl_message a, cpl_author_name a, cpl_author_email a, cpl_author_date a) =
           (cpl_message b, cpl_author_name b, cpl_author_email b, cpl_author_date b) \<and>
         length (cpl_files a) = length (cpl_files b) \<and>
         list_all2 same_file_operation (cpl_files a) (cpl_files b))
       (crp_commits p) (crp_commits q)"

text \<open>The distinct paths of a \<open>BTreeSet\<close>.\<close>

definition existing_writes :: "commit_replay_plan \<Rightarrow> string list" where
  "existing_writes p =
     sort (remdups (map fp_path (filter overwrites_existing (concat (map cpl_files (crp_commits p))))))"

section \<open>The machine and Git\<close>

text \<open>
  \<open>rs_git\<close> is what Git's reading commands answer on a host, \<open>rs_exec\<close> one Git process: its answer and
  the host after it, for the arguments, the environment and the standard input it is given.
  \<open>rs_same_file\<close> tells whether two directory entries have the same device and inode number,
  \<open>rs_probe_id\<close> is the process number and time in a probe's name, and the last two are the texts of
  errors.
\<close>

record replay_system =
  rs_git :: "host \<Rightarrow> git"
  rs_exec :: "host \<Rightarrow> string list \<Rightarrow> (string \<times> string) list \<Rightarrow> string option \<Rightarrow>
    (git_failure + string) \<times> host"
  rs_same_file :: "string list \<Rightarrow> string list \<Rightarrow> bool"
  rs_probe_id :: "host \<Rightarrow> string"
  rs_macos :: bool
  rs_error_text :: "git_failure \<Rightarrow> string"
  rs_io_text :: "io_error \<Rightarrow> string"

definition is_symlink :: "host \<Rightarrow> native_path \<Rightarrow> bool" where
  "is_symlink h p \<longleftrightarrow> (case symlink_metadata h p of Inr (Symlink _) \<Rightarrow> True | _ \<Rightarrow> False)"

text \<open>\<open>swap_ascii_case\<close>, \<open>is_same_file\<close> and the probe of \<open>crates/core/src/transfer.rs\<close>.\<close>

definition swap_case :: "char \<Rightarrow> char" where
  "swap_case c =
     (if 97 \<le> bval c \<and> bval c \<le> 122 then char_of (bval c - 32)
      else if 65 \<le> bval c \<and> bval c \<le> 90 then char_of (bval c + 32) else c)"

definition swap_ascii_case :: "string \<Rightarrow> string option" where
  "swap_ascii_case s = (if list_ex is_ascii_alphabetic s then Some (map swap_case s) else None)"

definition is_same_file :: "replay_system \<Rightarrow> host \<Rightarrow> native_path \<Rightarrow> native_path \<Rightarrow> io_error + bool" where
  "is_same_file sys h p q =
     and_then (symlink_metadata h p) (\<lambda>_. and_then (symlink_metadata h q) (\<lambda>_.
     and_then (entry_of h p) (\<lambda>e. and_then (entry_of h q) (\<lambda>e'. Inr (rs_same_file sys e e')))))"

fun probe_entries :: "replay_system \<Rightarrow> host \<Rightarrow> native_path \<Rightarrow> string list \<Rightarrow> bool option" where
  "probe_entries sys h rt [] = None"
| "probe_entries sys h rt (name # names) =
     (case swap_ascii_case (lossy name) of
        None \<Rightarrow> probe_entries sys h rt names
      | Some swapped \<Rightarrow>
          (case symlink_metadata h (walk_child rt swapped) of
             Inr _ \<Rightarrow>
               (case is_same_file sys h (walk_child rt name) (walk_child rt swapped) of
                  Inr same \<Rightarrow> Some same
                | Inl _ \<Rightarrow> probe_entries sys h rt names)
           | Inl e \<Rightarrow> if e = NotFound then Some False else probe_entries sys h rt names))"

text \<open>\<open>OpenOptions::create_new\<close>\<close>

definition create_new :: "host \<Rightarrow> native_path \<Rightarrow> io_error + host" where
  "create_new h path =
     (case entry_of h path of
        Inl e \<Rightarrow> Inl e
      | Inr entry \<Rightarrow>
          if lookup_node h entry \<noteq> None then Inl AlreadyExists
          else if host_unwritable h (butlast entry) then Inl PermissionDenied
          else Inr (set_node h entry (Some (Regular []))))"

definition probe_name :: "replay_system \<Rightarrow> host \<Rightarrow> string" where
  "probe_name sys h = ''.snip-case-probe-'' @ rs_probe_id sys h"

definition swapped_probe_name :: "replay_system \<Rightarrow> host \<Rightarrow> string" where
  "swapped_probe_name sys h = ''.SNIP-CASE-PROBE-'' @ rs_probe_id sys h"

definition probe_fs_case_insensitive ::
  "replay_system \<Rightarrow> native_path \<Rightarrow> host \<Rightarrow> (io_error + bool) \<times> host" where
  "probe_fs_case_insensitive sys rt h =
     (let seen = (case read_dir h rt of Inl _ \<Rightarrow> None | Inr names \<Rightarrow> probe_entries sys h rt names);
          probe_path = walk_child rt (probe_name sys h);
          swapped_path = walk_child rt (swapped_probe_name sys h) in
      case seen of
        Some answer \<Rightarrow> (Inr answer, h)
      | None \<Rightarrow>
          (case create_new h probe_path of
             Inl e \<Rightarrow> (Inl e, h)
           | Inr h1 \<Rightarrow>
               (let is_ci =
                  (case symlink_metadata h1 swapped_path of
                     Inr _ \<Rightarrow>
                       (case is_same_file sys h1 probe_path swapped_path of Inr same \<Rightarrow> same | Inl _ \<Rightarrow> True)
                   | Inl e \<Rightarrow> e \<noteq> NotFound \<and> rs_macos sys) in
                (Inr is_ci, snd (delete_file (snd (delete_file h1 probe_path)) swapped_path)))))"

definition fs_is_case_insensitive :: "replay_system \<Rightarrow> native_path \<Rightarrow> host \<Rightarrow> bool \<times> host" where
  "fs_is_case_insensitive sys rt h =
     (case probe_fs_case_insensitive sys rt h of
        (Inr answer, h') \<Rightarrow> (answer, h')
      | (Inl _, h') \<Rightarrow> (rs_macos sys, h'))"

definition unsafe_replay_target :: "host \<Rightarrow> native_path \<Rightarrow> native_path \<Rightarrow> bool" where
  "unsafe_replay_target h scope ab \<longleftrightarrow>
     escapes_all_roots h [scope] ab \<or>
     (case path_parent ab of None \<Rightarrow> True | Some parent \<Rightarrow> lands_in_git_dir h parent)"

section \<open>Spellings in the index\<close>

text \<open>By lower-case spelling: the spellings, each with the number of files at or below it.\<close>

type_synonym tracked_spellings = "(string \<times> (string \<times> nat) list) list"

definition prefixes :: "string \<Rightarrow> string list" where
  "prefixes rel = map (\<lambda>i. take i rel) (filter (\<lambda>i. rel ! i = slash) [0..<length rel]) @ [rel]"

definition tracked_has :: "host \<Rightarrow> tracked_spellings \<Rightarrow> string \<Rightarrow> bool" where
  "tracked_has h t rel \<longleftrightarrow>
     (case map_of t (host_to_lowercase h rel) of None \<Rightarrow> False | Some s \<Rightarrow> map_of s rel \<noteq> None)"

definition count_up :: "host \<Rightarrow> tracked_spellings \<Rightarrow> string \<Rightarrow> tracked_spellings" where
  "count_up h t p =
     (let k = host_to_lowercase h p;
          s = (case map_of t k of None \<Rightarrow> [] | Some s \<Rightarrow> s);
          n = (case map_of s p of None \<Rightarrow> 0 | Some n \<Rightarrow> n) in
      AList.update k (AList.update p (n + 1) s) t)"

definition tracked_insert :: "host \<Rightarrow> string \<Rightarrow> tracked_spellings \<Rightarrow> tracked_spellings" where
  "tracked_insert h rel t = (if tracked_has h t rel then t else foldl (count_up h) t (prefixes rel))"

definition count_down :: "host \<Rightarrow> tracked_spellings \<Rightarrow> string \<Rightarrow> tracked_spellings" where
  "count_down h t p =
     (let k = host_to_lowercase h p in
      case map_of t k of
        None \<Rightarrow> t
      | Some s \<Rightarrow>
          (let s' = (case map_of s p of
                 None \<Rightarrow> s
               | Some n \<Rightarrow> if n - 1 = 0 then AList.delete p s else AList.update p (n - 1) s) in
           if s' = [] then AList.delete k t else AList.update k s' t))"

definition tracked_remove :: "host \<Rightarrow> string \<Rightarrow> tracked_spellings \<Rightarrow> tracked_spellings" where
  "tracked_remove h rel t = (if \<not> tracked_has h t rel then t else foldl (count_down h) t (prefixes rel))"

definition tracked_aliases :: "host \<Rightarrow> tracked_spellings \<Rightarrow> string \<Rightarrow> bool" where
  "tracked_aliases h t rel =
     list_ex (\<lambda>p. case map_of t (host_to_lowercase h p) of None \<Rightarrow> False | Some s \<Rightarrow> map_of s p = None)
       (prefixes rel)"

definition tracked_read :: "host \<Rightarrow> git \<Rightarrow> run_options \<Rightarrow> git_failure + tracked_spellings" where
  "tracked_read h g opts =
     and_then (git_run g (opts\<lparr>ro_truncate := False\<rparr>) [''ls-files'', ''-z'']) (\<lambda>out.
       Inr (foldl (\<lambda>t p. tracked_insert h (from_utf8_lossy p) t) []
         (filter (\<lambda>p. p \<noteq> []) (split_char NUL (out_stdout out)))))"

section \<open>The layout after the commits planned so far\<close>

datatype planned_node = Planned_File | Planned_Dir | Planned_Absent

text \<open>
  A path answers from \<open>pl_overrides\<close> first and from the disk otherwise; \<open>pl_added\<close> are the overrides
  that are not absent, by the key of their directory; below a key in \<open>pl_cut\<close> the disk is gone.
\<close>

record planned_layout =
  pl_fold_case :: bool
  pl_overrides :: "(native_path \<times> planned_node) list"
  pl_contents :: "(native_path \<times> replay_content_source) list"
  pl_added :: "(native_path \<times> (native_path \<times> native_path) list) list"
  pl_cut :: "native_path list"
  pl_tracked :: tracked_spellings

definition planned_layout_new ::
  "replay_system \<Rightarrow> run_options \<Rightarrow> host \<Rightarrow> (git_failure + planned_layout) \<times> host" where
  "planned_layout_new sys opts h =
     (let (fold_case, h') = fs_is_case_insensitive sys (native (git_root (rs_git sys h))) h;
          layout = (\<lambda>tracked. \<lparr>pl_fold_case = fold_case, pl_overrides = [], pl_contents = [], pl_added = [],
            pl_cut = [], pl_tracked = tracked\<rparr>) in
      (if fold_case then and_then (tracked_read h' (rs_git sys h') opts) (\<lambda>tracked. Inr (layout tracked))
       else Inr (layout []), h'))"

definition layout_key :: "host \<Rightarrow> planned_layout \<Rightarrow> native_path \<Rightarrow> native_path" where
  "layout_key h l p =
     (if pl_fold_case l then components (host_to_lowercase h (lossy (path_string p))) else p)"

definition layout_get :: "host \<Rightarrow> planned_layout \<Rightarrow> native_path \<Rightarrow> planned_node option" where
  "layout_get h l p = (if pl_overrides l = [] then None else map_of (pl_overrides l) (layout_key h l p))"

definition shadowed :: "host \<Rightarrow> planned_layout \<Rightarrow> native_path \<Rightarrow> bool" where
  "shadowed h l p \<longleftrightarrow> pl_cut l \<noteq> [] \<and> list_ex (\<lambda>a. a \<in> set (pl_cut l)) (tl (ancestors (layout_key h l p)))"

definition replaced :: "host \<Rightarrow> planned_layout \<Rightarrow> native_path \<Rightarrow> bool" where
  "replaced h l p \<longleftrightarrow> layout_get h l p \<noteq> None \<or> shadowed h l p"

definition disk_children_live :: "host \<Rightarrow> planned_layout \<Rightarrow> native_path \<Rightarrow> bool" where
  "disk_children_live h l dir \<longleftrightarrow>
     pl_cut l = [] \<or> \<not> (layout_key h l dir \<in> set (pl_cut l) \<or> shadowed h l dir)"

definition layout_node :: "host \<Rightarrow> planned_layout \<Rightarrow> native_path \<Rightarrow> planned_node" where
  "layout_node h l p =
     (case layout_get h l p of
        Some n \<Rightarrow> n
      | None \<Rightarrow>
          if shadowed h l p then Planned_Absent
          else (case symlink_metadata h p of
              Inr Directory \<Rightarrow> Planned_Dir
            | Inr _ \<Rightarrow> Planned_File
            | Inl _ \<Rightarrow> Planned_Absent))"

definition content_source :: "host \<Rightarrow> planned_layout \<Rightarrow> native_path \<Rightarrow> replay_content_source" where
  "content_source h l p =
     (case layout_get h l p of
        Some Planned_Absent \<Rightarrow> Source_Absent
      | Some Planned_Dir \<Rightarrow> Source_Absent
      | Some Planned_File \<Rightarrow>
          (case map_of (pl_contents l) (layout_key h l p) of Some s \<Rightarrow> s | None \<Rightarrow> default_source)
      | None \<Rightarrow>
          if shadowed h l p then Source_Absent
          else (case symlink_metadata h p of
              Inr (Symlink _) \<Rightarrow> Source_Unavailable Preview_Symlink
            | Inr (Regular _) \<Rightarrow> Source_Destination
            | Inr Directory \<Rightarrow> Source_Absent
            | Inr Special \<Rightarrow> Source_Unavailable Preview_Unreadable
            | Inl e \<Rightarrow>
                if e = NotFound \<or> e = NotADirectory then Source_Absent
                else Source_Unavailable Preview_Unreadable))"

definition layout_is_dir :: "host \<Rightarrow> planned_layout \<Rightarrow> native_path \<Rightarrow> bool" where
  "layout_is_dir h l p \<longleftrightarrow> layout_node h l p = Planned_Dir"

definition layout_exists :: "host \<Rightarrow> planned_layout \<Rightarrow> native_path \<Rightarrow> bool" where
  "layout_exists h l p \<longleftrightarrow>
     (case layout_get h l p of
        Some n \<Rightarrow> n \<noteq> Planned_Absent
      | None \<Rightarrow> \<not> shadowed h l p \<and> path_exists h p)"

definition layout_set :: "host \<Rightarrow> native_path \<Rightarrow> planned_node \<Rightarrow> planned_layout \<Rightarrow> planned_layout" where
  "layout_set h p n l =
     (let k = layout_key h l p;
          l1 = l\<lparr>pl_contents := AList.delete k (pl_contents l),
                 pl_cut := (if n \<noteq> Planned_Dir then List.insert k (pl_cut l) else pl_cut l),
                 pl_overrides := AList.update k n (pl_overrides l)\<rparr> in
      case path_parent k of
        None \<Rightarrow> l1
      | Some parent \<Rightarrow>
          if n = Planned_Absent then
            (case map_of (pl_added l) parent of
               None \<Rightarrow> l1
             | Some entries \<Rightarrow> l1\<lparr>pl_added := AList.update parent (AList.delete k entries) (pl_added l)\<rparr>)
          else
            (let entries = (case map_of (pl_added l) parent of None \<Rightarrow> [] | Some entries \<Rightarrow> entries) in
             l1\<lparr>pl_added := AList.update parent
               (if map_of entries k = None then AList.update k p entries else entries) (pl_added l)\<rparr>))"

text \<open>
  The entries of a directory.  An entry of \<open>pl_added\<close> has an override (the source indexes the map).
\<close>

definition disk_entry :: "host \<Rightarrow> native_path \<Rightarrow> string \<Rightarrow> native_path \<times> planned_node" where
  "disk_entry h dir name =
     (walk_child dir name,
      if symlink_metadata h (walk_child dir name) = Inr Directory then Planned_Dir else Planned_File)"

definition layout_children :: "host \<Rightarrow> planned_layout \<Rightarrow> native_path \<Rightarrow> (native_path \<times> planned_node) list" where
  "layout_children h l dir =
     (let entries = (if disk_children_live h l dir
            then (case read_dir h dir of Inl _ \<Rightarrow> [] | Inr names \<Rightarrow> map (disk_entry h dir) names) else []);
          on_disk = foldl (\<lambda>out (p, n). AList.update (layout_key h l p) (p, n) out) [] entries;
          live = filter (\<lambda>(k, _). map_of (pl_overrides l) k \<noteq> Some Planned_Absent) on_disk;
          added = (case map_of (pl_added l) (layout_key h l dir) of None \<Rightarrow> [] | Some entries \<Rightarrow> entries) in
      map snd
        (foldl (\<lambda>out (k, p). AList.update k (p, the (map_of (pl_overrides l) k)) out) live added))"

definition has_children :: "host \<Rightarrow> planned_layout \<Rightarrow> native_path \<Rightarrow> bool" where
  "has_children h l dir \<longleftrightarrow>
     (if (case map_of (pl_added l) (layout_key h l dir) of None \<Rightarrow> False | Some entries \<Rightarrow> entries \<noteq> []) then True
      else if \<not> disk_children_live h l dir then False
      else
        (case read_dir h dir of
           Inl _ \<Rightarrow> False
         | Inr names \<Rightarrow> list_ex (\<lambda>n. layout_get h l (walk_child dir n) \<noteq> Some Planned_Absent) names))"

text \<open>A removed file drops each parent it leaves empty; the root stays.\<close>

function prune_empty :: "host \<Rightarrow> native_path \<Rightarrow> native_path \<Rightarrow> planned_layout \<Rightarrow> planned_layout" where
  "prune_empty h rt dir l =
     (if dir = rt \<or> \<not> is_contained dir rt then l
      else if layout_node h l dir \<noteq> Planned_Dir \<or> has_children h l dir then l
      else
        (case path_parent dir of
           None \<Rightarrow> layout_set h dir Planned_Absent l
         | Some parent \<Rightarrow> prune_empty h rt parent (layout_set h dir Planned_Absent l)))"
  by pat_completeness auto
termination
  by (relation "measure (\<lambda>(h, rt, dir, l). length (np_names dir))")
    (auto simp: path_parent_def split: if_splits)

declare prune_empty.simps [simp del]

definition is_delete :: "file_plan \<Rightarrow> bool" where
  "is_delete f \<longleftrightarrow> fp_action f = Replay_Delete"

text \<open>What a file takes away: a rename's old path, then the path of a delete.\<close>

definition removed_paths :: "file_plan \<Rightarrow> native_path list" where
  "removed_paths f =
     (case fp_old_absolute_path f of None \<Rightarrow> [] | Some p \<Rightarrow> [p]) @
     (if is_delete f then (case fp_absolute_path f of None \<Rightarrow> [] | Some p \<Rightarrow> [p]) else [])"

definition removed_rels :: "file_plan \<Rightarrow> string list" where
  "removed_rels f =
     (case fp_old_path f of None \<Rightarrow> [] | Some p \<Rightarrow> [p]) @ (if is_delete f then [fp_path f] else [])"

definition apply_removal ::
  "host \<Rightarrow> planned_layout \<times> native_path list \<Rightarrow> native_path \<Rightarrow> planned_layout \<times> native_path list" where
  "apply_removal h s ab =
     (case s of (l, parents) \<Rightarrow>
        if layout_node h l ab = Planned_File
        then (layout_set h ab Planned_Absent l,
              parents @ (case path_parent ab of None \<Rightarrow> [] | Some p \<Rightarrow> [p]))
        else s)"

definition apply_removals ::
  "host \<Rightarrow> planned_layout \<times> native_path list \<Rightarrow> file_plan \<Rightarrow> planned_layout \<times> native_path list" where
  "apply_removals h s f =
     (let (l, parents) = foldl (apply_removal h) s (removed_paths f) in
      (l\<lparr>pl_tracked := foldl (\<lambda>t rel. tracked_remove h rel t) (pl_tracked l) (removed_rels f)\<rparr>, parents))"

text \<open>The directories between the root and a path, from the deepest.\<close>

definition folders_below :: "native_path \<Rightarrow> native_path \<Rightarrow> native_path list" where
  "folders_below rt ab = takeWhile (\<lambda>a. a \<noteq> rt \<and> is_contained a rt) (tl (ancestors ab))"

definition apply_write ::
  "host \<Rightarrow> native_path \<Rightarrow> nat \<Rightarrow> planned_layout \<Rightarrow> nat \<times> file_plan \<Rightarrow> planned_layout" where
  "apply_write h rt commit_index l indexed_file =
     (case indexed_file of (file_index, f) \<Rightarrow>
        case fp_absolute_path f of
          None \<Rightarrow> l
        | Some ab \<Rightarrow>
            (let l1 = layout_set h ab Planned_File
                   (l\<lparr>pl_tracked := tracked_insert h (fp_path f) (pl_tracked l)\<rparr>);
                 l2 = l1\<lparr>pl_contents := AList.update (layout_key h l1 ab)
                   (Source_Payload commit_index file_index) (pl_contents l1)\<rparr> in
             foldl (\<lambda>l a. layout_set h a Planned_Dir l) l2 (folders_below rt ab)))"

definition layout_apply ::
  "host \<Rightarrow> native_path \<Rightarrow> file_plan list \<Rightarrow> nat \<Rightarrow> planned_layout \<Rightarrow> planned_layout" where
  "layout_apply h rt files commit_index l =
     (let (l1, parents) = foldl (apply_removals h) (l, []) (filter (\<lambda>f. fp_action f \<noteq> Replay_Skip) files);
          l2 = foldl (\<lambda>l p. prune_empty h rt p l) l1 (remdups_adj (sort_key np_names parents)) in
      foldl (apply_write h rt commit_index) l2
        (filter (\<lambda>(_, f). fp_action f = Replay_Write) (enumerate 0 files)))"

section \<open>Planning one file\<close>

fun pushed :: "native_path \<Rightarrow> string list \<Rightarrow> native_path list" where
  "pushed dir [] = []"
| "pushed dir (segment # rest) =
     (let dir' = path_join dir (components segment) in dir' # pushed dir' rest)"

text \<open>
  A path relative to the repository that passes the path rules as it is, no directory of it a symbolic
  link (one the commits before replaced is none any more).
\<close>

definition target :: "host \<Rightarrow> string \<Rightarrow> string \<Rightarrow> planned_layout \<Rightarrow> native_path option" where
  "target h rt path l =
     (if list_ex (\<lambda>dir. \<not> replaced h l dir \<and> is_symlink h dir)
          (pushed (native rt) (butlast (split_char slash path)))
      then None
      else
        (case resolve_write_target h (resolver_new h [rt] None) path of
           Inl _ \<Rightarrow> None
         | Inr t \<Rightarrow>
             if rt_relative_path t = path \<and> \<not> unsafe_replay_target h (native rt) (rt_absolute_path t)
             then Some (rt_absolute_path t) else None))"

definition beyond_symlink :: "host \<Rightarrow> native_path \<Rightarrow> native_path \<Rightarrow> bool" where
  "beyond_symlink h rt ab = list_ex (is_symlink h) (folders_below rt ab)"

text \<open>The plan of a file before anything is known of its target.\<close>

definition blank_plan :: "commit_file \<Rightarrow> file_plan" where
  "blank_plan f =
     \<lparr>fp_path = cf_path f, fp_old_path = cf_old_path f, fp_change = cf_change f,
      fp_action = Replay_Skip, fp_existed = False, fp_old_existed = False,
      fp_not_copied =
        (if cf_change f \<noteq> File_Deleted \<and> cf_content f = None \<and> cf_not_copied f = None
         then Some Reason_Unreadable else cf_not_copied f),
      fp_skip_reason = None, fp_layout_conflict = None, fp_absolute_path = None,
      fp_old_absolute_path = None, fp_before = default_source, fp_old_before = default_source\<rparr>"

definition plan_file :: "host \<Rightarrow> string \<Rightarrow> commit_file \<Rightarrow> planned_layout \<Rightarrow> file_plan" where
  "plan_file h rt f l =
     (let plan = blank_plan f;
          deleted = (cf_change f = File_Deleted);
          old = map_option (\<lambda>p. target h rt p l) (cf_old_path f) in
      if fp_not_copied plan \<noteq> None then plan\<lparr>fp_skip_reason := Some Replay_NotCopied\<rparr>
      else
        (case target h rt (cf_path f) l of
           None \<Rightarrow> plan\<lparr>fp_skip_reason := Some Replay_UnsafePath\<rparr>
         | Some ab \<Rightarrow>
             if old = Some None then plan\<lparr>fp_skip_reason := Some Replay_UnsafePath\<rparr>
             else if \<not> deleted \<and> \<not> replaced h l ab \<and> \<not> is_symlink h ab \<and> must_not_overwrite h ab
             then plan\<lparr>fp_skip_reason := Some Replay_NonUtf8Target, fp_existed := path_exists h ab,
               fp_absolute_path := Some ab\<rparr>
             else
               (let old_ab = (case old of Some (Some o_path) \<Rightarrow> Some o_path | _ \<Rightarrow> None) in
                plan\<lparr>fp_action := (if deleted then Replay_Delete else Replay_Write),
                  fp_existed := (if deleted then layout_exists h l ab
                    else path_exists h ab \<and> \<not> (shadowed h l ab \<and> beyond_symlink h (native rt) ab)),
                  fp_absolute_path := Some ab,
                  fp_old_absolute_path := old_ab,
                  fp_old_existed := (case old_ab of Some p \<Rightarrow> layout_exists h l p | None \<Rightarrow> False),
                  fp_before := content_source h l ab,
                  fp_old_before :=
                    (case old_ab of Some p \<Rightarrow> content_source h l p | None \<Rightarrow> Source_Absent)\<rparr>)))"

definition plan_commit :: "host \<Rightarrow> string \<Rightarrow> commit_record \<Rightarrow> planned_layout \<Rightarrow> commit_plan" where
  "plan_commit h rt c l =
     \<lparr>cpl_message = cr_message c, cpl_author_name = cr_author_name c,
      cpl_author_email = cr_author_email c, cpl_author_date = cr_author_date c,
      cpl_files = map (\<lambda>f. plan_file h rt f l) (cr_files c)\<rparr>"

section \<open>Conflicts of the layout\<close>

definition live_files :: "file_plan list \<Rightarrow> file_plan list" where
  "live_files files = filter (\<lambda>f. fp_action f \<noteq> Replay_Skip) files"

definition case_alias :: "host \<Rightarrow> native_path \<Rightarrow> native_path \<Rightarrow> string \<Rightarrow> planned_layout \<Rightarrow> bool" where
  "case_alias h rt ab rel l \<longleftrightarrow>
     list_ex
       (\<lambda>a. layout_node h l a \<noteq> Planned_Absent \<and>
          (case path_parent a of
             None \<Rightarrow> False
           | Some parent \<Rightarrow>
               (let entries = map fst (layout_children h l parent) in
                a \<notin> set entries \<and> list_ex (\<lambda>p. layout_key h l p = layout_key h l a) entries)))
       (takeWhile (\<lambda>a. a \<noteq> rt \<and> is_contained a rt) (ancestors ab))
     \<or> tracked_aliases h (pl_tracked l) rel"

definition deleted_paths :: "file_plan list \<Rightarrow> native_path list" where
  "deleted_paths files = concat (map removed_paths (live_files files))"

text \<open>
  Whether deleting these paths leaves a directory empty.  The recursion goes down the tree; a
  directory as deep as the deepest of the paths holds none of them, so it stays whatever is below.
\<close>

primrec emptied :: "nat \<Rightarrow> host \<Rightarrow> planned_layout \<Rightarrow> native_path list \<Rightarrow> native_path \<Rightarrow> bool" where
  "emptied 0 h l deleted dir = False"
| "emptied (Suc fuel) h l deleted dir =
     (let children = layout_children h l dir in
      children \<noteq> [] \<and>
      list_all (\<lambda>(path, n). if n = Planned_Dir then emptied fuel h l deleted path else path \<in> set deleted)
        children)"

definition deepest :: "native_path list \<Rightarrow> nat" where
  "deepest ps = foldl max 0 (map (\<lambda>p. length (np_names p)) ps)"

text \<open>This commit's own spellings, by lower case.\<close>

definition commit_spellings :: "file_plan list \<Rightarrow> string list" where
  "commit_spellings files =
     concat (map (\<lambda>f. concat (map prefixes
       (fp_path f # (case fp_old_path f of None \<Rightarrow> [] | Some p \<Rightarrow> [p])))) (live_files files))"

definition two_spellings :: "host \<Rightarrow> file_plan list \<Rightarrow> string \<Rightarrow> bool" where
  "two_spellings h files p \<longleftrightarrow>
     1 < length (remdups (filter (\<lambda>q. host_to_lowercase h q = host_to_lowercase h p)
       (commit_spellings files)))"

definition shape_conflict ::
  "host \<Rightarrow> native_path \<Rightarrow> native_path list \<Rightarrow> planned_layout \<Rightarrow> file_plan \<Rightarrow> native_path \<Rightarrow> layout_conflict option" where
  "shape_conflict h rt deleted l f ab =
     (let old_is_dir = (case fp_old_absolute_path f of None \<Rightarrow> False | Some p \<Rightarrow> layout_is_dir h l p) in
      case fp_action f of
        Replay_Skip \<Rightarrow> None
      | Replay_Delete \<Rightarrow>
          if old_is_dir then Some RenamedFromIsDirectory
          else if layout_is_dir h l ab then Some DeleteTargetIsDirectory else None
      | Replay_Write \<Rightarrow>
          if old_is_dir then Some RenamedFromIsDirectory
          else if layout_is_dir h l ab then
            (if emptied (deepest deleted) h l deleted ab then None else Some DirectoryInTheWay)
          else if list_ex (\<lambda>a. layout_node h l a = Planned_File \<and> a \<notin> set deleted) (folders_below rt ab)
          then Some FileInTheWayOfParent
          else None)"

definition alias_conflict ::
  "host \<Rightarrow> native_path \<Rightarrow> file_plan list \<Rightarrow> planned_layout \<Rightarrow> file_plan \<Rightarrow> native_path \<Rightarrow> layout_conflict option" where
  "alias_conflict h rt files l f ab =
     (if pl_fold_case l \<and> fp_action f \<noteq> Replay_Skip \<and>
         list_ex (\<lambda>(p, rel). list_ex (two_spellings h files) (prefixes rel) \<or> case_alias h rt p rel l)
           ((ab, fp_path f) # zip_option (fp_old_absolute_path f) (fp_old_path f))
      then Some CaseAlias else None)"

definition file_conflict ::
  "host \<Rightarrow> native_path \<Rightarrow> file_plan list \<Rightarrow> planned_layout \<Rightarrow> file_plan \<Rightarrow> layout_conflict option" where
  "file_conflict h rt files l f =
     (case fp_absolute_path f of
        None \<Rightarrow> None
      | Some ab \<Rightarrow>
          (case shape_conflict h rt (deleted_paths files) l f ab of
             Some c \<Rightarrow> Some c
           | None \<Rightarrow> alias_conflict h rt files l f ab))"

definition layout_conflicts ::
  "host \<Rightarrow> native_path \<Rightarrow> file_plan list \<Rightarrow> planned_layout \<Rightarrow> (nat \<times> layout_conflict) list" where
  "layout_conflicts h rt files l =
     List.map_filter (\<lambda>(i, f). map_option (Pair i) (file_conflict h rt files l f)) (enumerate 0 files)"

definition skip_for :: "layout_conflict \<Rightarrow> file_plan \<Rightarrow> file_plan" where
  "skip_for c f = f\<lparr>fp_action := Replay_Skip, fp_skip_reason := Some Replay_UnsafePath,
     fp_layout_conflict := Some c\<rparr>"

definition mark_conflicts :: "(nat \<times> layout_conflict) list \<Rightarrow> file_plan list \<Rightarrow> file_plan list" where
  "mark_conflicts conflicts files = foldl (\<lambda>fs (i, c). fs[i := skip_for c (fs ! i)]) files conflicts"

lemma file_conflict_live: "file_conflict h rt files l f = Some c \<Longrightarrow> fp_action f \<noteq> Replay_Skip"
  by (auto simp: file_conflict_def shape_conflict_def alias_conflict_def split: option.splits replay_action.splits)

lemma layout_conflicts_in:
  "(i, c) \<in> set (layout_conflicts h rt files l) \<longleftrightarrow>
     i < length files \<and> file_conflict h rt files l (files ! i) = Some c"
proof -
  have "(i, c) \<in> set (layout_conflicts h rt files l) \<longleftrightarrow>
      (\<exists>f. (i, f) \<in> set (enumerate 0 files) \<and> file_conflict h rt files l f = Some c)"
    by (force simp: layout_conflicts_def map_filter_def)
  then show ?thesis by (auto simp: in_set_enumerate_eq)
qed

lemma distinct_conflicts: "distinct (map fst (layout_conflicts h rt files l))"
proof -
  have "distinct (map fst (List.map_filter (\<lambda>(i, f). map_option (Pair i) (g f)) xs))"
    if "distinct (map fst xs)" for g :: "file_plan \<Rightarrow> layout_conflict option" and xs :: "(nat \<times> file_plan) list"
    using that
  proof (induction xs)
    case Nil
    then show ?case by (simp add: map_filter_simps)
  next
    case (Cons x xs)
    obtain i f where x: "x = (i, f)" by fastforce
    have "i \<notin> fst ` set (List.map_filter (\<lambda>(i, f). map_option (Pair i) (g f)) xs)"
      using Cons.prems by (force simp: map_filter_def x)
    with Cons show ?case by (cases "g f") (simp_all add: map_filter_simps x)
  qed
  then show ?thesis by (simp add: layout_conflicts_def)
qed

lemma length_mark [simp]: "length (mark_conflicts conflicts files) = length files"
  by (induction conflicts arbitrary: files) (auto simp: mark_conflicts_def)

lemma nth_mark:
  "distinct (map fst conflicts) \<Longrightarrow> \<forall>(i, c)\<in>set conflicts. i < length files \<Longrightarrow> k < length files \<Longrightarrow>
   mark_conflicts conflicts files ! k =
     (case map_of conflicts k of None \<Rightarrow> files ! k | Some c \<Rightarrow> skip_for c (files ! k))"
proof (induction conflicts arbitrary: files)
  case Nil
  then show ?case by (simp add: mark_conflicts_def)
next
  case (Cons x conflicts)
  obtain i c where x: "x = (i, c)" by fastforce
  from Cons.prems have IH: "mark_conflicts conflicts (files[i := skip_for c (files ! i)]) ! k =
      (case map_of conflicts k of None \<Rightarrow> files[i := skip_for c (files ! i)] ! k
       | Some c' \<Rightarrow> skip_for c' (files[i := skip_for c (files ! i)] ! k))"
    by (intro Cons.IH) auto
  have "map_of conflicts i = None" using Cons.prems(1) by (simp add: x map_of_eq_None_iff)
  with IH Cons.prems show ?case by (auto simp: mark_conflicts_def x split: option.split)
qed

text \<open>Every file that conflicts is skipped, the others stay as they are.\<close>

definition settled :: "host \<Rightarrow> native_path \<Rightarrow> file_plan list \<Rightarrow> planned_layout \<Rightarrow> file_plan \<Rightarrow> file_plan" where
  "settled h rt files l f =
     (case file_conflict h rt files l f of None \<Rightarrow> f | Some c \<Rightarrow> skip_for c f)"

lemma mark_layout_conflicts:
  "mark_conflicts (layout_conflicts h rt files l) files = map (settled h rt files l) files"
proof (rule nth_equalityI)
  fix k
  assume "k < length (mark_conflicts (layout_conflicts h rt files l) files)"
  then have k: "k < length files" by simp
  have "map_of (layout_conflicts h rt files l) k = file_conflict h rt files l (files ! k)"
  proof (cases "file_conflict h rt files l (files ! k)")
    case None
    then have "k \<notin> fst ` set (layout_conflicts h rt files l)" by (auto simp: layout_conflicts_in)
    with None show ?thesis by (simp add: map_of_eq_None_iff)
  next
    case (Some c)
    with k show ?thesis
      using map_of_is_SomeI [OF distinct_conflicts] by (simp add: layout_conflicts_in)
  qed
  moreover have "\<forall>(i, c)\<in>set (layout_conflicts h rt files l). i < length files"
    by (auto simp: layout_conflicts_in)
  ultimately show "mark_conflicts (layout_conflicts h rt files l) files ! k = map (settled h rt files l) files ! k"
    using nth_mark [OF distinct_conflicts _ k, of h rt files l] k by (simp add: settled_def)
qed simp

lemma fewer_live:
  assumes "\<And>f. f \<in> set files \<Longrightarrow> fp_action (g f) \<noteq> Replay_Skip \<Longrightarrow> fp_action f \<noteq> Replay_Skip"
    and "f \<in> set files" "fp_action f \<noteq> Replay_Skip" "fp_action (g f) = Replay_Skip"
  shows "length (live_files (map g files)) < length (live_files files)"
  using assms
proof (induction files)
  case Nil
  then show ?case by simp
next
  case (Cons x files)
  have le: "length (live_files (map g fs)) \<le> length (live_files fs)" if "set fs \<subseteq> set (x # files)" for fs
    using that Cons.prems(1) by (induction fs) (auto simp: live_files_def)
  show ?case
  proof (cases "f = x")
    case True
    have "length (live_files (map g files)) \<le> length (live_files files)" by (rule le) auto
    with Cons.prems(3,4) True show ?thesis by (simp add: live_files_def)
  next
    case False
    with Cons have "length (live_files (map g files)) < length (live_files files)" by simp
    with Cons.prems(1) [of x] show ?thesis by (auto simp: live_files_def)
  qed
qed

function skip_layout_conflicts ::
  "host \<Rightarrow> native_path \<Rightarrow> planned_layout \<Rightarrow> file_plan list \<Rightarrow> file_plan list" where
  "skip_layout_conflicts h rt l files =
     (let conflicts = layout_conflicts h rt files l in
      if conflicts = [] then files
      else skip_layout_conflicts h rt l (mark_conflicts conflicts files))"
  by pat_completeness auto
termination
proof (relation "measure (\<lambda>(h, rt, l, files). length (live_files files))")
  fix h rt l files conflicts
  assume c: "conflicts = layout_conflicts h rt files l" "conflicts \<noteq> []"
  then obtain i c' where "i < length files" "file_conflict h rt files l (files ! i) = Some c'"
    using layout_conflicts_in by (metis list.set_intros(1) neq_Nil_conv surj_pair)
  then have "length (live_files (map (settled h rt files l) files)) < length (live_files files)"
    using file_conflict_live
    by (intro fewer_live [where f = "files ! i"]) (auto simp: settled_def skip_for_def split: option.splits)
  then show "((h, rt, l, mark_conflicts conflicts files), h, rt, l, files)
      \<in> measure (\<lambda>(h, rt, l, files). length (live_files files))"
    by (simp add: c mark_layout_conflicts)
qed simp

declare skip_layout_conflicts.simps [simp del]

section \<open>Planning a payload\<close>

text \<open>The token is looked at before each file.\<close>

definition plan_files ::
  "host \<Rightarrow> string \<Rightarrow> planned_layout \<Rightarrow> commit_file list \<Rightarrow> (commit_error, file_plan list) run" where
  "plan_files h rt l files =
     fold_run (\<lambda>planned f. bind_run (refuse_if_cancelled ''replay-plan'')
       (\<lambda>_. done_with (planned @ [plan_file h rt f l]))) [] files"

text \<open>A refused commit writes nothing, and a replay stops there.\<close>

definition plan_next ::
  "host \<Rightarrow> string \<Rightarrow> planned_layout \<times> commit_plan list \<Rightarrow> nat \<times> commit_record \<Rightarrow>
   (commit_error, planned_layout \<times> commit_plan list) run" where
  "plan_next h rt s indexed_commit =
     (case (s, indexed_commit) of ((l, commits), (commit_index, commit)) \<Rightarrow>
        bind_run (refuse_if_cancelled ''replay-plan'') (\<lambda>_.
        bind_run (plan_files h rt l (cr_files commit)) (\<lambda>planned.
          (let files = skip_layout_conflicts h (native rt) l planned;
               plan = \<lparr>cpl_message = cr_message commit, cpl_author_name = cr_author_name commit,
                 cpl_author_email = cr_author_email commit, cpl_author_date = cr_author_date commit,
                 cpl_files = files\<rparr>;
               l' = (if refused_by plan = None then layout_apply h (native rt) files commit_index l else l) in
           done_with (l', commits @ [plan])))))"

definition plan_paths :: "file_plan \<Rightarrow> native_path list" where
  "plan_paths f =
     (case fp_old_absolute_path f of None \<Rightarrow> [] | Some p \<Rightarrow> [p]) @
     (case fp_absolute_path f of None \<Rightarrow> [] | Some p \<Rightarrow> [p])"

definition check_scope :: "host \<Rightarrow> native_path \<Rightarrow> commit_replay_plan \<Rightarrow> commit_error + commit_replay_plan" where
  "check_scope h scope plan =
     (case find (\<lambda>f. list_ex (unsafe_replay_target h scope) (plan_paths f))
         (concat (map cpl_files (crp_commits plan))) of
        Some f \<Rightarrow> Inl (Outside_Scope (fp_path f) (path_string scope))
      | None \<Rightarrow> Inr plan)"

text \<open>The host changes only by the probe for case sensitivity.\<close>

definition plan_commit_replay_in ::
  "replay_system \<Rightarrow> native_path \<Rightarrow> commits_payload \<Rightarrow> run_options \<Rightarrow> bool list \<Rightarrow> host \<Rightarrow>
   (commit_error + commit_replay_plan) \<times> host" where
  "plan_commit_replay_in sys scope payload opts polls h =
     (case refuse_if_cancelled ''replay-plan'' polls of
        Inl e \<Rightarrow> (Inl e, h)
      | Inr (_, polls1) \<Rightarrow>
          (case planned_layout_new sys opts h of
             (Inl e, h1) \<Rightarrow> (Inl (Commit_Git e), h1)
           | (Inr l, h1) \<Rightarrow>
               (let rt = git_root (rs_git sys h) in
                (case bind_run (fold_run (plan_next h1 rt) (l, []) (enumerate 0 (cp_commits payload)))
                     (\<lambda>(_, commits). bind_run (refuse_if_cancelled ''replay-plan'')
                       (\<lambda>_. lift_result (check_scope h1 scope \<lparr>crp_root = native rt, crp_commits = commits\<rparr>)))
                     polls1 of
                   Inl e \<Rightarrow> Inl e
                 | Inr (plan, _) \<Rightarrow> Inr plan, h1))))"

definition plan_commit_replay_with ::
  "replay_system \<Rightarrow> commits_payload \<Rightarrow> run_options \<Rightarrow> bool list \<Rightarrow> host \<Rightarrow>
   (commit_error + commit_replay_plan) \<times> host" where
  "plan_commit_replay_with sys payload opts polls h =
     plan_commit_replay_in sys (native (git_root (rs_git sys h))) payload opts polls h"

end
