(* ===== verification/Commit_Replay.thy ===== *)
theory Commit_Replay
  imports Replay_Plan
begin

text \<open>
  Commit mode, the pasting side (\<open>crates/core/src/commits.rs\<close>): replaying a payload's commits.  Every
  step changes the host, by itself or through Git, and fails or goes on.
\<close>

section \<open>Replaying a commit\<close>

record replay_failure =
  rf_index :: nat
  rf_message :: string
  rf_error :: string
  rf_layout_conflict :: "layout_conflict option"
  rf_conflict_path :: "string option"

record replay_result =
  rr_created :: "string list"
  rr_failure :: "replay_failure option"

record replay_commit_error =
  rce_error :: string
  rce_layout_conflict :: "layout_conflict option"
  rce_conflict_path :: "string option"

definition plain_error :: "string \<Rightarrow> replay_commit_error" where
  "plain_error e = \<lparr>rce_error = e, rce_layout_conflict = None, rce_conflict_path = None\<rparr>"

text \<open>A step changes the host and fails or goes on.\<close>

type_synonym ('e, 'a) step = "host \<Rightarrow> ('e + 'a) \<times> host"

definition return_step :: "'a \<Rightarrow> ('e, 'a) step" where
  "return_step x h = (Inr x, h)"

definition fail_step :: "'e \<Rightarrow> ('e, 'a) step" where
  "fail_step e h = (Inl e, h)"

definition bind_step :: "('e, 'a) step \<Rightarrow> ('a \<Rightarrow> ('e, 'b) step) \<Rightarrow> ('e, 'b) step" where
  "bind_step m f h = (case m h of (Inl e, h') \<Rightarrow> (Inl e, h') | (Inr x, h') \<Rightarrow> f x h')"

text \<open>A step that looks at the host first.\<close>

definition look :: "(host \<Rightarrow> ('e, 'a) step) \<Rightarrow> ('e, 'a) step" where
  "look f h = f h h"

primrec each_step :: "('x \<Rightarrow> ('e, 'a list) step) \<Rightarrow> 'x list \<Rightarrow> ('e, 'a list) step" where
  "each_step f [] = return_step []"
| "each_step f (x # xs) =
     bind_step (f x) (\<lambda>ys. bind_step (each_step f xs) (\<lambda>zs. return_step (ys @ zs)))"

text \<open>\<open>fs::remove_dir\<close>\<close>

definition remove_dir :: "host \<Rightarrow> native_path \<Rightarrow> io_error + host" where
  "remove_dir h path =
     (case entry_of h path of
        Inl e \<Rightarrow> Inl e
      | Inr entry \<Rightarrow>
          (case lookup_node h entry of
             None \<Rightarrow> Inl NotFound
           | Some Directory \<Rightarrow>
               if entry = [] \<or> host_listing h entry \<noteq> [] then Inl OtherError
               else if host_unwritable h (butlast entry) then Inl PermissionDenied
               else Inr (set_node h entry None)
           | Some _ \<Rightarrow> Inl NotADirectory))"

function remove_parents :: "native_path \<Rightarrow> native_path \<Rightarrow> host \<Rightarrow> host" where
  "remove_parents bound dir h =
     (if dir = bound \<or> \<not> is_contained dir bound then h
      else
        (case remove_dir h dir of
           Inl _ \<Rightarrow> h
         | Inr h' \<Rightarrow>
             (case path_parent dir of None \<Rightarrow> h' | Some parent \<Rightarrow> remove_parents bound parent h')))"
  by pat_completeness auto
termination
  by (relation "measure (\<lambda>(bound, dir, h). length (np_names dir))")
    (auto simp: path_parent_def split: if_splits)

declare remove_parents.simps [simp del]

definition real_bound :: "host \<Rightarrow> native_path \<Rightarrow> native_path" where
  "real_bound h scope = (case canonicalize h scope of Inr names \<Rightarrow> abs_path names | Inl _ \<Rightarrow> scope)"

text \<open>\<open>delete\<close>\<close>

definition delete_target :: "replay_system \<Rightarrow> native_path \<Rightarrow> native_path \<times> string \<Rightarrow> (replay_commit_error, string list) step" where
  "delete_target sys scope file h =
     (case file of (ab, rel) \<Rightarrow>
        if unsafe_replay_target h scope ab then (Inl (plain_error (rel @ '': unsafe path'')), h)
        else
          (case delete_file h ab of
             (None, h1) \<Rightarrow>
               (Inr [rel],
                case path_parent ab of None \<Rightarrow> h1 | Some parent \<Rightarrow> remove_parents (real_bound h1 scope) parent h1)
           | (Some e, h1) \<Rightarrow>
               if e = NotFound \<or> e = NotADirectory then (Inr [rel], h1)
               else (Inl (plain_error (rel @ '': '' @ rs_io_text sys e)), h1)))"

text \<open>A file the plan writes, with its content.\<close>

definition planned_write :: "file_plan \<times> commit_file \<Rightarrow> (native_path \<times> string) option" where
  "planned_write fs =
     (case (fp_action (fst fs), fp_absolute_path (fst fs), cf_content (snd fs)) of
        (Replay_Write, Some ab, Some content) \<Rightarrow> Some (ab, content)
      | _ \<Rightarrow> None)"

definition recheck_write :: "native_path \<Rightarrow> file_plan \<times> commit_file \<Rightarrow> (replay_commit_error, unit list) step" where
  "recheck_write scope fs h =
     (case planned_write fs of
        None \<Rightarrow> (Inr [], h)
      | Some (ab, _) \<Rightarrow>
          if unsafe_replay_target h scope ab
          then (Inl (plain_error (fp_path (fst fs) @ '': unsafe path'')), h)
          else if \<not> is_symlink h ab \<and> must_not_overwrite h ab
          then (Inl (plain_error (fp_path (fst fs) @ '': target is not UTF-8 or cannot be verified'')), h)
          else (Inr [], h))"

definition replay_deletes :: "file_plan \<Rightarrow> (native_path \<times> string) list" where
  "replay_deletes f =
     zip_option (fp_old_absolute_path f) (fp_old_path f) @
     (if is_delete f then zip_option (fp_absolute_path f) (Some (fp_path f)) else [])"

definition replay_write ::
  "replay_system \<Rightarrow> native_path \<Rightarrow> file_plan \<times> commit_file \<Rightarrow> (replay_commit_error, string list) step" where
  "replay_write sys rt fs h =
     (case planned_write fs of
        None \<Rightarrow> (Inr [], h)
      | Some (ab, content) \<Rightarrow>
          if unsafe_replay_target h rt ab
          then (Inl (plain_error (fp_path (fst fs) @ '': unsafe path'')), h)
          else
            (case write_text_file h ab content of
               (None, h1) \<Rightarrow> (Inr [fp_path (fst fs)], h1)
             | (Some e, h1) \<Rightarrow> (Inl (plain_error (fp_path (fst fs) @ '': '' @ rs_io_text sys e)), h1)))"

definition git_step ::
  "replay_system \<Rightarrow> string list \<Rightarrow> (string \<times> string) list \<Rightarrow> string option \<Rightarrow> (replay_commit_error, string) step" where
  "git_step sys args env input h =
     (case rs_exec sys h args env input of
        (Inl e, h1) \<Rightarrow> (Inl (plain_error (rs_error_text sys e)), h1)
      | (Inr out, h1) \<Rightarrow> (Inr out, h1))"

definition literal_args :: "string \<Rightarrow> string list" where
  "literal_args no_hooks = [''-c'', no_hooks, ''--literal-pathspecs'']"

text \<open>The deleted paths HEAD tracks; an unborn HEAD tracks nothing.\<close>

definition deleted_committed ::
  "replay_system \<Rightarrow> string \<Rightarrow> string list \<Rightarrow> (replay_commit_error, string list) step" where
  "deleted_committed sys no_hooks deleted =
     (if deleted = [] then return_step []
      else look (\<lambda>h.
        case head_with (rs_git sys h) default_options of
          Inl e \<Rightarrow> fail_step (plain_error (rs_error_text sys e))
        | Inr None \<Rightarrow> return_step []
        | Inr (Some _) \<Rightarrow>
            bind_step (git_step sys
                (literal_args no_hooks @ [''ls-tree'', ''-z'', ''--name-only'', ''HEAD'', ''--''] @ deleted) [] None)
              (\<lambda>out. return_step (filter (\<lambda>p. p \<in> set (filter (\<lambda>q. q \<noteq> []) (split_char NUL out))) deleted))))"

definition stage_removals ::
  "replay_system \<Rightarrow> string \<Rightarrow> string list \<Rightarrow> (replay_commit_error, unit) step" where
  "stage_removals sys no_hooks paths =
     (if paths = [] then return_step ()
      else bind_step (git_step sys
          (literal_args no_hooks @
            [''rm'', ''--cached'', ''--force'', ''--quiet'', ''--ignore-unmatch'', ''--''] @ paths) [] None)
        (\<lambda>_. return_step ()))"

definition stage_writes ::
  "replay_system \<Rightarrow> string \<Rightarrow> string list \<Rightarrow> (replay_commit_error, unit) step" where
  "stage_writes sys no_hooks paths =
     (if paths = [] then return_step ()
      else bind_step (git_step sys
          (literal_args no_hooks @ [''add'', ''-A'', ''-f'', ''--''] @ paths) [] None)
        (\<lambda>_. return_step ()))"

definition commit_args :: "string \<Rightarrow> string list \<Rightarrow> string list" where
  "commit_args no_hooks paths =
     literal_args no_hooks @
     [''commit'', ''--quiet'', ''--only'', ''--no-verify'', ''--allow-empty'', ''--allow-empty-message'',
      ''--cleanup=verbatim'', ''-F'', ''-'', ''--''] @ paths"

definition author_env :: "commit_record \<Rightarrow> (string \<times> string) list" where
  "author_env c =
     [(''GIT_AUTHOR_NAME'', cr_author_name c), (''GIT_AUTHOR_EMAIL'', cr_author_email c),
      (''GIT_AUTHOR_DATE'', cr_author_date c)]"

definition run_commit ::
  "replay_system \<Rightarrow> string list \<Rightarrow> commit_record \<Rightarrow> (replay_commit_error, unit) step" where
  "run_commit sys args c =
     bind_step (git_step sys args (author_env c) (Some (cr_message c))) (\<lambda>_. return_step ())"

text \<open>From the first deletion to the new commit.\<close>

definition carry_out ::
  "replay_system \<Rightarrow> native_path \<Rightarrow> native_path \<Rightarrow> commit_record \<Rightarrow> file_plan list \<Rightarrow> string \<Rightarrow>
   (replay_commit_error, string) step" where
  "carry_out sys rt scope commit files no_hooks =
     bind_step (each_step (recheck_write scope) (zip files (cr_files commit))) (\<lambda>_.
     bind_step (each_step (delete_target sys scope) (concat (map replay_deletes files))) (\<lambda>deleted.
     bind_step (each_step (replay_write sys rt) (zip files (cr_files commit))) (\<lambda>paths.
     bind_step (deleted_committed sys no_hooks deleted) (\<lambda>committed.
     bind_step (stage_removals sys no_hooks committed) (\<lambda>_.
     bind_step (stage_writes sys no_hooks paths) (\<lambda>_.
     bind_step (run_commit sys (commit_args no_hooks (remdups_adj (sort (paths @ committed)))) commit) (\<lambda>_.
     bind_step (git_step sys [''-c'', no_hooks, ''rev-parse'', ''HEAD''] [] None) (\<lambda>head.
     return_step (str_trim (from_utf8_lossy head))))))))))"

definition conflict_error :: "file_plan list \<Rightarrow> nat \<times> layout_conflict \<Rightarrow> replay_commit_error" where
  "conflict_error files conflict =
     (case conflict of (i, c) \<Rightarrow>
        \<lparr>rce_error = fp_path (files ! i) @ '': '' @ describe c, rce_layout_conflict = Some c,
         rce_conflict_path = Some (fp_path (files ! i))\<rparr>)"

definition replay_commit ::
  "replay_system \<Rightarrow> native_path \<Rightarrow> commit_record \<Rightarrow> string \<Rightarrow> (replay_commit_error, string) step" where
  "replay_commit sys scope commit no_hooks h =
     (let rt = git_root (rs_git sys h) in
      case planned_layout_new sys default_options h of
        (Inl e, h1) \<Rightarrow> (Inl (plain_error (rs_error_text sys e)), h1)
      | (Inr l, h1) \<Rightarrow>
          (let files = cpl_files (plan_commit h1 rt commit l) in
           case layout_conflicts h1 (native rt) files l of
             conflict # _ \<Rightarrow> (Inl (conflict_error files conflict), h1)
           | [] \<Rightarrow> carry_out sys (native rt) scope commit files no_hooks h1))"

section \<open>A session\<close>

definition failed_at :: "nat \<Rightarrow> commit_record \<Rightarrow> replay_commit_error \<Rightarrow> replay_failure" where
  "failed_at index commit e =
     \<lparr>rf_index = index, rf_message = cr_message commit, rf_error = rce_error e,
      rf_layout_conflict = rce_layout_conflict e, rf_conflict_path = rce_conflict_path e\<rparr>"

text \<open>Commits in order until one fails; what was created stays.\<close>

primrec run_from ::
  "replay_system \<Rightarrow> native_path \<Rightarrow> string \<Rightarrow> nat \<Rightarrow> string list \<Rightarrow> commit_record list \<Rightarrow> host \<Rightarrow>
   replay_result \<times> host" where
  "run_from sys scope no_hooks index created [] h = (\<lparr>rr_created = created, rr_failure = None\<rparr>, h)"
| "run_from sys scope no_hooks index created (commit # commits) h =
     (case replay_commit sys scope commit no_hooks h of
        (Inr sha, h1) \<Rightarrow> run_from sys scope no_hooks (index + 1) (created @ [sha]) commits h1
      | (Inl e, h1) \<Rightarrow> (\<lparr>rr_created = created, rr_failure = Some (failed_at index commit e)\<rparr>, h1))"

definition session_run ::
  "replay_system \<Rightarrow> native_path \<Rightarrow> string \<Rightarrow> commits_payload \<Rightarrow> host \<Rightarrow> replay_result \<times> host" where
  "session_run sys scope no_hooks payload h = run_from sys scope no_hooks 0 [] (cp_commits payload) h"

text \<open>What a replay that could not start returns.\<close>

definition session_refused :: "commits_payload \<Rightarrow> string \<Rightarrow> replay_result" where
  "session_refused payload e =
     \<lparr>rr_created = [],
      rr_failure = (case cp_commits payload of [] \<Rightarrow> None | c # _ \<Rightarrow> Some (failed_at 0 c (plain_error e)))\<rparr>"

text \<open>An empty directory for the hooks; its name is in the temporary directory.\<close>

definition no_hooks_create ::
  "replay_system \<Rightarrow> native_path \<Rightarrow> host \<Rightarrow> (string + string) \<times> host" where
  "no_hooks_create sys dir h =
     (case mkdir h dir of
        Inl e \<Rightarrow> (Inl (rs_io_text sys e), h)
      | Inr h1 \<Rightarrow>
          if valid_utf8 (path_string dir) then (Inr (''core.hooksPath='' @ path_string dir), h1)
          else (Inl ''temp directory is not UTF-8'',
            case remove_dir h1 dir of Inl _ \<Rightarrow> h1 | Inr h2 \<Rightarrow> h2))"

text \<open>A session begins, runs and drops its directory.\<close>

definition replay_session ::
  "replay_system \<Rightarrow> native_path \<Rightarrow> native_path \<Rightarrow> commits_payload \<Rightarrow> host \<Rightarrow> replay_result \<times> host" where
  "replay_session sys hooks_dir scope payload h =
     (case no_hooks_create sys hooks_dir h of
        (Inl e, h1) \<Rightarrow> (session_refused payload (''cannot create an empty hooks directory: '' @ e), h1)
      | (Inr no_hooks, h1) \<Rightarrow>
          (let (result, h2) = session_run sys scope no_hooks payload h1 in
           (result, case remove_dir h2 hooks_dir of Inl _ \<Rightarrow> h2 | Inr h3 \<Rightarrow> h3)))"

end
