(* ===== verification/Commit_Replay_Correct.thy ===== *)
theory Commit_Replay_Correct
  imports Commit_Replay Restore_Correct
begin

text \<open>
  Facts about \<open>Commit_Replay\<close>: where a replay may change the file system, and what it reports.
\<close>

section \<open>Disks\<close>

text \<open>Every node lies in a directory, and its directory lists it.\<close>

definition listing_ok :: "host \<Rightarrow> bool" where
  "listing_ok h \<longleftrightarrow> (\<forall>q c. node_at h (q @ [c]) \<noteq> None \<longrightarrow> c \<in> set (host_listing h q))"

definition disk_ok :: "host \<Rightarrow> bool" where
  "disk_ok h \<longleftrightarrow> tree_ok h \<and> listing_ok h"

lemma disk_okD: "disk_ok h \<Longrightarrow> tree_ok h" "disk_ok h \<Longrightarrow> listing_ok h"
  by (simp_all add: disk_ok_def)

lemma listing_ok_set_node:
  assumes "listing_ok h" and "e \<noteq> []" shows "listing_ok (set_node h e n)"
  unfolding listing_ok_def
proof (intro allI impI)
  fix q c
  assume some: "node_at (set_node h e n) (q @ [c]) \<noteq> None"
  show "c \<in> set (host_listing (set_node h e n) q)"
  proof (cases "q @ [c] = e")
    case True
    then have "butlast e = q" "last e = c" by auto
    with some True show ?thesis by (auto simp: set_node_def Let_def)
  next
    case False
    with some have old: "c \<in> set (host_listing h q)"
      using assms(1) by (auto simp: listing_ok_def)
    show ?thesis
    proof (cases "q = butlast e")
      case True
      then have "c \<noteq> last e" using False assms(2) by (metis append_butlast_last_id)
      with old True show ?thesis by (auto simp: set_node_def Let_def)
    next
      case False
      with old show ?thesis by (simp add: set_node_def)
    qed
  qed
qed

lemma lookup_not_root: "lookup_node h e \<noteq> Some Directory \<Longrightarrow> e \<noteq> []"
  by (auto simp: lookup_node_def)

lemma mkdir_listing:
  assumes "mkdir h p = Inr h'" and "listing_ok h" shows "listing_ok h'"
proof -
  from assms(1) obtain e where "lookup_node h e = None" "h' = set_node h e (Some Directory)"
    by (auto simp: mkdir_def split: sum.splits if_splits)
  moreover from this have "e \<noteq> []" using lookup_not_root [of h e] by simp
  ultimately show ?thesis using listing_ok_set_node [OF assms(2)] by simp
qed

lemma create_dirs_listing: "create_dirs h p k = (r, h') \<Longrightarrow> listing_ok h \<Longrightarrow> listing_ok h'"
proof (induction k arbitrary: r h')
  case 0
  then show ?case
    by (auto simp: Let_def split: if_splits sum.splits dest: mkdir_listing)
next
  case (Suc k)
  obtain r1 h1 where rec: "create_dirs h p k = (r1, h1)" by fastforce
  with Suc show ?case
    by (auto simp: Let_def split: if_splits sum.splits option.splits dest: mkdir_listing)
qed

lemma rename_listing:
  assumes "rename_entry h old p = Inr h'" and "old \<noteq> []" and "listing_ok h" shows "listing_ok h'"
proof -
  from assms(1) obtain e where "lookup_node h e \<noteq> Some Directory"
    "h' = h \<or> h' = set_node (set_node h e (node_at h old)) old None"
    by (auto simp: rename_entry_def split: sum.splits if_splits)
  with lookup_not_root [of h e] show ?thesis
    using listing_ok_set_node [OF listing_ok_set_node [OF assms(3)] assms(2), of e] assms(3) by blast
qed

lemma write_in_dir_listing:
  assumes w: "write_in_dir h p d content = (r, h')" and l: "listing_ok h" shows "listing_ok h'"
proof -
  let ?tmp = "d @ [host_temp_name h d]"
  let ?h2 = "set_node h ?tmp (Some (Regular content))"
  have l2: "listing_ok ?h2" and l3: "listing_ok (set_node ?h2 ?tmp None)"
    using l by (simp_all add: listing_ok_set_node)
  from w have "h' = h \<or> h' = set_node ?h2 ?tmp None \<or> rename_entry ?h2 ?tmp p = Inr h'"
    by (auto simp: write_in_dir_def Let_def split: sum.splits if_splits)
  with l l3 rename_listing [OF _ _ l2, of ?tmp p h'] show ?thesis by auto
qed

lemma tree_ok_real_dir:
  assumes tree: "tree_ok h" shows "lookup_node h p = Some Directory \<Longrightarrow> \<forall>c\<in>set p. plain_name c \<Longrightarrow> real_dir h p"
proof (induction p rule: rev_induct)
  case Nil
  then show ?case by simp
next
  case (snoc c p)
  then have "node_at h (p @ [c]) \<noteq> None" by (simp add: lookup_node_def)
  with tree have "lookup_node h p = Some Directory" by (rule tree_okD)
  with snoc show ?case
    by (auto simp: real_dir_def [of h "p @ [c]"] real_path_snoc)
qed

lemma real_dir_prefix: "real_dir h p \<Longrightarrow> prefix q p \<Longrightarrow> real_dir h q"
proof (induction p rule: rev_induct)
  case Nil
  then show ?case by simp
next
  case (snoc c p)
  then show ?case
    by (cases "q = p @ [c]") (auto simp: real_dir_def [of h "p @ [c]"] real_path_snoc)
qed

lemma real_dir_dir: "real_dir h p \<Longrightarrow> lookup_node h p = Some Directory"
  by (simp add: real_dir_def)

section \<open>Paths without links\<close>

text \<open>No proper prefix of a path is a symbolic link.\<close>

definition free_of_links :: "host \<Rightarrow> string list \<Rightarrow> bool" where
  "free_of_links h p \<longleftrightarrow> (\<forall>j<length p. \<forall>t. lookup_node h (take j p) \<noteq> Some (Symlink t))"

lemma walk_free:
  assumes "walk h links cur ps = Inr d" and "\<forall>c\<in>set ps. plain_name c"
    and "\<And>j t. 0 < j \<Longrightarrow> j \<le> length ps \<Longrightarrow> lookup_node h (cur @ take j ps) \<noteq> Some (Symlink t)"
  shows "d = cur @ ps"
  using assms
proof (induction ps arbitrary: cur)
  case Nil
  then show ?case by simp
next
  case (Cons c ps)
  from Cons.prems(2) have pc: "plain_name c" by simp
  from Cons.prems(3) [of 1] have link: "lookup_node h (cur @ [c]) \<noteq> Some (Symlink t)" for t by simp
  show ?case
  proof (cases "lookup_node h (cur @ [c]) = Some Directory")
    case True
    with Cons.prems(1) have w: "walk h links (cur @ [c]) ps = Inr d" by (simp add: walk_plain [OF pc])
    have "d = (cur @ [c]) @ ps"
    proof (rule Cons.IH [OF w])
      show "lookup_node h ((cur @ [c]) @ take j ps) \<noteq> Some (Symlink t)" if "0 < j" "j \<le> length ps" for j t
        using Cons.prems(3) [of "Suc j" t] that by simp
    qed (use Cons.prems(2) in simp)
    then show ?thesis by simp
  next
    case False
    with Cons.prems(1) link have "ps = [] \<and> d = cur @ [c]"
      by (auto simp: walk_plain [OF pc] split: option.splits node.splits if_splits)
    then show ?thesis by simp
  qed
qed

lemma free_lookup: "free_of_links h p \<Longrightarrow> j < length p \<Longrightarrow> lookup_node h (take j p) \<noteq> Some (Symlink t)"
  by (auto simp: free_of_links_def lookup_node_def)

lemma walk_free_path:
  assumes "walk h links [] ps = Inr d" and "\<forall>c\<in>set ps. plain_name c"
    and "free_of_links h ps" and "\<And>t. lookup_node h ps \<noteq> Some (Symlink t)"
  shows "d = ps"
proof -
  have "lookup_node h (take j ps) \<noteq> Some (Symlink t)" if "0 < j" "j \<le> length ps" for j t
    using that assms(4) free_lookup [OF assms(3), of j t]
    by (cases "j = length ps") auto
  with walk_free [OF assms(1,2)] show ?thesis by simp
qed

lemma free_butlast: "free_of_links h (ps @ [c]) \<Longrightarrow> free_of_links h ps \<and> (\<forall>t. lookup_node h ps \<noteq> Some (Symlink t))"
  unfolding free_of_links_def
proof (intro conjI allI impI)
  assume f: "\<forall>j<length (ps @ [c]). \<forall>t. lookup_node h (take j (ps @ [c])) \<noteq> Some (Symlink t)"
  show "lookup_node h (take j ps) \<noteq> Some (Symlink t)" if "j < length ps" for j t
    using f [rule_format, of j t] that by simp
  show "lookup_node h ps \<noteq> Some (Symlink t)" for t
    using f [rule_format, of "length ps" t] by simp
qed

lemma entry_of_free:
  assumes "entry_of h (abs_path (ps @ [c])) = Inr e" and "\<forall>x\<in>set (ps @ [c]). plain_name x"
    and "free_of_links h (ps @ [c])"
  shows "e = ps @ [c]" and "lookup_node h ps = Some Directory"
proof -
  have pc: "plain_name c" using assms(2) by simp
  from assms(1) obtain d where d: "walk h (host_max_links h) [] ps = Inr d" "lookup_node h d = Some Directory"
    "e = d @ [c]"
    by (auto simp: entry_of_snoc [OF pc] split: sum.splits if_splits)
  have "d = ps"
    using walk_free_path [OF d(1)] free_butlast [OF assms(3)] assms(2) by simp
  with d show "e = ps @ [c]" and "lookup_node h ps = Some Directory" by simp_all
qed

lemma entry_of_real:
  assumes "real_dir h ps" and "plain_name c"
  shows "entry_of h (abs_path (ps @ [c])) = Inr (ps @ [c])"
proof -
  have "walk h (host_max_links h) [] ps = Inr ps"
    using walk_append_real [of h "[]" ps] assms(1) by (simp add: real_dir_def)
  with assms show ?thesis by (simp add: entry_of_snoc real_dir_dir)
qed

lemma existing_ancestor_Some:
  "existing_ancestor h p n = Some (k, d) \<Longrightarrow> k < n \<and> canonicalize h (p\<lparr>np_names := take k (np_names p)\<rparr>) = Inr d"
  by (induction n) (auto split: sum.splits)

lemma canonicalize_abs: "canonicalize h (abs_path ps) = walk h (host_max_links h) [] ps"
  by (simp add: canonicalize_def absolute_names_def abs_path_def)

text \<open>A path without links lands where it says.\<close>

lemma containment_target_free:
  assumes plain: "\<forall>c\<in>set ps. plain_name c" and free: "free_of_links h ps"
    and last: "\<And>t. lookup_node h ps \<noteq> Some (Symlink t)"
  shows "containment_target h (abs_path ps) 0 = Some (abs_path ps)"
proof -
  have "plain_names ps" using plain by (auto simp: plain_names_def plain_name_def)
  then have self: "absolutize h (abs_path ps) = abs_path ps"
    by (intro absolutize_absolute) (simp_all add: abs_path_def)
  have names: "np_names (abs_path ps) = ps" by (simp add: abs_path_def)
  show ?thesis
  proof (cases "canonicalize h (abs_path ps)")
    case (Inr d)
    then have "d = ps" using walk_free_path [OF _ plain free last] by (simp add: canonicalize_abs)
    with Inr self show ?thesis by (subst containment_target.simps) simp
  next
    case (Inl e)
    show ?thesis
    proof (cases "existing_ancestor h (abs_path ps) (length ps)")
      case None
      with Inl self names show ?thesis by (subst containment_target.simps) simp
    next
      case (Some kd)
      obtain k d where kd: "kd = (k, d)" by fastforce
      from existing_ancestor_Some [OF Some [unfolded kd]]
      have k: "k < length ps" and cd: "walk h (host_max_links h) [] (take k ps) = Inr d"
        using canonicalize_abs [of h "take k ps"] by (simp_all add: abs_path_def)
      have plaink: "\<forall>c\<in>set (take k ps). plain_name c" using plain by (auto dest: in_set_takeD)
      have freek: "free_of_links h (take k ps)"
        using free by (simp add: free_of_links_def min_def)
      have d: "d = take k ps"
        using walk_free_path [OF cd plaink freek] free k by (simp add: free_of_links_def)
      have first: "d @ [hd (drop k ps)] = take (Suc k) ps"
        using k d by (simp add: hd_drop_conv_nth take_Suc_conv_app_nth)
      have "symlink_metadata h (abs_path (take (Suc k) ps)) \<noteq> Inr (Symlink t)" for t
      proof
        assume s: "symlink_metadata h (abs_path (take (Suc k) ps)) = Inr (Symlink t)"
        have sn: "take (Suc k) ps = take k ps @ [ps ! k]" using k by (simp add: take_Suc_conv_app_nth)
        have pk: "plain_name (ps ! k)" using plain k by simp
        from s have "lookup_node h (take k ps @ [ps ! k]) = Some (Symlink t)"
          using cd d unfolding sn
          by (auto simp: symlink_metadata_def entry_of_snoc [OF pk] split: sum.splits option.splits if_splits)
        then have "lookup_node h (take (Suc k) ps) = Some (Symlink t)" by (simp add: sn)
        then show False
          using free last k by (cases "Suc k = length ps") (auto simp: free_of_links_def)
      qed
      then have "containment_target h (abs_path ps) 0 = Some (abs_path (d @ drop k ps))"
        using Inl self names Some kd first
        by (subst containment_target.simps) (auto simp: Let_def split: sum.split node.split)
      then show ?thesis using d by simp
    qed
  qed
qed

section \<open>Removing\<close>

lemma real_dir_keep:
  assumes "real_dir h p" and "\<And>q. prefix q p \<Longrightarrow> node_at h' q = node_at h q" shows "real_dir h' p"
proof -
  have "lookup_node h' q = lookup_node h q" if "prefix q p" for q
    using assms(2) [OF that] by (simp add: lookup_node_def)
  then have "lookup_node h' (take k p) = lookup_node h (take k p)" "lookup_node h' p = lookup_node h p" for k
    by (simp_all add: take_is_prefix)
  with assms(1) show ?thesis unfolding real_dir_def real_path_def by simp
qed

lemma free_of_links_keep:
  assumes "free_of_links h p" and "\<And>q t. node_at h' q = Some (Symlink t) \<Longrightarrow> prefix q p \<Longrightarrow> node_at h q = Some (Symlink t)"
  shows "free_of_links h' p"
  unfolding free_of_links_def
proof (intro allI impI notI)
  fix j t
  assume j: "j < length p" and l: "lookup_node h' (take j p) = Some (Symlink t)"
  then have "take j p \<noteq> []" "node_at h' (take j p) = Some (Symlink t)" by (auto simp: lookup_node_def split: if_splits)
  with assms(2) [of "take j p" t] have "lookup_node h (take j p) = Some (Symlink t)"
    by (simp add: lookup_node_def take_is_prefix)
  with assms(1) j show False by (auto simp: free_of_links_def)
qed

text \<open>The host with some entries gone.\<close>

definition removes :: "host \<Rightarrow> host \<Rightarrow> (string list \<Rightarrow> bool) \<Rightarrow> bool" where
  "removes h h' P \<longleftrightarrow> (\<forall>q. node_at h' q \<noteq> node_at h q \<longrightarrow> node_at h' q = None \<and> P q)"

lemma removes_refl [simp]: "removes h h P"
  by (simp add: removes_def)

lemma removes_mono: "removes h h' P \<Longrightarrow> (\<And>q. P q \<Longrightarrow> Q q) \<Longrightarrow> removes h h' Q"
  by (simp add: removes_def)

lemma removes_trans: "removes h h1 P \<Longrightarrow> removes h1 h2 P \<Longrightarrow> removes h h2 P"
  unfolding removes_def by metis

lemma removes_free: "removes h h' P \<Longrightarrow> free_of_links h p \<Longrightarrow> free_of_links h' p"
  by (rule free_of_links_keep [where h = h]) (auto simp: removes_def, metis option.distinct(1))

lemma removes_real_dir:
  assumes "removes h h' P" and "real_dir h s" and "\<And>q. P q \<Longrightarrow> lookup_node h q = Some Directory \<Longrightarrow> \<not> prefix q s"
  shows "real_dir h' s"
proof (rule real_dir_keep [OF assms(2)])
  fix q
  assume q: "prefix q s"
  have "lookup_node h q = Some Directory" using real_dir_dir [OF real_dir_prefix [OF assms(2) q]] .
  with q assms(1,3) show "node_at h' q = node_at h q" by (auto simp: removes_def)
qed

lemma disk_ok_remove:
  assumes disk: "disk_ok h" and e: "e \<noteq> []" and none: "\<And>c. node_at h (e @ [c]) = None"
  shows "disk_ok (set_node h e None)"
proof -
  have "tree_ok (set_node h e None)"
    unfolding tree_ok_def
  proof (intro allI impI)
    fix q c
    assume "node_at (set_node h e None) (q @ [c]) \<noteq> None"
    then have some: "node_at h (q @ [c]) \<noteq> None" by (auto split: if_splits)
    then have "lookup_node h q = Some Directory" using disk by (intro tree_okD) (simp add: disk_ok_def)
    moreover have "q \<noteq> e" using none some by auto
    ultimately show "lookup_node (set_node h e None) q = Some Directory" using e by (simp add: lookup_set_node)
  qed
  moreover have "listing_ok (set_node h e None)"
    using disk e by (simp add: disk_ok_def listing_ok_set_node)
  ultimately show ?thesis by (simp add: disk_ok_def)
qed

lemma leaf_no_children: "tree_ok h \<Longrightarrow> lookup_node h e \<noteq> Some Directory \<Longrightarrow> node_at h (e @ [c]) = None"
  using tree_okD by (metis not_None_eq)

lemma remove_dir_free:
  assumes disk: "disk_ok h" and plain: "\<forall>c\<in>set p. plain_name c" and free: "free_of_links h p"
    and r: "remove_dir h (abs_path p) = Inr h'"
  shows "disk_ok h'" and "removes h h' (\<lambda>q. q = p)" and "p \<noteq> []"
proof -
  from r obtain e where e: "entry_of h (abs_path p) = Inr e" "e \<noteq> []" "host_listing h e = []"
    and h': "h' = set_node h e None"
    by (auto simp: remove_dir_def split: sum.splits option.splits node.splits if_splits)
  show p: "p \<noteq> []"
    using e(1,2) by (auto simp: entry_of_def absolute_names_def abs_path_def)
  then obtain ps c where pc: "p = ps @ [c]" by (metis rev_exhaust)
  have ep: "e = p" using entry_of_free(1) [of h ps c e] e(1) plain free by (simp add: pc)
  have "node_at h (e @ [c]) = None" for c
    using disk e(3) by (auto simp: disk_ok_def listing_ok_def) (metis empty_iff list.set(1) not_None_eq)
  then show "disk_ok h'" unfolding h' by (intro disk_ok_remove [OF disk e(2)])
  show "removes h h' (\<lambda>q. q = p)" by (auto simp: removes_def h' ep)
qed

lemma is_contained_abs: "is_contained (abs_path q) (abs_path p) \<longleftrightarrow> prefix p q"
  by (simp add: is_contained_def abs_path_def starts_with_prefix)

lemma abs_path_eq [simp]: "abs_path p = abs_path q \<longleftrightarrow> p = q"
  by (simp add: abs_path_def)

lemma path_parent_abs: "path_parent (abs_path p) = (if p = [] then None else Some (abs_path (butlast p)))"
  by (simp add: path_parent_def abs_path_def)

lemma remove_parents_effect:
  assumes "disk_ok h" and "\<forall>c\<in>set p. plain_name c" and "free_of_links h p" and "real_dir h s"
  shows "disk_ok (remove_parents (abs_path s) (abs_path p) h) \<and>
    real_dir (remove_parents (abs_path s) (abs_path p) h) s \<and>
    removes h (remove_parents (abs_path s) (abs_path p) h) (\<lambda>q. prefix q p \<and> strict_prefix s q)"
  using assms
proof (induction p arbitrary: h rule: rev_induct)
  case Nil
  then show ?case by (subst (1 2 3) remove_parents.simps) (auto simp: is_contained_abs)
next
  case (snoc c p)
  show ?case
  proof (cases "p @ [c] = s \<or> \<not> prefix s (p @ [c])")
    case True
    then have "remove_parents (abs_path s) (abs_path (p @ [c])) h = h"
      by (subst remove_parents.simps) (auto simp: is_contained_abs)
    with snoc.prems show ?thesis by simp
  next
    case False
    then have inside: "strict_prefix s (p @ [c])" by (auto simp: strict_prefix_def)
    show ?thesis
    proof (cases "remove_dir h (abs_path (p @ [c]))")
      case (Inl e)
      with False have "remove_parents (abs_path s) (abs_path (p @ [c])) h = h"
        by (subst remove_parents.simps) (simp add: is_contained_abs)
      with snoc.prems show ?thesis by simp
    next
      case (Inr h1)
      with False have eq: "remove_parents (abs_path s) (abs_path (p @ [c])) h = remove_parents (abs_path s) (abs_path p) h1"
        by (subst remove_parents.simps) (simp add: is_contained_abs path_parent_abs)
      note d = remove_dir_free [OF snoc.prems(1-3) Inr]
      have free: "free_of_links h1 p"
        using removes_free [OF d(2)] free_butlast [OF snoc.prems(3)] by blast
      have rd: "real_dir h1 s"
      proof (rule removes_real_dir [OF d(2) snoc.prems(4)])
        show "\<not> prefix q s" if "q = p @ [c]" for q
          using that inside by (meson prefix_order.less_le_not_le)
      qed
      have "disk_ok (remove_parents (abs_path s) (abs_path p) h1) \<and>
          real_dir (remove_parents (abs_path s) (abs_path p) h1) s \<and>
          removes h1 (remove_parents (abs_path s) (abs_path p) h1) (\<lambda>q. prefix q p \<and> strict_prefix s q)"
        using snoc.IH [OF d(1) _ free rd] snoc.prems(2) by simp
      moreover have "removes h h1 (\<lambda>q. prefix q (p @ [c]) \<and> strict_prefix s q)"
        by (rule removes_mono [OF d(2)]) (simp add: inside)
      ultimately show ?thesis
        unfolding eq by (auto intro: removes_trans elim: removes_mono)
    qed
  qed
qed

lemma delete_file_free:
  assumes disk: "disk_ok h" and plain: "\<forall>x\<in>set p. plain_name x" and free: "free_of_links h p"
    and d: "delete_file h (abs_path p) = (r, h')"
  shows "disk_ok h'" and "removes h h' (\<lambda>q. q = p \<and> lookup_node h p \<noteq> Some Directory)"
    and "r = None \<Longrightarrow> p \<noteq> [] \<and> lookup_node h (butlast p) = Some Directory"
proof -
  have "disk_ok h' \<and> removes h h' (\<lambda>q. q = p \<and> lookup_node h p \<noteq> Some Directory) \<and>
      (r = None \<longrightarrow> p \<noteq> [] \<and> lookup_node h (butlast p) = Some Directory)"
  proof (cases r)
    case (Some e)
    with d have "h' = h" by (auto simp: delete_file_def split: sum.splits option.splits node.splits if_splits)
    with disk Some show ?thesis by simp
  next
    case None
    with d obtain e where e: "entry_of h (abs_path p) = Inr e" "lookup_node h e \<noteq> Some Directory"
      and h': "h' = set_node h e None"
      by (auto simp: delete_file_def split: sum.splits option.splits node.splits if_splits)
    have "p \<noteq> []"
      using e by (auto simp: entry_of_def absolute_names_def abs_path_def lookup_node_def)
    then obtain ps c where pc: "p = ps @ [c]" by (metis rev_exhaust)
    have ep: "e = p" and dir: "lookup_node h ps = Some Directory"
      using entry_of_free [of h ps c e] e(1) plain free by (simp_all add: pc)
    have "disk_ok h'"
      unfolding h' using disk e(2) lookup_not_root [OF e(2)]
      by (intro disk_ok_remove [OF disk]) (auto simp: disk_ok_def intro: leaf_no_children)
    moreover have "removes h h' (\<lambda>q. q = p \<and> lookup_node h p \<noteq> Some Directory)"
      using e(2) by (auto simp: removes_def h' ep)
    ultimately show ?thesis using dir by (simp add: pc)
  qed
  then show "disk_ok h'" and "removes h h' (\<lambda>q. q = p \<and> lookup_node h p \<noteq> Some Directory)"
    and "r = None \<Longrightarrow> p \<noteq> [] \<and> lookup_node h (butlast p) = Some Directory"
    by simp_all
qed

section \<open>The check of a target\<close>

lemma real_or_self_real: "real_path h s \<Longrightarrow> real_or_self h (abs_path s) = abs_path s"
proof -
  assume r: "real_path h s"
  then have "plain_names s" by (auto simp: real_path_def plain_names_def plain_name_def)
  then have self: "absolutize h (abs_path s) = abs_path s"
    by (intro absolutize_absolute) (simp_all add: abs_path_def)
  have "containment_target h (abs_path s) 0 = Some (abs_path s)"
    using self canonicalize_real_path [OF r] by (subst containment_target.simps) simp
  then show ?thesis by (simp add: real_or_self_def)
qed

text \<open>A target that is no link lies in the scope by its name, and its directory in no Git directory.\<close>

lemma safe_target:
  assumes safe: "\<not> unsafe_replay_target h (abs_path s) (abs_path p)"
    and plain: "\<forall>x\<in>set p. plain_name x" and free: "free_of_links h p" and s: "real_dir h s"
  shows "prefix s p \<or> (\<exists>t. node_at h p = Some (Symlink t))" and "\<not> in_git_dir h (butlast p)" and "p \<noteq> []"
proof -
  have "\<exists>parent. path_parent (abs_path p) = Some parent \<and> \<not> lands_in_git_dir h parent"
    using safe by (auto simp: unsafe_replay_target_def split: option.splits)
  then show ne: "p \<noteq> []" by (auto simp: path_parent_abs)
  with safe have g: "\<not> lands_in_git_dir h (abs_path (butlast p))"
    by (simp add: unsafe_replay_target_def path_parent_abs)
  obtain ps c where pc: "p = ps @ [c]" using ne by (metis rev_exhaust)
  have "containment_target h (abs_path ps) 0 = Some (abs_path ps)"
    using plain free_butlast [of h ps c] free by (intro containment_target_free) (simp_all add: pc)
  with g show "\<not> in_git_dir h (butlast p)" by (simp add: lands_in_git_dir_def in_git_dir_def pc)
  show "prefix s p \<or> (\<exists>t. node_at h p = Some (Symlink t))"
  proof (rule disjCI)
    assume "\<nexists>t. node_at h p = Some (Symlink t)"
    then have "containment_target h (abs_path p) 0 = Some (abs_path p)"
      using plain free by (intro containment_target_free) (auto simp: lookup_node_def)
    moreover have "real_or_self h (abs_path s) = abs_path s"
      using s by (intro real_or_self_real) (simp add: real_dir_def)
    ultimately show "prefix s p"
      using safe by (simp add: unsafe_replay_target_def escapes_all_roots_def is_contained_abs)
  qed
qed

lemma in_git_dir_butlast: "prefix q p \<Longrightarrow> \<not> in_git_dir h (butlast p) \<Longrightarrow> \<not> in_git_dir h (butlast q)"
proof -
  assume q: "prefix q p" and g: "\<not> in_git_dir h (butlast p)"
  have "prefix (butlast q) (butlast p)"
  proof (rule prefix_length_prefix)
    show "prefix (butlast q) p" using prefixeq_butlast q by (rule prefix_order.trans)
    show "length (butlast q) \<le> length (butlast p)" using prefix_length_le [OF q] by simp
  qed (rule prefixeq_butlast)
  with g show ?thesis using in_git_dir_prefix by blast
qed

section \<open>Writing\<close>

text \<open>A write of a path without links: the entry, and new directories above it.\<close>

definition writes :: "host \<Rightarrow> host \<Rightarrow> string list \<Rightarrow> string \<Rightarrow> bool" where
  "writes h h' p content \<longleftrightarrow>
     (\<forall>q. node_at h' q \<noteq> node_at h q \<longrightarrow>
        (q = p \<and> lookup_node h p \<noteq> Some Directory \<and> node_at h' q = Some (Regular content)) \<or>
        (strict_prefix q p \<and> lookup_node h q = None \<and> node_at h' q = Some Directory))"

lemma writes_refl: "node_at h' = node_at h \<Longrightarrow> writes h h' p content"
  by (simp add: writes_def)

lemma writes_free: "writes h h' p content \<Longrightarrow> free_of_links h q \<Longrightarrow> free_of_links h' q"
  by (rule free_of_links_keep [where h = h]) (auto simp: writes_def, metis node.distinct option.inject)

lemma created_dirs_free:
  assumes tree: "tree_ok h" and plain: "\<forall>x\<in>set ps. plain_name x" and free: "free_of_links h (ps @ [c])"
    and made: "dirs_created h h1 ps (length ps) b"
  shows "tree_ok h1" and "writes h h1 (ps @ [c]) content" and "node_at h1 (ps @ [c]) = node_at h (ps @ [c])"
proof -
  from made obtain m d j where m: "m < length ps" and j: "0 < j" "j \<le> length ps - m"
    and d: "walk h (host_max_links h) [] (take m ps) = Inr d" "lookup_node h d = Some Directory"
      "lookup_node h (d @ [ps ! m]) = None"
    and chain: "chain_added h h1 d (take j (drop m ps))"
    by (auto simp: dirs_created_def)
  have fm: "free_of_links h (take m ps)" "\<And>t. lookup_node h (take m ps) \<noteq> Some (Symlink t)"
    using free_butlast [OF free] m by (auto simp: free_of_links_def min_def)
  have dm: "d = take m ps"
    using walk_free_path [OF d(1) _ fm] plain by (auto dest: in_set_takeD)
  have hd: "take j (drop m ps) \<noteq> []" "hd (take j (drop m ps)) = ps ! m"
    using j m by (simp_all add: hd_drop_conv_nth)
  show "tree_ok h1" using tree_ok_chain [OF tree d(2) chain] hd d(3) by simp
  have new: "strict_prefix q (ps @ [c]) \<and> lookup_node h q = None \<and> node_at h1 q = Some Directory"
    if "node_at h1 q \<noteq> node_at h q" for q
  proof -
    from chain_added_changed [OF chain that] obtain i where i: "0 < i" "i \<le> length (take j (drop m ps))"
      "q = d @ take i (take j (drop m ps))" and dir: "node_at h1 q = Some Directory" by blast
    have "q = take (m + i) ps" using i dm by (simp add: take_add)
    then have "prefix q ps" by (simp add: take_is_prefix)
    then have "strict_prefix q (ps @ [c])" by (auto simp: strict_prefix_def prefix_def)
    moreover have "q = (d @ [ps ! m]) @ tl (take i (take j (drop m ps)))"
    proof -
      have "take i (take j (drop m ps)) = ps ! m # tl (take i (take j (drop m ps)))"
        using i(1) hd by (cases i; cases "take j (drop m ps)") auto
      with i(3) show ?thesis by (metis append.assoc append_Cons append_Nil)
    qed
    with tree_ok_missing [OF tree d(3)] have "lookup_node h q = None"
      by (metis append_is_Nil_conv list.distinct(1) lookup_node_def)
    ultimately show ?thesis using dir by simp
  qed
  show "writes h h1 (ps @ [c]) content" using new by (auto simp: writes_def)
  show "node_at h1 (ps @ [c]) = node_at h (ps @ [c])" using new [of "ps @ [c]"] by auto
qed

lemma write_text_file_free:
  assumes disk: "disk_ok h" and plain: "\<forall>x\<in>set p. plain_name x" and free: "free_of_links h p" and "p \<noteq> []"
    and w: "write_text_file h (abs_path p) content = (r, h')"
  shows "disk_ok h'" and "writes h h' p content"
proof -
  obtain ps c where pc: "p = ps @ [c]" using assms(4) by (metis rev_exhaust)
  obtain r1 h1 where cd: "create_dirs h (abs_path ps) (length ps) = (r1, h1)" by fastforce
  have l1: "listing_ok h1" using create_dirs_listing [OF cd] disk by (simp add: disk_ok_def)
  from create_dirs_cases [OF _ _ order_refl cd] disk plain
  have "h1 = h \<or> dirs_created h h1 ps (length ps) (r1 = None)" by (auto simp: disk_ok_def pc)
  then have one: "tree_ok h1" "writes h h1 p content" "node_at h1 p = node_at h p"
    using created_dirs_free [of h ps c h1] disk plain free writes_refl [of h1 h p content]
    by (auto simp: disk_ok_def pc)
  have free1: "free_of_links h1 p" using writes_free [OF one(2) free] .
  show "disk_ok h'" and "writes h h' p content"
  proof -
    have "disk_ok h' \<and> writes h h' p content"
    proof (cases "r1 = None \<and> (\<exists>d. walk h1 (host_max_links h1) [] ps = Inr d)")
      case False
      with w cd have "h' = h1"
        by (auto simp: pc write_text_file_snoc split: option.splits sum.splits)
      with one l1 show ?thesis by (simp add: disk_ok_def)
    next
      case True
      then obtain d where d: "walk h1 (host_max_links h1) [] ps = Inr d" and r1: "r1 = None" by blast
      have dps: "d = ps"
        using walk_free_path [OF d] plain free_butlast free1 by (simp add: pc)
      from w cd d r1 have wd: "write_in_dir h1 (abs_path (ps @ [c])) ps content = (r, h')"
        by (simp add: pc write_text_file_snoc dps)
      have pcn: "plain_name c" using plain by (simp add: pc)
      note e = write_in_dir_effect [OF d [unfolded dps] pcn one(1) wd]
      have disk': "disk_ok h'" using e write_in_dir_listing [OF wd l1] by (simp add: disk_ok_def)
      show ?thesis
      proof (cases "r = None")
        case False
        with e one(2) have "writes h h' p content" by (simp add: writes_def)
        with disk' show ?thesis by simp
      next
        case True
        with e have dir: "lookup_node h1 ps = Some Directory"
          and node: "node_at h' = (node_at h1)(p := Some (Regular content))" by (simp_all add: pc)
        from write_in_dir_cases [OF d [unfolded dps] dir pcn wd] True
        have "lookup_node h1 p \<noteq> Some Directory" by (simp add: pc)
        then have "lookup_node h p \<noteq> Some Directory" using one(3) assms(4) by (simp add: lookup_node_def)
        with one(2) node have "writes h h' p content" by (auto simp: writes_def strict_prefix_def)
        with disk' show ?thesis by simp
      qed
    qed
    then show "disk_ok h'" and "writes h h' p content" by simp_all
  qed
qed

lemma writes_real_dir:
  assumes "writes h h' p content" and "real_dir h s" shows "real_dir h' s"
proof (rule real_dir_keep [OF assms(2)])
  fix q
  assume q: "prefix q s"
  have "lookup_node h q = Some Directory" using real_dir_dir [OF real_dir_prefix [OF assms(2) q]] .
  with assms(1) show "node_at h' q = node_at h q" by (auto simp: writes_def)
qed

section \<open>What a replay may change\<close>

text \<open>
  \<open>R\<close> is the real path of the repository, \<open>S\<close> of the scope, \<open>P\<close> the paths a payload names.  A path
  is touched when a name of the payload goes through it or ends there.
\<close>

definition touched :: "string list \<Rightarrow> string set \<Rightarrow> string list \<Rightarrow> bool" where
  "touched R P q \<longleftrightarrow> (\<exists>rel\<in>P. \<not> has_git_segment rel \<and> strict_prefix R q \<and> prefix q (R @ split_char slash rel))"

definition probe_entry :: "replay_system \<Rightarrow> string list \<Rightarrow> string list \<Rightarrow> bool" where
  "probe_entry sys R q \<longleftrightarrow> (\<exists>h. q = R @ [probe_name sys h] \<or> q = R @ [swapped_probe_name sys h])"

definition gits_own :: "replay_system \<Rightarrow> string list \<Rightarrow> string list \<Rightarrow> bool" where
  "gits_own sys R q \<longleftrightarrow> ''.git'' \<in> set q \<or> probe_entry sys R q"

text \<open>
  A touched entry strictly inside the scope, or one that was a symbolic link; else Git's own files and
  the probe for case sensitivity.
\<close>

definition may_change ::
  "replay_system \<Rightarrow> string list \<Rightarrow> string list \<Rightarrow> string set \<Rightarrow> host \<Rightarrow> string list \<Rightarrow> bool" where
  "may_change sys R S P h q \<longleftrightarrow>
     touched R P q \<and> (strict_prefix S q \<or> (\<exists>t. node_at h q = Some (Symlink t))) \<or> gits_own sys R q"

text \<open>One operation: nothing in a Git directory.\<close>

definition replay_op :: "replay_system \<Rightarrow> string list \<Rightarrow> host \<Rightarrow> host \<Rightarrow> bool" where
  "replay_op sys R h h' \<longleftrightarrow>
     (\<forall>q. node_at h' q \<noteq> node_at h q \<longrightarrow> \<not> in_git_dir h (butlast q) \<or> gits_own sys R q)"

definition no_new_links :: "host \<Rightarrow> host \<Rightarrow> bool" where
  "no_new_links h h' \<longleftrightarrow>
     (\<forall>q t. ''.git'' \<notin> set q \<longrightarrow> node_at h' q = Some (Symlink t) \<longrightarrow> (\<exists>t. node_at h q = Some (Symlink t)))"

definition confined ::
  "replay_system \<Rightarrow> string list \<Rightarrow> string list \<Rightarrow> string set \<Rightarrow> host \<Rightarrow> host \<Rightarrow> bool" where
  "confined sys R S P h h' \<longleftrightarrow>
     disk_ok h' \<and> real_dir h' S \<and> no_new_links h h' \<and> (replay_op sys R)\<^sup>*\<^sup>* h h' \<and>
     (\<forall>q. node_at h' q \<noteq> node_at h q \<longrightarrow> may_change sys R S P h q)"

lemma confined_refl: "disk_ok h \<Longrightarrow> real_dir h S \<Longrightarrow> confined sys R S P h h"
  by (auto simp: confined_def no_new_links_def)

lemma confined_trans:
  assumes "confined sys R S P h h1" and "confined sys R S P h1 h2" shows "confined sys R S P h h2"
proof -
  have links: "\<exists>t. node_at h q = Some (Symlink t)" if "node_at h1 q = Some (Symlink t)" "''.git'' \<notin> set q" for q t
    using assms(1) that unfolding confined_def no_new_links_def by blast
  have "may_change sys R S P h q" if "node_at h2 q \<noteq> node_at h q" for q
  proof (cases "node_at h1 q = node_at h q")
    case True
    with that assms(2) have "may_change sys R S P h1 q" by (auto simp: confined_def)
    with links show ?thesis by (auto simp: may_change_def gits_own_def)
  next
    case False
    with assms(1) show ?thesis by (simp add: confined_def)
  qed
  moreover have "no_new_links h h2"
    using assms links unfolding confined_def no_new_links_def by blast
  ultimately show ?thesis using assms by (auto simp: confined_def)
qed

lemma confined_disk: "confined sys R S P h h' \<Longrightarrow> disk_ok h' \<and> real_dir h' S"
  by (simp add: confined_def)

lemma confined_free:
  assumes "confined sys R S P h h'" and "free_of_links h p" and "''.git'' \<notin> set p"
  shows "free_of_links h' p"
proof -
  have "lookup_node h' (take j p) \<noteq> Some (Symlink t)" if "j < length p" for j t
  proof
    assume l: "lookup_node h' (take j p) = Some (Symlink t)"
    then have ne: "take j p \<noteq> []" using lookup_not_root [of h' "take j p"] by simp
    with l have "node_at h' (take j p) = Some (Symlink t)" by (simp add: lookup_node_def)
    moreover have "''.git'' \<notin> set (take j p)" using assms(3) by (auto dest: in_set_takeD)
    ultimately have "\<exists>t. node_at h (take j p) = Some (Symlink t)"
      using assms(1) by (auto simp: confined_def no_new_links_def)
    with assms(2) that ne show False by (auto simp: free_of_links_def lookup_node_def)
  qed
  then show ?thesis by (simp add: free_of_links_def)
qed

text \<open>The names of a path a payload may use.\<close>

definition usable :: "string \<Rightarrow> bool" where
  "usable rel \<longleftrightarrow> clean_rel rel \<and> \<not> has_git_segment rel"

lemma usable_names:
  assumes "usable rel"
  shows "\<forall>c\<in>set (split_char slash rel). plain_name c" and "''.git'' \<notin> set (split_char slash rel)"
    and "split_char slash rel \<noteq> []"
proof -
  show "\<forall>c\<in>set (split_char slash rel). plain_name c"
    using assms by (auto simp: usable_def clean_rel_def plain_name_def bad_segment_def)
  have "backslash \<notin> set rel"
    using assms by (simp add: usable_def clean_rel_iff)
  then have "map (\<lambda>c. if c = backslash then slash else c) rel = rel"
    by (induction rel) auto
  moreover have "trim_end (\<lambda>c. c = CHR ''.'' \<or> c = CHR '' '') ''.git'' = ''.git''" by code_simp
  ultimately show "''.git'' \<notin> set (split_char slash rel)"
    using assms by (auto simp: usable_def has_git_segment_def split_slashes_def list_ex_iff eq_ignore_ascii_case_def)
  show "split_char slash rel \<noteq> []" by simp
qed

section \<open>The steps of a replay\<close>

text \<open>A path of the payload in a repository: all that the steps need to know of it.\<close>

definition payload_target :: "string list \<Rightarrow> string list \<Rightarrow> string set \<Rightarrow> host \<Rightarrow> string list \<Rightarrow> bool" where
  "payload_target R S P h p \<longleftrightarrow>
     (\<exists>rel\<in>P. usable rel \<and> p = R @ split_char slash rel) \<and> prefix R S \<and> ''.git'' \<notin> set S \<and> free_of_links h p"

lemma payload_target_facts:
  assumes "payload_target R S P h p" and "real_dir h S"
  shows "\<forall>c\<in>set p. plain_name c" and "''.git'' \<notin> set p" and "strict_prefix R p" and "p \<noteq> []"
    and "real_dir h R"
    and "\<And>q. strict_prefix R q \<Longrightarrow> prefix q p \<Longrightarrow> touched R P q"
proof -
  from assms(1) obtain rel where rel: "rel \<in> P" "usable rel" "p = R @ split_char slash rel"
    and pre: "prefix R S" "''.git'' \<notin> set S" by (auto simp: payload_target_def)
  from pre(1) assms(2) show rd: "real_dir h R" using real_dir_prefix by blast
  then show "\<forall>c\<in>set p. plain_name c" using usable_names(1) [OF rel(2)] rel(3) by (auto simp: real_dir_def real_path_def)
  from pre show "''.git'' \<notin> set p" using usable_names(2) [OF rel(2)] rel(3) by (auto simp: prefix_def)
  show "strict_prefix R p" "p \<noteq> []" using usable_names(3) [OF rel(2)] rel(3) by (auto simp: strict_prefix_def)
  show "touched R P q" if "strict_prefix R q" "prefix q p" for q
    using that rel by (auto simp: touched_def usable_def)
qed

lemma payload_target_confined:
  "payload_target R S P h p \<Longrightarrow> real_dir h S \<Longrightarrow> confined sys R S P h h' \<Longrightarrow> payload_target R S P h' p"
  using payload_target_facts(2) confined_free by (simp add: payload_target_def)

lemma removes_confined:
  assumes disk: "disk_ok h'" "real_dir h' S" and t: "payload_target R S P h p" "real_dir h S"
    and g: "\<not> in_git_dir h (butlast p)"
    and r: "removes h h' (\<lambda>q. (prefix q p \<and> strict_prefix S q) \<or>
      (q = p \<and> (strict_prefix S p \<or> (\<exists>t. node_at h p = Some (Symlink t)))))"
  shows "confined sys R S P h h'"
proof -
  have RS: "prefix R S" using t(1) by (simp add: payload_target_def)
  have c: "prefix q p \<and> touched R P q \<and> (strict_prefix S q \<or> (\<exists>t. node_at h q = Some (Symlink t)))"
    if "node_at h' q \<noteq> node_at h q" for q
  proof -
    from r that have q: "(prefix q p \<and> strict_prefix S q) \<or>
        (q = p \<and> (strict_prefix S p \<or> (\<exists>t. node_at h p = Some (Symlink t))))"
      by (auto simp: removes_def)
    then have "strict_prefix R q"
      using RS payload_target_facts(3) [OF t] by (auto intro: prefix_order.le_less_trans)
    with q payload_target_facts(6) [OF t, of q] show ?thesis by auto
  qed
  have links: "no_new_links h h'"
    using r by (auto simp: no_new_links_def removes_def) (metis option.distinct(1))
  have "replay_op sys R h h'"
    using c in_git_dir_butlast g by (auto simp: replay_op_def)
  with c disk links show ?thesis by (auto simp: confined_def may_change_def)
qed

lemma delete_target_step:
  assumes disk: "disk_ok h" "real_dir h S" and t: "payload_target R S P h p"
    and d: "delete_target sys (abs_path S) (abs_path p, rel) h = (r, h')"
  shows "confined sys R S P h h'"
proof (cases "unsafe_replay_target h (abs_path S) (abs_path p)")
  case True
  with d disk show ?thesis by (simp add: delete_target_def confined_refl)
next
  case False
  note f = payload_target_facts [OF t disk(2)]
  have free: "free_of_links h p" using t by (simp add: payload_target_def)
  note safe = safe_target [OF False f(1) free disk(2)]
  obtain e h1 where df: "delete_file h (abs_path p) = (e, h1)" by fastforce
  note del = delete_file_free [OF disk(1) f(1) free df]
  have rd1: "real_dir h1 S"
    by (rule removes_real_dir [OF del(2) disk(2)]) auto
  have one: "removes h h1 (\<lambda>q. q = p \<and> (strict_prefix S p \<or> (\<exists>t. node_at h p = Some (Symlink t))))"
    by (rule removes_mono [OF del(2)]) (use safe(1) real_dir_dir [OF disk(2)] in \<open>auto simp: strict_prefix_def\<close>)
  show ?thesis
  proof (cases e)
    case (Some x)
    with d df False have "h' = h1" by (auto simp: delete_target_def split: if_splits)
    then show ?thesis
      by (intro removes_confined [OF _ _ t disk(2) safe(2)])
        (use del(1) rd1 removes_mono [OF one] in auto)
  next
    case None
    have pb: "path_parent (abs_path p) = Some (abs_path (butlast p))" using f(4) by (simp add: path_parent_abs)
    have "real_bound h1 (abs_path S) = abs_path S"
      using rd1 by (simp add: real_bound_def real_dir_def canonicalize_real_path)
    with d df False None pb have h': "h' = remove_parents (abs_path S) (abs_path (butlast p)) h1"
      by (simp add: delete_target_def)
    have "p = butlast p @ [last p]" using f(4) by simp
    then have "free_of_links h1 (butlast p)"
      using free_butlast [of h1 "butlast p" "last p"] removes_free [OF del(2) free] by metis
    from remove_parents_effect [OF del(1) _ this rd1] f(1)
    have par: "disk_ok h'" "real_dir h' S" "removes h1 h' (\<lambda>q. prefix q (butlast p) \<and> strict_prefix S q)"
      by (auto simp: h' dest: in_set_butlastD)
    have "removes h1 h' (\<lambda>q. (prefix q p \<and> strict_prefix S q) \<or>
        (q = p \<and> (strict_prefix S p \<or> (\<exists>t. node_at h p = Some (Symlink t)))))"
      by (rule removes_mono [OF par(3)]) (auto intro: prefix_order.trans [OF _ prefixeq_butlast])
    moreover have "removes h h1 (\<lambda>q. (prefix q p \<and> strict_prefix S q) \<or>
        (q = p \<and> (strict_prefix S p \<or> (\<exists>t. node_at h p = Some (Symlink t)))))"
      by (rule removes_mono [OF one]) auto
    ultimately show ?thesis
      by (intro removes_confined [OF par(1,2) t disk(2) safe(2)]) (rule removes_trans)
  qed
qed

text \<open>
  A write is checked against the scope before the deletions, at \<open>h1\<close>, and against the repository when
  it happens.
\<close>

definition in_scope :: "string list \<Rightarrow> host \<Rightarrow> string list \<Rightarrow> bool" where
  "in_scope S h p \<longleftrightarrow> prefix S p \<or> (\<exists>t. node_at h p = Some (Symlink t))"

lemma strict_below_dir:
  assumes "real_dir h s" and "lookup_node h q \<noteq> Some Directory" and "prefix s p" and "prefix q p"
  shows "strict_prefix s q"
proof -
  have "\<not> prefix q s" using assms(2) real_dir_dir [OF real_dir_prefix [OF assms(1)]] by blast
  with prefix_same_cases [OF assms(3,4)] show ?thesis by (auto simp: strict_prefix_def)
qed

lemma write_step:
  assumes h1: "disk_ok h1" "real_dir h1 S" and t: "payload_target R S P h1 p" and scope: "in_scope S h1 p"
    and base: "confined sys R S P h1 h" and safe: "\<not> unsafe_replay_target h (abs_path R) (abs_path p)"
    and w: "write_text_file h (abs_path p) content = (r, h')"
  shows "confined sys R S P h1 h'"
proof -
  have disk: "disk_ok h" "real_dir h S" using confined_disk [OF base] by simp_all
  note th = payload_target_confined [OF t h1(2) base]
  note f = payload_target_facts [OF th disk(2)]
  have free: "free_of_links h p" using th by (simp add: payload_target_def)
  note wr = write_text_file_free [OF disk(1) f(1) free f(4) w]
  have rd: "real_dir h' S" using writes_real_dir [OF wr(2) disk(2)] .
  have git: "\<not> in_git_dir h (butlast p)" by (rule safe_target(2) [OF safe f(1) free f(5)])
  have ch: "prefix q p \<and> touched R P q \<and> may_change sys R S P h1 q" if "node_at h' q \<noteq> node_at h q" for q
  proof -
    from wr(2) that have q: "(q = p \<and> lookup_node h p \<noteq> Some Directory) \<or> (strict_prefix q p \<and> lookup_node h q = None)"
      by (auto simp: writes_def)
    then have pre: "prefix q p" and nd: "lookup_node h q \<noteq> Some Directory" by (auto simp: strict_prefix_def)
    have "strict_prefix R q"
      by (rule strict_below_dir [OF f(5) nd _ pre]) (use f(3) in \<open>simp add: strict_prefix_def\<close>)
    with f(6) pre have tq: "touched R P q" by blast
    show ?thesis
    proof (cases "prefix S p")
      case True
      with strict_below_dir [OF disk(2) nd True pre] tq pre show ?thesis by (simp add: may_change_def)
    next
      case False
      with scope obtain t where link: "node_at h1 p = Some (Symlink t)" by (auto simp: in_scope_def)
      from q show ?thesis
      proof
        assume "q = p \<and> lookup_node h p \<noteq> Some Directory"
        with link tq pre show ?thesis by (auto simp: may_change_def)
      next
        assume q: "strict_prefix q p \<and> lookup_node h q = None"
        have "p = butlast p @ [last p]" using f(4) by simp
        with link have "node_at h1 (butlast p @ [last p]) \<noteq> None" by (metis option.distinct(1))
        then have "lookup_node h1 (butlast p) = Some Directory"
          using h1(1) by (intro tree_okD) (simp add: disk_ok_def)
        then have "real_dir h1 (butlast p)"
          using f(1) h1(1) by (intro tree_ok_real_dir) (auto simp: disk_ok_def dest: in_set_butlastD)
        moreover have "prefix q (butlast p)"
          using q prefix_snoc [of q "butlast p" "last p"] f(4) by (simp add: strict_prefix_def)
        ultimately have "lookup_node h1 q = Some Directory"
          using real_dir_dir real_dir_prefix by blast
        with q have "node_at h q \<noteq> node_at h1 q" by (auto simp: lookup_node_def split: if_splits)
        with base have "may_change sys R S P h1 q" by (simp add: confined_def)
        with tq pre show ?thesis by simp
      qed
    qed
  qed
  have "may_change sys R S P h1 q" if "node_at h' q \<noteq> node_at h1 q" for q
    using that ch [of q] base by (cases "node_at h' q = node_at h q") (simp_all add: confined_def)
  moreover have "replay_op sys R h h'"
    using ch in_git_dir_butlast git by (auto simp: replay_op_def)
  moreover have "no_new_links h1 h'"
  proof -
    have "node_at h q = Some (Symlink t)" if "node_at h' q = Some (Symlink t)" for q t
      using that wr(2) by (auto simp: writes_def) (metis node.distinct option.inject)
    with base show ?thesis by (auto simp: confined_def no_new_links_def)
  qed
  ultimately show ?thesis
    using base wr(1) rd by (auto simp: confined_def)
qed

text \<open>Steps in order.\<close>

lemma bind_step_inv:
  assumes "\<And>h. Q h \<Longrightarrow> Q (snd (m h))" and "\<And>x h. Q h \<Longrightarrow> Q (snd (f x h))" and "Q h"
  shows "Q (snd (bind_step m f h))"
  using assms by (auto simp: bind_step_def split: prod.split sum.split) (metis snd_conv)+

lemma each_step_inv:
  assumes "\<And>x h. x \<in> set xs \<Longrightarrow> Q h \<Longrightarrow> Q (snd (f x h))" and "Q h"
  shows "Q (snd (each_step f xs h))"
  using assms
proof (induction xs arbitrary: h)
  case Nil
  then show ?case by (simp add: return_step_def)
next
  case (Cons x xs)
  show ?case
    unfolding each_step.simps
    by (rule bind_step_inv [where Q = Q]; (rule bind_step_inv [where Q = Q])?)
      (use Cons in \<open>auto simp: return_step_def\<close>)
qed

text \<open>Checks that change nothing.\<close>

lemma recheck_step: "snd (recheck_write scope x h) = h"
  by (auto simp: recheck_write_def split: option.split prod.split)

lemma recheck_all: "snd (each_step (recheck_write scope) xs h) = h"
  using each_step_inv [where Q = "\<lambda>g. g = h" and f = "recheck_write scope"] recheck_step by blast

lemma each_step_Inr:
  assumes "each_step f xs h = (Inr ys, h')" and "\<And>x h. snd (f x h) = h" and "x \<in> set xs"
  shows "\<exists>zs. f x h = (Inr zs, h)"
  using assms
proof (induction xs arbitrary: ys h')
  case Nil
  then show ?case by simp
next
  case (Cons a xs)
  obtain r g where a: "f a h = (r, g)" by fastforce
  with Cons.prems(2) [of a h] have g: "g = h" by simp
  from Cons.prems(1) a g obtain zs where r: "r = Inr zs" by (cases r) (simp_all add: bind_step_def)
  obtain r1 g1 where e: "each_step f xs h = (r1, g1)" by fastforce
  from Cons.prems(1) a g r e obtain us where "r1 = Inr us" by (cases r1) (simp_all add: bind_step_def)
  with Cons a g r e show ?case by auto
qed

lemma rechecked:
  assumes "each_step (recheck_write scope) xs h = (Inr ys, h')" and "x \<in> set xs"
    and "planned_write x = Some (ab, content)"
  shows "\<not> unsafe_replay_target h scope ab"
  using each_step_Inr [OF assms(1) recheck_step assms(2)] assms(3)
  by (auto simp: recheck_write_def split: if_splits)

section \<open>Git and the probe\<close>

text \<open>
  Of Git it is assumed that the commands a replay runs change files of its own only, and that it says
  the same about where the repository is.
\<close>

definition replay_command :: "string list \<Rightarrow> bool" where
  "replay_command args \<longleftrightarrow>
     (\<exists>no_hooks rest. args = literal_args no_hooks @ rest \<and>
        (take 1 rest \<in> {[''ls-tree''], [''add''], [''commit'']} \<or> take 2 rest = [''rm'', ''--cached''])) \<or>
     (\<exists>no_hooks. args = [''-c'', no_hooks, ''rev-parse'', ''HEAD''])"

definition git_keeps_to_itself :: "replay_system \<Rightarrow> string \<Rightarrow> bool" where
  "git_keeps_to_itself sys rt \<longleftrightarrow>
     (\<forall>h. git_root (rs_git sys h) = rt) \<and>
     (\<forall>h args env input. replay_command args \<longrightarrow> disk_ok h \<longrightarrow>
        disk_ok (snd (rs_exec sys h args env input)) \<and>
        (\<forall>q. node_at (snd (rs_exec sys h args env input)) q \<noteq> node_at h q \<longrightarrow> ''.git'' \<in> set q))"

lemma own_changes_confined:
  assumes disk: "disk_ok h'" and rd: "real_dir h' S" and links: "no_new_links h h'"
    and own: "\<And>q. node_at h' q \<noteq> node_at h q \<Longrightarrow> gits_own sys R q"
  shows "confined sys R S P h h'"
proof -
  have "replay_op sys R h h'" using own by (simp add: replay_op_def)
  with disk rd links own show ?thesis by (auto simp: confined_def may_change_def)
qed

lemma git_step_confined:
  assumes git: "git_keeps_to_itself sys rt" and "replay_command args"
    and disk: "disk_ok h" "real_dir h S" and S: "''.git'' \<notin> set S"
  shows "confined sys R S P h (snd (git_step sys args env input h))"
proof -
  let ?h' = "snd (rs_exec sys h args env input)"
  have eq: "snd (git_step sys args env input h) = ?h'"
    by (auto simp: git_step_def split: prod.split sum.split)
  have d: "disk_ok ?h'" and c: "\<And>q. node_at ?h' q \<noteq> node_at h q \<Longrightarrow> ''.git'' \<in> set q"
    using assms by (auto simp: git_keeps_to_itself_def)
  have "real_dir ?h' S"
  proof (rule real_dir_keep [OF disk(2)])
    show "node_at ?h' q = node_at h q" if "prefix q S" for q
      using c [of q] that S set_mono_prefix [OF that] by blast
  qed
  moreover have "no_new_links h ?h'" using c by (auto simp: no_new_links_def) (metis)
  ultimately show ?thesis
    unfolding eq using d c by (intro own_changes_confined) (auto simp: gits_own_def)
qed

lemma free_in_dir:
  assumes "real_dir h R" shows "free_of_links h (R @ [n])"
  unfolding free_of_links_def
proof (intro allI impI)
  fix j t
  assume "j < length (R @ [n])"
  then have "take j (R @ [n]) = take j R" by simp
  then show "lookup_node h (take j (R @ [n])) \<noteq> Some (Symlink t)"
    using real_dir_dir [OF real_dir_prefix [OF assms take_is_prefix [of j]]] by simp
qed

lemma create_new_effect:
  assumes disk: "disk_ok h" and R: "real_dir h R" and pn: "plain_name n"
    and c: "create_new h (abs_path (R @ [n])) = Inr h'"
  shows "disk_ok h'" and "node_at h (R @ [n]) = None"
    and "node_at h' = (node_at h)(R @ [n] := Some (Regular []))"
proof -
  from c entry_of_real [OF R pn] have n: "lookup_node h (R @ [n]) = None"
    and h': "h' = set_node h (R @ [n]) (Some (Regular []))"
    by (auto simp: create_new_def split: if_splits)
  have tree: "tree_ok h" "listing_ok h" using disk by (simp_all add: disk_ok_def)
  have "lookup_node h (R @ [n]) \<noteq> Some Directory" using n by simp
  from tree_ok_set_leaf [OF tree(1) this real_dir_dir [OF R]] have "tree_ok h'" by (simp add: h')
  moreover have "listing_ok h'" unfolding h' using tree(2) by (simp add: listing_ok_set_node)
  ultimately show "disk_ok h'" by (simp add: disk_ok_def)
  show "node_at h (R @ [n]) = None" using n by (simp add: lookup_node_def)
  show "node_at h' = (node_at h)(R @ [n] := Some (Regular []))" by (simp add: h')
qed

lemma removes_at: "removes h h' Q \<Longrightarrow> node_at h' q = node_at h q \<or> node_at h' q = None"
  by (cases "node_at h' q = node_at h q") (simp_all add: removes_def)

lemma removes_only: "removes h h' Q \<Longrightarrow> \<not> Q q \<Longrightarrow> node_at h' q = node_at h q"
  by (rule ccontr) (simp add: removes_def)

lemma probe_effect:
  assumes disk: "disk_ok h" and R: "real_dir h R"
    and p: "probe_fs_case_insensitive sys (abs_path R) h = (r, h')"
  shows "disk_ok h'" and "no_new_links h h'"
    and "\<And>q. node_at h' q \<noteq> node_at h q \<Longrightarrow>
      (q = R @ [probe_name sys h] \<or> q = R @ [swapped_probe_name sys h]) \<and> node_at h q \<noteq> Some Directory"
proof -
  let ?P = "R @ [probe_name sys h]" and ?Q = "R @ [swapped_probe_name sys h]"
  have plain: "plain_name (probe_name sys h)" "plain_name (swapped_probe_name sys h)"
    by (simp_all add: probe_name_def swapped_probe_name_def plain_name_def dot_def dotdot_def)
  then have plainR: "\<forall>x\<in>set ?P. plain_name x" "\<forall>x\<in>set ?Q. plain_name x"
    using R by (auto simp: real_dir_def real_path_def)
  have wc: "walk_child (abs_path R) n = abs_path (R @ [n])" for n
    by (simp add: walk_child_def abs_path_def)
  have "h' = h \<or> (\<exists>h1. create_new h (abs_path ?P) = Inr h1 \<and>
      h' = snd (delete_file (snd (delete_file h1 (abs_path ?P))) (abs_path ?Q)))"
    using p by (auto simp: probe_fs_case_insensitive_def wc Let_def split: option.splits sum.splits)
  then have "disk_ok h' \<and> no_new_links h h' \<and>
      (\<forall>q. node_at h' q \<noteq> node_at h q \<longrightarrow> (q = ?P \<or> q = ?Q) \<and> node_at h q \<noteq> Some Directory)"
  proof (elim disjE exE conjE)
    assume "h' = h"
    with disk show ?thesis by (simp add: no_new_links_def)
  next
    fix h1
    assume c: "create_new h (abs_path ?P) = Inr h1"
      and h': "h' = snd (delete_file (snd (delete_file h1 (abs_path ?P))) (abs_path ?Q))"
    note new = create_new_effect [OF disk R plain(1) c]
    have R1: "real_dir h1 R"
    proof (rule real_dir_keep [OF R])
      show "node_at h1 q = node_at h q" if "prefix q R" for q
        using that new(3) by (auto simp: prefix_def)
    qed
    obtain r2 h2 where d2: "delete_file h1 (abs_path ?P) = (r2, h2)" by fastforce
    note del2 = delete_file_free [OF new(1) plainR(1) free_in_dir [OF R1] d2]
    have R2: "real_dir h2 R"
      by (rule removes_real_dir [OF del2(2) R1]) auto
    obtain r3 h3 where d3: "delete_file h2 (abs_path ?Q) = (r3, h3)" by fastforce
    note del3 = delete_file_free [OF del2(1) plainR(2) free_in_dir [OF R2] d3]
    have h3: "h' = h3" using h' d2 d3 by simp
    have ch: "(q = ?P \<or> q = ?Q) \<and> node_at h q \<noteq> Some Directory \<and>
        (node_at h' q = None \<or> node_at h' q = Some (Regular []))" if "node_at h' q \<noteq> node_at h q" for q
    proof (cases "q = ?P")
      case True
      have "node_at h2 ?P = None \<or> node_at h2 ?P = Some (Regular [])"
        using removes_at [OF del2(2), of ?P] new(3) by auto
      moreover have "node_at h3 ?P = node_at h2 ?P \<or> node_at h3 ?P = None"
        using removes_at [OF del3(2), of ?P] by blast
      ultimately show ?thesis using True new(2) by (auto simp: h3)
    next
      case False
      have same: "node_at h2 q = node_at h q"
        using removes_only [OF del2(2), of q] False new(3) by simp
      have q: "q = ?Q" and nd: "lookup_node h2 ?Q \<noteq> Some Directory"
        using removes_only [OF del3(2), of q] that same by (auto simp: h3)
      have "node_at h q \<noteq> Some Directory" using nd same by (simp add: q lookup_node_def)
      with q removes_at [OF del3(2), of q] that same show ?thesis by (simp add: h3)
    qed
    have "no_new_links h h'"
      unfolding no_new_links_def
    proof (intro allI impI)
      fix q t
      assume "node_at h' q = Some (Symlink t)"
      with ch [of q] show "\<exists>t. node_at h q = Some (Symlink t)" by (cases "node_at h' q = node_at h q") auto
    qed
    with ch del3(1) show ?thesis by (auto simp: h3)
  qed
  then show "disk_ok h'" and "no_new_links h h'"
    and "\<And>q. node_at h' q \<noteq> node_at h q \<Longrightarrow>
      (q = ?P \<or> q = ?Q) \<and> node_at h q \<noteq> Some Directory"
    by blast+
qed

section \<open>Planned targets\<close>

lemma components_plain: "plain_name c \<Longrightarrow> slash \<notin> set c \<Longrightarrow> components c = \<lparr>np_absolute = False, np_names = [c]\<rparr>"
proof -
  assume c: "plain_name c" "slash \<notin> set c"
  then have "\<not> starts_with ''/'' c" by (cases c) (auto simp: slash_def)
  with c show ?thesis
    by (simp add: components_def split_char_free plain_name_def Let_def del: starts_with_single)
qed

lemma pushed_plain:
  "\<forall>c\<in>set segs. plain_name c \<and> slash \<notin> set c \<Longrightarrow> 0 < j \<Longrightarrow> j \<le> length segs \<Longrightarrow>
   abs_path (d @ take j segs) \<in> set (pushed (abs_path d) segs)"
proof (induction segs arbitrary: d j)
  case Nil
  then show ?case by simp
next
  case (Cons c segs)
  have "path_join (abs_path d) (components c) = abs_path (d @ [c])"
    using Cons.prems(1) by (simp add: components_plain path_join_def abs_path_def) (simp add: plain_name_def)
  then have eq: "pushed (abs_path d) (c # segs) = abs_path (d @ [c]) # pushed (abs_path (d @ [c])) segs"
    by (simp add: Let_def)
  show ?case
  proof (cases "j = 1")
    case True
    then show ?thesis by (simp only: eq) simp
  next
    case False
    with Cons.prems obtain i where i: "j = Suc i" "0 < i" "i \<le> length segs" by (cases j) auto
    with Cons.IH [of i "d @ [c]"] Cons.prems(1) show ?thesis by (simp only: eq) simp
  qed
qed

text \<open>Before anything was planned, nothing is replaced.\<close>

definition fresh_layout :: "planned_layout \<Rightarrow> bool" where
  "fresh_layout l \<longleftrightarrow> pl_overrides l = [] \<and> pl_cut l = []"

lemma fresh_not_replaced [simp]: "fresh_layout l \<Longrightarrow> \<not> replaced h l p"
  by (simp add: fresh_layout_def replaced_def layout_get_def shadowed_def)

lemma is_symlink_real:
  assumes "real_dir h p" and "plain_name c"
  shows "is_symlink h (abs_path (p @ [c])) \<longleftrightarrow> (\<exists>t. node_at h (p @ [c]) = Some (Symlink t))"
  by (auto simp: is_symlink_def symlink_metadata_def entry_of_real [OF assms] lookup_node_def
      split: option.split node.split)

lemma node_parent_real:
  assumes "tree_ok h" and "node_at h (p @ [c]) \<noteq> None" and "\<forall>x\<in>set p. plain_name x" shows "real_dir h p"
  using tree_ok_real_dir [OF assms(1) tree_okD [OF assms(1,2)] assms(3)] .

definition repo_at :: "string \<Rightarrow> string list \<Rightarrow> bool" where
  "repo_at rt R \<longleftrightarrow> posix_root rt \<and> native rt = abs_path R"

lemma empty_path_refused: "resolve_write_target h (resolver_new h [rt] None) [] = Inr t \<Longrightarrow> False"
proof -
  assume r: "resolve_write_target h (resolver_new h [rt] None) [] = Inr t"
  have n: "normalize_system_path [] = []" by code_simp
  have "absolute_root_candidate h (resolver_new h [rt] None) [] = None"
    "cross_machine_suffix_candidate h (resolver_new h [rt] None) [] = None"
    "literal_absolute_candidate (resolver_new h [rt] None) [] = None"
    "to_relative_project_path h (resolver_new h [rt] None) [] = None"
    by (simp_all add: absolute_root_candidate_def cross_machine_suffix_candidate_def literal_absolute_candidate_def
        to_relative_project_path_def n is_absolute_def has_drive_slash_def Let_def split: option.split)
  with r show False
    by (auto simp: resolve_write_target_def or_else_def split: if_splits)
qed

lemma target_shape:
  assumes repo: "repo_at rt R" and disk: "disk_ok h" "real_dir h R" and fresh: "fresh_layout l"
    and t: "target h rt path l = Some ab"
  shows "usable path" and "ab = abs_path (R @ split_char slash path)"
    and "free_of_links h (R @ split_char slash path)" and "\<not> unsafe_replay_target h (abs_path R) ab"
proof -
  from repo have rt: "posix_root rt" "native rt = abs_path R" by (simp_all add: repo_at_def)
  from t fresh obtain w where links: "\<not> list_ex (is_symlink h) (pushed (abs_path R) (butlast (split_char slash path)))"
    and w: "resolve_write_target h (resolver_new h [rt] None) path = Inr w" and rel: "rt_relative_path w = path"
    and safe: "\<not> unsafe_replay_target h (abs_path R) (rt_absolute_path w)" and ab: "ab = rt_absolute_path w"
    by (auto simp: target_def rt(2) list_ex_iff split: if_splits sum.splits)
  from safe ab show "\<not> unsafe_replay_target h (abs_path R) ab" by simp
  from write_target_ok [OF resolver_new_ok w] have ok: "target_ok h (resolver_new h [rt] None) w" by simp
  have ne: "path \<noteq> []" using w empty_path_refused by blast
  from ok rel ne show u: "usable path" by (auto simp: target_ok_def usable_def)
  note names = usable_names [OF u]
  have pR: "\<forall>c\<in>set R. plain_name c" using disk(2) by (simp add: real_dir_def real_path_def)
  then have "absolutize h (abs_path R) = abs_path R"
    by (intro absolutize_absolute) (auto simp: abs_path_def plain_names_def plain_name_def)
  with ok rel ne rt show "ab = abs_path (R @ split_char slash path)"
    unfolding ab by (auto simp: target_ok_def resolver_single [OF rt(1)] only_root_def below_def rel_names_def abs_path_def)
  show "free_of_links h (R @ split_char slash path)"
    unfolding free_of_links_def
  proof (intro allI impI notI)
    fix j t
    assume j: "j < length (R @ split_char slash path)"
      and l: "lookup_node h (take j (R @ split_char slash path)) = Some (Symlink t)"
    show False
    proof (cases "j \<le> length R")
      case True
      with l real_dir_dir [OF real_dir_prefix [OF disk(2) take_is_prefix [of j]]] show False by simp
    next
      case False
      let ?ns = "split_char slash path" and ?i = "j - length R"
      have i: "0 < ?i" "?i < length ?ns" using False j by simp_all
      have tk: "take j (R @ ?ns) = R @ take ?i ?ns" using False by simp
      have bl: "take ?i (butlast ?ns) = take ?i ?ns" using i by (simp add: take_butlast)
      have "abs_path (R @ take ?i ?ns) \<in> set (pushed (abs_path R) (butlast ?ns))"
      proof -
        have "\<forall>c\<in>set (butlast ?ns). plain_name c \<and> slash \<notin> set c"
          using names(1) split_char_pieces [of _ slash path] by (auto dest: in_set_butlastD)
        moreover have "?i \<le> length (butlast ?ns)" using i by simp
        ultimately show ?thesis using pushed_plain [of "butlast ?ns" ?i R] i(1) by (simp only: bl)
      qed
      with links have no: "\<not> is_symlink h (abs_path (R @ take ?i ?ns))" by (auto simp: list_ex_iff)
      obtain ps c where pc: "R @ take ?i ?ns = ps @ [c]" using i by (metis append_is_Nil_conv names(3) rev_exhaust take_eq_Nil2 not_gr_zero)
      have plain: "\<forall>x\<in>set (ps @ [c]). plain_name x"
        using pR names(1) unfolding pc [symmetric] by (auto dest: in_set_takeD)
      have n: "node_at h (ps @ [c]) = Some (Symlink t)"
        using l unfolding tk pc by (simp add: lookup_node_def)
      then have "real_dir h ps" using plain disk(1) by (intro node_parent_real [of h ps c]) (simp_all add: disk_ok_def)
      with no n plain show False by (simp add: pc is_symlink_real)
    qed
  qed
qed

lemma plan_file_targets:
  "fp_path (plan_file h rt f l) = cf_path f"
  "fp_old_path (plan_file h rt f l) = cf_old_path f"
  "fp_absolute_path (plan_file h rt f l) = Some ab \<Longrightarrow> target h rt (cf_path f) l = Some ab"
  "fp_old_absolute_path (plan_file h rt f l) = Some ab \<Longrightarrow>
    \<exists>p. cf_old_path f = Some p \<and> target h rt p l = Some ab"
  by (auto simp: plan_file_def blank_plan_def Let_def split: option.splits if_splits)

text \<open>The names of a commit.\<close>

definition commit_names :: "commit_record \<Rightarrow> string set" where
  "commit_names c = (\<Union>f\<in>set (cr_files c). insert (cf_path f) (set_option (cf_old_path f)))"

definition payload_names :: "commits_payload \<Rightarrow> string set" where
  "payload_names p = (\<Union>c\<in>set (cp_commits p). commit_names c)"

lemma planned_target:
  assumes repo: "repo_at rt R" "prefix R S" "''.git'' \<notin> set S" and disk: "disk_ok h" "real_dir h S"
    and fresh: "fresh_layout l" and t: "target h rt rel l = Some ab" and rel: "rel \<in> P"
  shows "\<exists>p. ab = abs_path p \<and> payload_target R S P h p \<and> \<not> unsafe_replay_target h (abs_path R) (abs_path p)"
proof -
  have "real_dir h R" using disk(2) repo(2) by (rule real_dir_prefix)
  from target_shape [OF repo(1) disk(1) this fresh t] rel repo
  have "payload_target R S P h (R @ split_char slash rel)" "ab = abs_path (R @ split_char slash rel)"
    "\<not> unsafe_replay_target h (abs_path R) ab"
    by (auto simp: payload_target_def)
  then show ?thesis by auto
qed

section \<open>A commit and a session\<close>

lemma layout_new_confined:
  assumes repo: "git_keeps_to_itself sys rt" "repo_at rt R" "prefix R S" and disk: "disk_ok h" "real_dir h S"
    and n: "planned_layout_new sys opts h = (r, h')"
  shows "confined sys R S P h h'" and "r = Inr l \<Longrightarrow> fresh_layout l"
proof -
  have rt: "native (git_root (rs_git sys h)) = abs_path R"
    using repo by (simp add: git_keeps_to_itself_def repo_at_def)
  obtain b where "fs_is_case_insensitive sys (abs_path R) h = (b, h')"
    using n by (auto simp: planned_layout_new_def rt split: prod.splits)
  then obtain x where p: "probe_fs_case_insensitive sys (abs_path R) h = (x, h')"
    by (auto simp: fs_is_case_insensitive_def split: prod.splits sum.splits)
  note e = probe_effect [OF disk(1) real_dir_prefix [OF disk(2) repo(3)] p]
  have "real_dir h' S"
  proof (rule real_dir_keep [OF disk(2)])
    fix q
    assume "prefix q S"
    then have "lookup_node h q = Some Directory" using real_dir_dir real_dir_prefix [OF disk(2)] by blast
    with e(3) [of q] show "node_at h' q = node_at h q" by (auto simp: lookup_node_def split: if_splits)
  qed
  with e show "confined sys R S P h h'"
    by (intro own_changes_confined) (auto simp: gits_own_def probe_entry_def)
  show "fresh_layout l" if "r = Inr l"
    using n that by (auto simp: planned_layout_new_def fresh_layout_def split: prod.splits if_splits)
qed

text \<open>The commands of a commit are such as Git is trusted with.\<close>

lemma replay_commands:
  "replay_command (literal_args n @ [''ls-tree'', a, b, c, d] @ xs)"
  "replay_command (literal_args n @ [''rm'', ''--cached'', a, b, c, d] @ xs)"
  "replay_command (literal_args n @ [''add'', a, b, c] @ xs)"
  "replay_command (commit_args n xs)"
  "replay_command [''-c'', n, ''rev-parse'', ''HEAD'']"
proof -
  have l: "replay_command (literal_args n @ rest)"
    if "take 1 rest \<in> {[''ls-tree''], [''add''], [''commit'']} \<or> take 2 rest = [''rm'', ''--cached'']" for rest
    using that unfolding replay_command_def by blast
  show "replay_command (literal_args n @ [''ls-tree'', a, b, c, d] @ xs)"
    "replay_command (literal_args n @ [''rm'', ''--cached'', a, b, c, d] @ xs)"
    "replay_command (literal_args n @ [''add'', a, b, c] @ xs)"
    by (rule l; simp)+
  show "replay_command (commit_args n xs)"
    unfolding commit_args_def by (rule l) simp
  show "replay_command [''-c'', n, ''rev-parse'', ''HEAD'']"
    unfolding replay_command_def by blast
qed

text \<open>Everything Git does for a commit, from a host already confined.\<close>

lemma git_confined:
  assumes git: "git_keeps_to_itself sys rt" and S: "''.git'' \<notin> set S" and h: "confined sys R S P h0 h"
    and args: "replay_command args"
  shows "confined sys R S P h0 (snd (git_step sys args env input h))"
  using git_step_confined [OF git args _ _ S] confined_disk [OF h] confined_trans [OF h] by blast

lemma git_bind_confined:
  assumes git: "git_keeps_to_itself sys rt" and S: "''.git'' \<notin> set S" and h: "confined sys R S P h0 h"
    and args: "replay_command args"
  shows "confined sys R S P h0 (snd (bind_step (git_step sys args env input) (\<lambda>x. return_step (f x)) h))"
  by (rule bind_step_inv [where Q = "confined sys R S P h0"])
    (use git_confined [OF git S _ args] h in \<open>auto simp: return_step_def\<close>)

lemma git_steps_confined:
  assumes git: "git_keeps_to_itself sys rt" and S: "''.git'' \<notin> set S" and h: "confined sys R S P h0 h"
  shows "confined sys R S P h0 (snd (deleted_committed sys n deleted h))"
    and "confined sys R S P h0 (snd (stage_removals sys n paths h))"
    and "confined sys R S P h0 (snd (stage_writes sys n paths h))"
    and "confined sys R S P h0 (snd (run_commit sys (commit_args n paths) c h))"
    and "confined sys R S P h0 (snd (git_step sys [''-c'', n, ''rev-parse'', ''HEAD''] [] None h))"
proof -
  note b = git_bind_confined [OF git S h]
  show "confined sys R S P h0 (snd (deleted_committed sys n deleted h))"
    using h b [OF replay_commands(1)]
    by (auto simp: deleted_committed_def look_def return_step_def fail_step_def split: sum.split option.split)
  show "confined sys R S P h0 (snd (stage_removals sys n paths h))"
    using h b [OF replay_commands(2) [of n "''--force''" "''--quiet''" "''--ignore-unmatch''" "''--''" paths],
        where f = "\<lambda>_. ()"]
    by (simp add: stage_removals_def return_step_def)
  show "confined sys R S P h0 (snd (stage_writes sys n paths h))"
    using h b [OF replay_commands(3) [of n "''-A''" "''-f''" "''--''" paths], where f = "\<lambda>_. ()"]
    by (simp add: stage_writes_def return_step_def)
  show "confined sys R S P h0 (snd (run_commit sys (commit_args n paths) c h))"
    using b [OF replay_commands(4), where f = "\<lambda>_. ()"] by (simp add: run_commit_def)
  show "confined sys R S P h0 (snd (git_step sys [''-c'', n, ''rev-parse'', ''HEAD''] [] None h))"
    by (rule git_confined [OF git S h replay_commands(5)])
qed

text \<open>The planned targets of a commit.\<close>

definition targets_ok :: "string list \<Rightarrow> string list \<Rightarrow> string set \<Rightarrow> host \<Rightarrow> file_plan list \<Rightarrow> bool" where
  "targets_ok R S P h files \<longleftrightarrow>
     (\<forall>f\<in>set files. \<forall>ab\<in>set_option (fp_absolute_path f) \<union> set_option (fp_old_absolute_path f).
        \<exists>p. ab = abs_path p \<and> payload_target R S P h p)"

lemma targets_ok_planned:
  assumes repo: "repo_at rt R" "prefix R S" "''.git'' \<notin> set S" and disk: "disk_ok h" "real_dir h S"
    and fresh: "fresh_layout l" and P: "commit_names c \<subseteq> P"
  shows "targets_ok R S P h (cpl_files (plan_commit h rt c l))"
proof -
  have t: "\<exists>p. ab = abs_path p \<and> payload_target R S P h p"
    if "target h rt rel l = Some ab" "rel \<in> commit_names c" for rel ab
    using planned_target [OF repo disk fresh that(1), of P] that(2) P by blast
  have n: "cf_path f \<in> commit_names c" "cf_old_path f = Some p \<Longrightarrow> p \<in> commit_names c"
    if "f \<in> set (cr_files c)" for f p
    using that by (auto simp: commit_names_def)
  show ?thesis
    using t n by (auto simp: targets_ok_def plan_commit_def dest!: plan_file_targets(3,4))
qed

lemma targets_ok_confined:
  "targets_ok R S P h files \<Longrightarrow> real_dir h S \<Longrightarrow> confined sys R S P h h' \<Longrightarrow> targets_ok R S P h' files"
  unfolding targets_ok_def using payload_target_confined by meson

lemma deletes_confined:
  assumes disk: "disk_ok h" "real_dir h S" and t: "targets_ok R S P h files"
  shows "confined sys R S P h (snd (each_step (delete_target sys (abs_path S)) (concat (map replay_deletes files)) h))"
proof (rule each_step_inv [where Q = "confined sys R S P h"])
  fix x g
  assume x: "x \<in> set (concat (map replay_deletes files))" and g: "confined sys R S P h g"
  obtain ab rel where ab: "x = (ab, rel)" by fastforce
  from x ab t obtain p where p: "ab = abs_path p" "payload_target R S P h p"
    by (fastforce simp: replay_deletes_def zip_option_def targets_ok_def split: option.splits if_splits)
  obtain r g' where d: "delete_target sys (abs_path S) (abs_path p, rel) g = (r, g')" by fastforce
  have "confined sys R S P g g'"
    using delete_target_step [OF _ _ payload_target_confined [OF p(2) disk(2) g] d] confined_disk [OF g] by blast
  with confined_trans [OF g] d show "confined sys R S P h (snd (delete_target sys (abs_path S) x g))"
    by (simp add: ab p(1))
qed (use disk in \<open>simp add: confined_refl\<close>)

lemma writes_confined:
  assumes disk: "disk_ok h1" "real_dir h1 S" and t: "targets_ok R S P h1 files" and base: "confined sys R S P h1 h"
    and checked: "each_step (recheck_write (abs_path S)) (zip files srcs) h1 = (Inr u, h2)"
  shows "confined sys R S P h1 (snd (each_step (replay_write sys (abs_path R)) (zip files srcs) h))"
proof (rule each_step_inv [where Q = "confined sys R S P h1"])
  fix x g
  assume x: "x \<in> set (zip files srcs)" and g: "confined sys R S P h1 g"
  show "confined sys R S P h1 (snd (replay_write sys (abs_path R) x g))"
  proof (cases "planned_write x")
    case None
    with g show ?thesis by (simp add: replay_write_def)
  next
    case (Some w)
    obtain ab content where w: "planned_write x = Some (ab, content)" using Some by (cases w) simp
    then have "fp_absolute_path (fst x) = Some ab"
      by (auto simp: planned_write_def split: replay_action.splits option.splits)
    moreover have "fst x \<in> set files" using x by (metis set_zip_leftD prod.collapse)
    ultimately obtain p where p: "ab = abs_path p" "payload_target R S P h1 p"
      using t by (fastforce simp: targets_ok_def)
    note f = payload_target_facts [OF p(2) disk(2)]
    have "free_of_links h1 p" using p(2) by (simp add: payload_target_def)
    from safe_target(1) [OF rechecked [OF checked x w, unfolded p(1)] f(1) this disk(2)]
    have scope: "in_scope S h1 p" by (simp add: in_scope_def)
    show ?thesis
    proof (cases "unsafe_replay_target g (abs_path R) (abs_path p)")
      case True
      with g w p(1) show ?thesis by (simp add: replay_write_def)
    next
      case False
      obtain r g' where wt: "write_text_file g (abs_path p) content = (r, g')" by fastforce
      have "snd (replay_write sys (abs_path R) x g) = g'"
        using w p(1) False wt by (auto simp: replay_write_def split: option.split)
      with write_step [OF disk p(2) scope g False wt] show ?thesis by simp
    qed
  qed
qed (rule base)

lemma bind_confined:
  assumes "confined sys R S P h0 (snd (m h))"
    and "\<And>x h'. m h = (Inr x, h') \<Longrightarrow> confined sys R S P h0 h' \<Longrightarrow> confined sys R S P h0 (snd (f x h'))"
  shows "confined sys R S P h0 (snd (bind_step m f h))"
proof -
  obtain r h' where m: "m h = (r, h')" by fastforce
  with assms show ?thesis by (cases r) (auto simp: bind_step_def)
qed

lemma carry_out_confined:
  assumes git: "git_keeps_to_itself sys rt" and S: "''.git'' \<notin> set S"
    and disk: "disk_ok h" "real_dir h S" and t: "targets_ok R S P h files"
  shows "confined sys R S P h (snd (carry_out sys (abs_path R) (abs_path S) c files n h))"
  unfolding carry_out_def
proof (rule bind_confined)
  show "confined sys R S P h (snd (each_step (recheck_write (abs_path S)) (zip files (cr_files c)) h))"
    using disk by (simp add: recheck_all confined_refl)
next
  fix u h1
  assume checked: "each_step (recheck_write (abs_path S)) (zip files (cr_files c)) h = (Inr u, h1)"
  then have h1: "h1 = h" using recheck_all [of "abs_path S" "zip files (cr_files c)" h] by simp
  show "confined sys R S P h (snd (bind_step (each_step (delete_target sys (abs_path S)) (concat (map replay_deletes files)))
     (\<lambda>deleted. bind_step (each_step (replay_write sys (abs_path R)) (zip files (cr_files c))) (\<lambda>paths.
     bind_step (deleted_committed sys n deleted) (\<lambda>committed.
     bind_step (stage_removals sys n committed) (\<lambda>_.
     bind_step (stage_writes sys n paths) (\<lambda>_.
     bind_step (run_commit sys (commit_args n (remdups_adj (sort (paths @ committed)))) c) (\<lambda>_.
     bind_step (git_step sys [''-c'', n, ''rev-parse'', ''HEAD''] [] None) (\<lambda>head.
     return_step (str_trim (from_utf8_lossy head))))))))) h1))"
    unfolding h1
    by (intro bind_confined; (rule deletes_confined [OF disk t] writes_confined [OF disk t _ checked]
        git_steps_confined [OF git S])?) (simp_all add: return_step_def)
qed

lemma replay_commit_confined:
  assumes git: "git_keeps_to_itself sys rt" and repo: "repo_at rt R" "prefix R S" "''.git'' \<notin> set S"
    and disk: "disk_ok h" "real_dir h S" and P: "commit_names c \<subseteq> P"
  shows "confined sys R S P h (snd (replay_commit sys (abs_path S) c n h))"
proof -
  have root: "git_root (rs_git sys h) = rt" and rt: "native rt = abs_path R"
    using git repo by (simp_all add: git_keeps_to_itself_def repo_at_def)
  obtain r h1 where l: "planned_layout_new sys default_options h = (r, h1)" by fastforce
  note new = layout_new_confined [OF git repo(1,2) disk l]
  have disk1: "disk_ok h1" "real_dir h1 S" using confined_disk [OF new(1)] by simp_all
  show ?thesis
  proof (cases r)
    case (Inl e)
    with l new(1) show ?thesis by (simp add: replay_commit_def)
  next
    case (Inr layout)
    let ?files = "cpl_files (plan_commit h1 rt c layout)"
    have t: "targets_ok R S P h1 ?files"
      by (rule targets_ok_planned [OF repo disk1 new(2) [OF Inr] P])
    have "confined sys R S P h (snd (carry_out sys (abs_path R) (abs_path S) c ?files n h1))"
      using confined_trans [OF new(1) carry_out_confined [OF git repo(3) disk1 t]] .
    with new(1) show ?thesis
      by (auto simp: replay_commit_def root l Inr rt Let_def split: list.split)
  qed
qed

lemma run_from_confined:
  assumes git: "git_keeps_to_itself sys rt" and repo: "repo_at rt R" "prefix R S" "''.git'' \<notin> set S"
  shows "disk_ok h \<Longrightarrow> real_dir h S \<Longrightarrow> (\<Union>c\<in>set cs. commit_names c) \<subseteq> P \<Longrightarrow>
    confined sys R S P h (snd (run_from sys (abs_path S) n index created cs h))"
proof (induction cs arbitrary: h index created)
  case Nil
  then show ?case by (simp add: confined_refl)
next
  case (Cons c cs)
  have one: "confined sys R S P h (snd (replay_commit sys (abs_path S) c n h))"
    using Cons.prems by (intro replay_commit_confined [OF git repo]) auto
  obtain r h1 where r: "replay_commit sys (abs_path S) c n h = (r, h1)" by fastforce
  show ?case
  proof (cases r)
    case (Inl e)
    with r one show ?thesis by simp
  next
    case (Inr sha)
    have "confined sys R S P h1 (snd (run_from sys (abs_path S) n (index + 1) (created @ [sha]) cs h1))"
      using confined_disk one r Cons.prems(3) by (intro Cons.IH) auto
    with one r Inr confined_trans show ?thesis by fastforce
  qed
qed

lemma target_encoding_code [code]:
  "target_encoding_of h path =
     (case metadata h path of
        Inl _ \<Rightarrow> Absent
      | Inr info \<Rightarrow>
          if \<not> is_file_node info then Absent
          else if 8388608 < int (node_len info) then Unverifiable
          else (case read_text_file h path of
              Inr (Some _) \<Rightarrow> Utf8
            | Inr None \<Rightarrow> Other
            | Inl _ \<Rightarrow> Unverifiable))"
proof -
  have "ENCODING_CHECK_LIMIT < n \<longleftrightarrow> 8388608 < int n" for n
    by (simp add: ENCODING_CHECK_LIMIT_def)
  then show ?thesis by (simp add: target_encoding_of_def split: sum.split)
qed

section \<open>An example\<close>

text \<open>A repository with a folder and, beside it, a link to a file of the folder.\<close>

definition link_tree :: "string list \<Rightarrow> node option" where
  "link_tree q =
     (if q = [''w''] \<or> q = [''w'', ''sub''] then Some Directory
      else if q = [''w'', ''sub'', ''x''] then Some (Regular ''old'')
      else if q = [''w'', ''link''] then Some (Symlink ''sub/x'')
      else None)"

definition link_host :: host where
  "link_host = \<lparr>node_at = link_tree,
     host_listing = (\<lambda>q. if q = [] then [''w''] else if q = [''w''] then [''sub'', ''link'']
       else if q = [''w'', ''sub''] then [''x''] else []),
     host_temp_name = (\<lambda>_. ''.tmp''), host_denied = (\<lambda>_. False), host_unwritable = (\<lambda>_. False),
     host_cwd = Some [''w''], host_max_links = 8, host_to_lowercase = (\<lambda>s. s)\<rparr>"

definition link_git :: git where
  "link_git = \<lparr>git_root = ''/w'', git_boundary = None,
     git_run = (\<lambda>_ _. Inr \<lparr>out_stdout = ''oid'', out_truncated = False\<rparr>),
     git_run_diff = (\<lambda>_ _. Inr \<lparr>out_stdout = [], out_truncated = False\<rparr>),
     git_cat = Inl (Malformed []), git_cat_close = (\<lambda>_. None)\<rparr>"

definition link_system :: replay_system where
  "link_system = \<lparr>rs_git = (\<lambda>_. link_git), rs_exec = (\<lambda>h _ _ _. (Inr ''oid'', h)),
     rs_same_file = (=), rs_probe_id = (\<lambda>_. ''1-1''), rs_macos = False,
     rs_error_text = (\<lambda>_. ''git''), rs_io_text = (\<lambda>_. ''io'')\<rparr>"

definition link_file :: commit_file where
  "link_file = \<lparr>cf_path = ''link'', cf_old_path = None, cf_change = File_Modified, cf_content = Some ''new'',
     cf_not_copied = None\<rparr>"

definition link_commit :: commit_record where
  "link_commit = \<lparr>cr_message = ''m'', cr_author_name = ''a'', cr_author_email = ''e'', cr_author_date = ''d'',
     cr_files = [link_file]\<rparr>"

lemma link_system_git: "git_keeps_to_itself link_system ''/w''"
  by (simp add: git_keeps_to_itself_def link_system_def link_git_def)

lemma link_repo: "repo_at ''/w'' [''w'']"
  unfolding repo_at_def
proof
  show "posix_root ''/w''" by (rule demo_root)
  show "native ''/w'' = abs_path [''w'']" by code_simp
qed

definition blank_layout :: planned_layout where
  "blank_layout = \<lparr>pl_fold_case = False, pl_overrides = [], pl_contents = [], pl_added = [], pl_cut = [],
     pl_tracked = []\<rparr>"

lemma link_layout: "planned_layout_new link_system opts link_host = (Inr blank_layout, link_host)"
proof -
  have e: "read_dir link_host (abs_path [''w'']) = Inr [''sub'', ''link'']" by code_simp
  have p: "probe_entries link_system link_host (abs_path [''w'']) [''sub'', ''link''] = Some False" by code_simp
  have n: "native (git_root (rs_git link_system link_host)) = abs_path [''w'']" by code_simp
  have "probe_fs_case_insensitive link_system (abs_path [''w'']) link_host = (Inr False, link_host)"
    unfolding probe_fs_case_insensitive_def Let_def e sum.case p option.case ..
  then have "fs_is_case_insensitive link_system (abs_path [''w'']) link_host = (False, link_host)"
    by (simp add: fs_is_case_insensitive_def)
  then show ?thesis by (simp add: planned_layout_new_def n blank_layout_def)
qed

definition link_plan :: file_plan where
  "link_plan = \<lparr>fp_path = ''link'', fp_old_path = None, fp_change = File_Modified, fp_action = Replay_Write,
     fp_existed = True, fp_old_existed = False, fp_not_copied = None, fp_skip_reason = None,
     fp_layout_conflict = None, fp_absolute_path = Some (abs_path [''w'', ''link'']),
     fp_old_absolute_path = None, fp_before = Source_Unavailable Preview_Symlink,
     fp_old_before = Source_Absent\<rparr>"

lemma link_planned: "cpl_files (plan_commit link_host ''/w'' link_commit blank_layout) = [link_plan]"
  by code_simp

lemma link_no_conflict: "layout_conflicts link_host (abs_path [''w'']) [link_plan] blank_layout = []"
  by code_simp

lemma link_checked:
  "\<not> unsafe_replay_target link_host (abs_path [''w'', ''sub'']) (abs_path [''w'', ''link''])"
  "\<not> unsafe_replay_target link_host (abs_path [''w'']) (abs_path [''w'', ''link''])"
  "is_symlink link_host (abs_path [''w'', ''link''])"
  by code_simp+

definition link_payload :: commits_payload where
  "link_payload = \<lparr>cp_commits = [link_commit]\<rparr>"

lemma link_run:
  "\<exists>h'. session_run link_system (abs_path [''w'', ''sub'']) n link_payload link_host =
     (\<lparr>rr_created = [''oid''], rr_failure = None\<rparr>, h') \<and>
     node_at h' [''w'', ''link''] = Some (Regular ''new'')"
proof -
  obtain r h1 where w: "write_text_file link_host (abs_path [''w'', ''link'']) ''new'' = (r, h1)" by fastforce
  have "fst (write_text_file link_host (abs_path [''w'', ''link'']) ''new'') = None"
    "node_at (snd (write_text_file link_host (abs_path [''w'', ''link'']) ''new'')) [''w'', ''link''] =
      Some (Regular ''new'')"
    by code_simp+
  with w have r: "r = None" and new: "node_at h1 [''w'', ''link''] = Some (Regular ''new'')" by simp_all
  have files: "cr_files link_commit = [link_file]" by (simp add: link_commit_def)
  have pw: "planned_write (link_plan, link_file) = Some (abs_path [''w'', ''link''], ''new'')"
    by (simp add: planned_write_def link_plan_def link_file_def)
  have rc: "recheck_write (abs_path [''w'', ''sub'']) (link_plan, link_file) link_host =
      (Inr [], link_host)"
    using link_checked by (simp add: recheck_write_def pw)
  have wr: "replay_write link_system (abs_path [''w'']) (link_plan, link_file) link_host =
      (Inr [''link''], h1)"
    using link_checked by (simp add: replay_write_def pw w r) (simp add: link_plan_def)
  have de: "replay_deletes link_plan = []" by (simp add: replay_deletes_def link_plan_def zip_option_def is_delete_def)
  have gs: "git_step link_system args env input g = (Inr ''oid'', g)" for args env input g
    by (simp add: git_step_def link_system_def)
  have t: "str_trim (from_utf8_lossy ''oid'') = ''oid''" by code_simp
  have "carry_out link_system (abs_path [''w'']) (abs_path [''w'', ''sub'']) link_commit [link_plan] n link_host =
      (Inr ''oid'', h1)"
    unfolding carry_out_def files
    by (simp add: bind_step_def rc wr de return_step_def deleted_committed_def stage_removals_def stage_writes_def
        run_commit_def gs t)
  moreover have "git_root (rs_git link_system link_host) = ''/w''" by (simp add: link_system_def link_git_def)
  moreover have "native ''/w'' = abs_path [''w'']" by code_simp
  ultimately have "replay_commit link_system (abs_path [''w'', ''sub'']) link_commit n link_host = (Inr ''oid'', h1)"
    by (simp add: replay_commit_def link_layout link_planned link_no_conflict)
  with new show ?thesis by (simp add: session_run_def link_payload_def)
qed

lemma link_disk: "disk_ok link_host"
proof -
  have c: "q @ [c] \<in> {[''w''], [''w'', ''sub''], [''w'', ''sub'', ''x''], [''w'', ''link'']}"
    if "node_at link_host (q @ [c]) \<noteq> None" for q c
    using that by (auto simp: link_host_def link_tree_def split: if_splits)
  have "lookup_node link_host q = Some Directory \<and> c \<in> set (host_listing link_host q)"
    if "node_at link_host (q @ [c]) \<noteq> None" for q c
    using c [OF that]
    by (cases q rule: rev_cases) (auto simp: append_eq_Cons_conv lookup_node_def link_host_def link_tree_def)
  then show ?thesis by (simp add: disk_ok_def tree_ok_def listing_ok_def)
qed

lemma link_scope: "real_dir link_host [''w'', ''sub'']"
  by (rule tree_ok_real_dir)
    (use link_disk in \<open>simp_all add: disk_ok_def lookup_node_def link_host_def link_tree_def plain_name_def dot_def dotdot_def\<close>)

section \<open>The properties\<close>



section \<open>Settled conflicts\<close>

definition kept_or_skipped :: "file_plan \<Rightarrow> file_plan \<Rightarrow> bool" where
  "kept_or_skipped f g \<longleftrightarrow> g = f \<or> (fp_action f \<noteq> Replay_Skip \<and> (\<exists>c. g = skip_for c f))"

lemma kept_or_skipped_trans: "kept_or_skipped f g \<Longrightarrow> kept_or_skipped g k \<Longrightarrow> kept_or_skipped f k"
  by (auto simp: kept_or_skipped_def skip_for_def)

lemma kept_or_skipped_settled: "kept_or_skipped f (settled h rt files l f)"
  using file_conflict_live by (auto simp: kept_or_skipped_def settled_def split: option.split)

lemma skip_all:
  "layout_conflicts h rt (skip_layout_conflicts h rt l files) l = [] \<and>
   list_all2 kept_or_skipped files (skip_layout_conflicts h rt l files)"
proof (induction h rt l files rule: skip_layout_conflicts.induct)
  case (1 h rt l files)
  show ?case
  proof (cases "layout_conflicts h rt files l = []")
    case True
    then have "skip_layout_conflicts h rt l files = files" by (subst skip_layout_conflicts.simps) simp
    with True show ?thesis by (simp add: list_all2_refl kept_or_skipped_def)
  next
    case False
    then have eq: "skip_layout_conflicts h rt l files =
        skip_layout_conflicts h rt l (map (settled h rt files l) files)"
      by (subst skip_layout_conflicts.simps) (simp add: mark_layout_conflicts)
    have "list_all2 kept_or_skipped files (map (settled h rt files l) files)"
      by (simp add: list_all2_conv_all_nth kept_or_skipped_settled)
    with "1.IH" [OF refl False, unfolded mark_layout_conflicts] show ?thesis
      unfolding eq by (auto intro: list_all2_trans [OF kept_or_skipped_trans])
  qed
qed

lemma no_conflict_left: "layout_conflicts h rt files l = [] \<longleftrightarrow> (\<forall>f\<in>set files. file_conflict h rt files l f = None)"
proof -
  have "layout_conflicts h rt files l = [] \<longleftrightarrow> (\<forall>i c. (i, c) \<notin> set (layout_conflicts h rt files l))"
    by (metis list.set(1) empty_iff neq_Nil_conv list.set_intros(1) surj_pair)
  also have "\<dots> \<longleftrightarrow> (\<forall>i<length files. file_conflict h rt files l (files ! i) = None)"
    by (auto simp: layout_conflicts_in)
  also have "\<dots> \<longleftrightarrow> (\<forall>f\<in>set files. file_conflict h rt files l f = None)"
    by (metis in_set_conv_nth)
  finally show ?thesis .
qed

section \<open>What a plan holds\<close>

text \<open>
  A planned file answers one file of the payload: what is skipped has a reason, what is written or
  deleted has a target, and what is written has content.
\<close>

definition answers :: "commit_file \<Rightarrow> file_plan \<Rightarrow> bool" where
  "answers src f \<longleftrightarrow> fp_path f = cf_path src \<and> fp_old_path f = cf_old_path src \<and> fp_change f = cf_change src \<and>
     (if fp_action f = Replay_Skip then fp_skip_reason f \<noteq> None
      else fp_skip_reason f = None \<and> fp_layout_conflict f = None \<and> fp_absolute_path f \<noteq> None \<and>
        (fp_old_path f \<noteq> None \<longrightarrow> fp_old_absolute_path f \<noteq> None) \<and>
        (fp_action f = Replay_Delete \<longleftrightarrow> cf_change src = File_Deleted) \<and>
        (fp_action f = Replay_Write \<longrightarrow> cf_content src \<noteq> None))"

lemma plan_file_answers: "answers src (plan_file h rt src l)"
  by (auto simp: answers_def plan_file_def blank_plan_def Let_def split: option.splits if_splits)

lemma plan_file_no_conflict: "fp_layout_conflict (plan_file h rt src l) = None"
  by (auto simp: plan_file_def blank_plan_def Let_def split: option.splits if_splits)

lemma answers_kept: "answers src f \<Longrightarrow> kept_or_skipped f g \<Longrightarrow> answers src g"
  by (auto simp: answers_def kept_or_skipped_def skip_for_def)

lemma plan_files_eq:
  "plan_files h rt l files polls = Inr (planned, polls') \<Longrightarrow> planned = map (\<lambda>f. plan_file h rt f l) files"
proof -
  have "fold_run (\<lambda>planned f. bind_run (refuse_if_cancelled ''replay-plan'')
       (\<lambda>_. done_with (planned @ [plan_file h rt f l]))) acc files polls = Inr (planned, polls') \<Longrightarrow>
     planned = acc @ map (\<lambda>f. plan_file h rt f l) files" for acc
    by (induction files arbitrary: acc polls) (fastforce simp: bind_run_Inr)+
  then show "plan_files h rt l files polls = Inr (planned, polls') \<Longrightarrow> ?thesis"
    by (force simp: plan_files_def)
qed

definition plan_of_commit :: "host \<Rightarrow> string \<Rightarrow> planned_layout \<Rightarrow> commit_record \<Rightarrow> commit_plan" where
  "plan_of_commit h rt l c =
     (plan_commit h rt c l)\<lparr>cpl_files := skip_layout_conflicts h (native rt) l (cpl_files (plan_commit h rt c l))\<rparr>"

lemma plan_next_eq:
  assumes "plan_next h rt (l, commits) (i, c) polls = Inr ((l', commits'), polls')"
  shows "commits' = commits @ [plan_of_commit h rt l c]"
  using assms
  by (auto simp: plan_next_def plan_of_commit_def plan_commit_def bind_run_Inr Let_def dest!: plan_files_eq)

text \<open>The plans of a payload, each made after some layout.\<close>

lemma plan_all:
  assumes "fold_run (plan_next h rt) (l, commits) ics polls = Inr ((l', commits'), polls')"
  shows "\<exists>ls. length ls = length ics \<and> (ics \<noteq> [] \<longrightarrow> hd ls = l) \<and>
    commits' = commits @ map2 (plan_of_commit h rt) ls (map snd ics)"
  using assms
proof (induction ics arbitrary: l commits polls)
  case Nil
  then show ?case by simp
next
  case (Cons ic ics)
  obtain i c where ic: "ic = (i, c)" by fastforce
  from Cons.prems obtain l1 commits1 polls1 where n: "plan_next h rt (l, commits) (i, c) polls = Inr ((l1, commits1), polls1)"
    and r: "fold_run (plan_next h rt) (l1, commits1) ics polls1 = Inr ((l', commits'), polls')"
    by (auto simp: bind_run_Inr ic)
  from Cons.IH [OF r] obtain ls where "length ls = length ics"
    "commits' = commits1 @ map2 (plan_of_commit h rt) ls (map snd ics)" by blast
  with plan_next_eq [OF n] show ?case
    by (intro exI [of _ "l # ls"]) (simp add: ic)
qed

lemma plan_in_cases:
  assumes "plan_commit_replay_in sys scope payload opts polls h = (Inr plan, h1)"
  shows "\<exists>l ls. planned_layout_new sys opts h = (Inr l, h1) \<and> length ls = length (cp_commits payload) \<and>
    (cp_commits payload \<noteq> [] \<longrightarrow> hd ls = l) \<and>
    crp_root plan = native (git_root (rs_git sys h)) \<and>
    crp_commits plan = map2 (plan_of_commit h1 (git_root (rs_git sys h))) ls (cp_commits payload) \<and>
    check_scope h1 scope plan = Inr plan"
proof -
  from assms obtain l l' commits polls1 polls2 polls3 where l: "planned_layout_new sys opts h = (Inr l, h1)"
    and f: "fold_run (plan_next h1 (git_root (rs_git sys h))) (l, []) (enumerate 0 (cp_commits payload)) polls1 =
      Inr ((l', commits), polls2)"
    and s: "check_scope h1 scope \<lparr>crp_root = native (git_root (rs_git sys h)), crp_commits = commits\<rparr> = Inr plan"
    by (auto simp: plan_commit_replay_in_def Let_def bind_run_Inr lift_result_Inr split: sum.splits prod.splits)
  have "plan = \<lparr>crp_root = native (git_root (rs_git sys h)), crp_commits = commits\<rparr>"
    using s by (auto simp: check_scope_def split: option.splits)
  with plan_all [OF f] l s show ?thesis
    by (intro exI [of _ l]) (auto simp: enumerate_eq_zip)
qed

section \<open>Planning and replaying\<close>


text \<open>
  C12.  A plan that is given answers its payload commit for commit and file for file, and holds every path
  it names to the scope.
\<close>

theorem plan_answers_payload:
  assumes "plan_commit_replay_in sys scope payload opts polls h = (Inr plan, h1)"
  shows "list_all2 (\<lambda>c p. cpl_message p = cr_message c \<and> list_all2 answers (cr_files c) (cpl_files p))
      (cp_commits payload) (crp_commits plan) \<and>
    (\<forall>p\<in>set (crp_commits plan). \<forall>f\<in>set (cpl_files p). \<forall>ab\<in>set (plan_paths f).
       \<not> unsafe_replay_target h1 scope ab)"
proof
  obtain ls where ls: "length ls = length (cp_commits payload)"
    "crp_commits plan = map2 (plan_of_commit h1 (git_root (rs_git sys h))) ls (cp_commits payload)"
    and s: "check_scope h1 scope plan = Inr plan"
    using plan_in_cases [OF assms] by blast
  have one: "list_all2 answers (cr_files c) (cpl_files (plan_of_commit h1 rt l c))" for c rt l
  proof -
    have "list_all2 answers (cr_files c) (map (\<lambda>f. plan_file h1 rt f l) (cr_files c))"
      by (simp add: list_all2_conv_all_nth plan_file_answers)
    moreover have "list_all2 kept_or_skipped (map (\<lambda>f. plan_file h1 rt f l) (cr_files c))
        (skip_layout_conflicts h1 (native rt) l (map (\<lambda>f. plan_file h1 rt f l) (cr_files c)))"
      using skip_all by blast
    ultimately show ?thesis
      by (auto simp: plan_of_commit_def plan_commit_def intro: list_all2_trans [OF answers_kept])
  qed
  show "list_all2 (\<lambda>c p. cpl_message p = cr_message c \<and> list_all2 answers (cr_files c) (cpl_files p))
      (cp_commits payload) (crp_commits plan)"
    using ls one by (simp add: list_all2_conv_all_nth) (simp add: plan_of_commit_def plan_commit_def)
  show "\<forall>p\<in>set (crp_commits plan). \<forall>f\<in>set (cpl_files p). \<forall>ab\<in>set (plan_paths f). \<not> unsafe_replay_target h1 scope ab"
    using s by (auto simp: check_scope_def find_None_iff list_ex_iff split: option.splits)
qed

text \<open>
  C11.  The preview of a payload's first commit and its replay agree, as long as nothing changed between:
  a commit that was not refused is carried out with exactly the previewed files, and one that was is
  refused again, before anything is written.
\<close>

theorem preview_matches_replay:
  assumes "plan_commit_replay_in sys scope payload default_options polls h = (Inr plan, h1)"
    and "cp_commits payload = c # cs"
  shows "\<exists>first rest. crp_commits plan = first # rest \<and>
    (refused_by first = None \<longrightarrow>
       replay_commit sys scope c n h = carry_out sys (crp_root plan) scope c (cpl_files first) n h1) \<and>
    (refused_by first \<noteq> None \<longrightarrow>
       (\<exists>e. replay_commit sys scope c n h = (Inl e, h1) \<and> rce_layout_conflict e \<noteq> None))"
proof -
  let ?rt = "git_root (rs_git sys h)"
  obtain l ls where new: "planned_layout_new sys default_options h = (Inr l, h1)" and root: "crp_root plan = native ?rt"
    and ls: "length ls = length (cp_commits payload)" "hd ls = l"
      "crp_commits plan = map2 (plan_of_commit h1 ?rt) ls (cp_commits payload)"
    using plan_in_cases [OF assms(1)] assms(2) by auto
  then obtain rest where first: "crp_commits plan = plan_of_commit h1 ?rt l c # rest"
    using assms(2) by (cases ls) simp_all
  let ?files = "cpl_files (plan_commit h1 ?rt c l)"
  let ?settled = "skip_layout_conflicts h1 (native ?rt) l ?files"
  have none: "\<forall>f\<in>set ?files. fp_layout_conflict f = None"
    by (auto simp: plan_commit_def plan_file_no_conflict)
  have refused: "refused_by (plan_of_commit h1 ?rt l c) = None \<longleftrightarrow> (\<forall>f\<in>set ?settled. fp_layout_conflict f = None)"
    by (simp add: refused_by_def plan_of_commit_def find_map_None)
  have iff: "(\<forall>f\<in>set ?settled. fp_layout_conflict f = None) \<longleftrightarrow> layout_conflicts h1 (native ?rt) ?files l = []"
  proof
    assume "layout_conflicts h1 (native ?rt) ?files l = []"
    then have "?settled = ?files" by (subst skip_layout_conflicts.simps) simp
    with none show "\<forall>f\<in>set ?settled. fp_layout_conflict f = None" by simp
  next
    assume all: "\<forall>f\<in>set ?settled. fp_layout_conflict f = None"
    have "?settled = ?files"
    proof (rule nth_equalityI)
      show len: "length ?settled = length ?files"
        using skip_all [of h1 "native ?rt" l ?files] by (auto dest: list_all2_lengthD)
      fix i
      assume i: "i < length ?settled"
      with skip_all [of h1 "native ?rt" l ?files] len
      have "kept_or_skipped (?files ! i) (?settled ! i)" by (auto simp: list_all2_conv_all_nth)
      moreover have "fp_layout_conflict (?settled ! i) = None" using all i nth_mem by blast
      ultimately show "?settled ! i = ?files ! i" by (auto simp: kept_or_skipped_def skip_for_def)
    qed
    with skip_all [of h1 "native ?rt" l ?files] show "layout_conflicts h1 (native ?rt) ?files l = []" by simp
  qed
  have "replay_commit sys scope c n h = carry_out sys (crp_root plan) scope c (cpl_files (plan_of_commit h1 ?rt l c)) n h1"
    if "refused_by (plan_of_commit h1 ?rt l c) = None"
  proof -
    have no: "layout_conflicts h1 (native ?rt) ?files l = []" using that refused iff by simp
    then have "cpl_files (plan_of_commit h1 ?rt l c) = ?files"
      unfolding plan_of_commit_def by (subst skip_layout_conflicts.simps) simp
    with no new root show ?thesis by (simp add: replay_commit_def Let_def)
  qed
  moreover have "\<exists>e. replay_commit sys scope c n h = (Inl e, h1) \<and> rce_layout_conflict e \<noteq> None"
    if "refused_by (plan_of_commit h1 ?rt l c) \<noteq> None"
  proof -
    have "layout_conflicts h1 (native ?rt) ?files l \<noteq> []" using that unfolding refused iff .
    then obtain x xs where "layout_conflicts h1 (native ?rt) ?files l = x # xs"
      by (cases "layout_conflicts h1 (native ?rt) ?files l") simp_all
    with new show ?thesis
      by (cases x) (simp add: replay_commit_def conflict_error_def Let_def)
  qed
  ultimately show ?thesis
    by (intro exI [of _ "plan_of_commit h1 ?rt l c"] exI [of _ rest]) (simp add: first)
qed


text \<open>The example, planned.\<close>

definition link_commit_plan :: commit_plan where
  "link_commit_plan = \<lparr>cpl_message = ''m'', cpl_author_name = ''a'', cpl_author_email = ''e'',
     cpl_author_date = ''d'', cpl_files = [link_plan]\<rparr>"

lemma link_preview:
  "plan_commit_replay_in link_system (abs_path [''w'', ''sub'']) link_payload default_options [] link_host =
     (Inr \<lparr>crp_root = abs_path [''w''], crp_commits = [link_commit_plan]\<rparr>, link_host)"
proof -
  have p: "plan_file link_host ''/w'' link_file blank_layout = link_plan"
    using link_planned by (simp add: plan_commit_def link_commit_def)
  have s: "skip_layout_conflicts link_host (abs_path [''w'']) blank_layout [link_plan] = [link_plan]"
    using link_no_conflict by (subst skip_layout_conflicts.simps) simp
  have r: "git_root (rs_git link_system link_host) = ''/w''" "native ''/w'' = abs_path [''w'']"
    by (simp_all add: link_system_def link_git_def) code_simp
  have poll: "refuse_if_cancelled ''replay-plan'' [] = Inr ((), [])"
    by (simp add: refuse_if_cancelled_def poll_def)
  have n: "plan_next link_host ''/w'' (blank_layout, []) (0, link_commit) [] =
      Inr ((layout_apply link_host (abs_path [''w'']) [link_plan] 0 blank_layout, [link_commit_plan]), [])"
    by (simp add: plan_next_def plan_files_def bind_run_def poll done_with_def link_commit_def p r s Let_def
        link_commit_plan_def refused_by_def) (simp add: link_plan_def)
  have c: "check_scope link_host (abs_path [''w'', ''sub'']) \<lparr>crp_root = abs_path [''w''], crp_commits = [link_commit_plan]\<rparr> =
      Inr \<lparr>crp_root = abs_path [''w''], crp_commits = [link_commit_plan]\<rparr>"
    using link_checked(1) by (simp add: check_scope_def link_commit_plan_def plan_paths_def link_plan_def)
  show ?thesis
    by (simp add: plan_commit_replay_in_def poll link_layout r link_payload_def n c bind_run_def lift_result_def
        done_with_def Let_def enumerate_simps)
qed

theorem plan_answers_payload_witness:
  "list_all2 answers (cr_files link_commit) [link_plan]"
  using plan_answers_payload [OF link_preview] by (simp add: link_payload_def link_commit_plan_def)

theorem preview_matches_replay_witness:
  "\<exists>h'. replay_commit link_system (abs_path [''w'', ''sub'']) link_commit [] link_host =
     carry_out link_system (abs_path [''w'']) (abs_path [''w'', ''sub'']) link_commit [link_plan] [] h'"
proof -
  have "cp_commits link_payload = [link_commit]" by (simp add: link_payload_def)
  from preview_matches_replay [OF link_preview this, of "[]"]
  have "refused_by link_commit_plan = None \<longrightarrow>
      replay_commit link_system (abs_path [''w'', ''sub'']) link_commit [] link_host =
      carry_out link_system (abs_path [''w'']) (abs_path [''w'', ''sub'']) link_commit (cpl_files link_commit_plan) [] link_host"
    by simp
  moreover have "refused_by link_commit_plan = None"
    by (simp add: refused_by_def link_commit_plan_def link_plan_def)
  ultimately show ?thesis by (auto simp: link_commit_plan_def)
qed


section \<open>The fuel of the emptied check\<close>

text \<open>
  Where a directory's entries are one name longer than it, more fuel than the deepest deleted path has
  names changes nothing: below that depth nothing is deleted.
\<close>

definition goes_down :: "host \<Rightarrow> planned_layout \<Rightarrow> bool" where
  "goes_down h l \<longleftrightarrow> (\<forall>dir. \<forall>(path, n)\<in>set (layout_children h l dir).
     length (np_names path) = Suc (length (np_names dir)))"

lemma deepest_le: "p \<in> set ps \<Longrightarrow> length (np_names p) \<le> deepest ps"
  unfolding deepest_def by (rule fold_max) auto

lemma not_emptied_deep:
  assumes down: "goes_down h l"
  shows "deepest deleted \<le> length (np_names dir) \<Longrightarrow> \<not> emptied fuel h l deleted dir"
proof (induction fuel arbitrary: dir)
  case 0
  then show ?case by simp
next
  case (Suc fuel)
  show ?case
  proof
    assume e: "emptied (Suc fuel) h l deleted dir"
    then have "layout_children h l dir \<noteq> []" by (simp add: Let_def)
    then obtain path n where c: "(path, n) \<in> set (layout_children h l dir)"
      by (metis last_in_set surj_pair)
    with down have len: "length (np_names path) = Suc (length (np_names dir))" by (fastforce simp: goes_down_def)
    with Suc.prems have "path \<notin> set deleted" using deepest_le [of path deleted] by auto
    moreover have "\<not> emptied fuel h l deleted path" using Suc.IH [of path] Suc.prems len by simp
    moreover have "if n = Planned_Dir then emptied fuel h l deleted path else path \<in> set deleted"
      using e c by (fastforce simp: Let_def list_all_iff)
    ultimately show False by (simp split: if_splits)
  qed
qed

lemma emptied_fuel:
  assumes down: "goes_down h l"
  shows "deepest deleted \<le> fuel + length (np_names dir) \<Longrightarrow>
    emptied (fuel + k) h l deleted dir = emptied fuel h l deleted dir"
proof (induction fuel arbitrary: dir)
  case 0
  then show ?case using not_emptied_deep [OF down] by simp
next
  case (Suc fuel)
  have "emptied (fuel + k) h l deleted path = emptied fuel h l deleted path"
    if "(path, n) \<in> set (layout_children h l dir)" for path n
    using that down Suc.prems by (intro Suc.IH) (fastforce simp: goes_down_def)
  then have "list_all (\<lambda>(path, n). if n = Planned_Dir then emptied (fuel + k) h l deleted path else path \<in> set deleted)
        (layout_children h l dir) =
      list_all (\<lambda>(path, n). if n = Planned_Dir then emptied fuel h l deleted path else path \<in> set deleted)
        (layout_children h l dir)"
    by (intro list.pred_cong) (auto)
  then show ?case by (simp add: Let_def)
qed

text \<open>On a file system that tells case apart, every layout that planning makes goes down.\<close>

lemma update_subset: "set (AList.update k v xs) \<subseteq> insert (k, v) (set xs)"
  by (induction xs) auto

lemma delete_subset: "set (AList.delete k xs) \<subseteq> set xs"
  by (auto simp: AList.delete_eq)

lemma fold_update_values:
  "snd ` set (foldl (\<lambda>out x. AList.update (f x) (g x) out) start xs) \<subseteq> snd ` set start \<union> g ` set xs"
proof (induction xs arbitrary: start)
  case Nil
  then show ?case by simp
next
  case (Cons x xs)
  have "snd ` set (AList.update (f x) (g x) start) \<subseteq> insert (g x) (snd ` set start)"
    using image_mono [OF update_subset [of "f x" "g x" start], of snd] by simp
  then show ?case using Cons.IH [of "AList.update (f x) (g x) start"] by (simp only: foldl_Cons list.set image_insert) blast
qed

definition added_ok :: "planned_layout \<Rightarrow> bool" where
  "added_ok l \<longleftrightarrow> \<not> pl_fold_case l \<and>
     (\<forall>(parent, entries)\<in>set (pl_added l). \<forall>(k, p)\<in>set entries. length (np_names p) = Suc (length (np_names parent)))"

lemma added_ok_set:
  assumes "added_ok l" shows "added_ok (layout_set h p n l)"
proof -
  have k: "layout_key h l p = p" using assms by (simp add: layout_key_def added_ok_def)
  show ?thesis
  proof (cases "path_parent p")
    case None
    with assms k show ?thesis by (simp add: layout_set_def added_ok_def Let_def)
  next
    case (Some parent)
    then have len: "length (np_names p) = Suc (length (np_names parent))"
      by (auto simp: path_parent_def split: if_splits)
    have old: "length (np_names q) = Suc (length (np_names parent))"
      if "map_of (pl_added l) parent = Some es" "(k, q) \<in> set es" for es k q
      using assms that map_of_SomeD [OF that(1)] by (fastforce simp: added_ok_def)
    have upd: "\<forall>(par, entries)\<in>set (AList.update parent new (pl_added l)). \<forall>(k, q)\<in>set entries.
        length (np_names q) = Suc (length (np_names par))"
      if "\<forall>(k, q)\<in>set new. length (np_names q) = Suc (length (np_names parent))" for new
      using that assms update_subset [of parent new "pl_added l"] by (fastforce simp: added_ok_def)
    show ?thesis
    proof (cases "n = Planned_Absent")
      case True
      show ?thesis
      proof (cases "map_of (pl_added l) parent")
        case None
        with True Some assms k show ?thesis by (simp add: layout_set_def added_ok_def Let_def)
      next
        case (Some es)
        have "\<forall>(k, q)\<in>set (AList.delete p es). length (np_names q) = Suc (length (np_names parent))"
          using old [OF Some] delete_subset [of p es] by fastforce
        from upd [OF this] True Some \<open>path_parent p = Some parent\<close> assms k show ?thesis
          by (simp add: layout_set_def added_ok_def Let_def)
      qed
    next
      case False
      define es where "es = (case map_of (pl_added l) parent of None \<Rightarrow> [] | Some es \<Rightarrow> es)"
      have "\<forall>(k, q)\<in>set es. length (np_names q) = Suc (length (np_names parent))"
        using old by (cases "map_of (pl_added l) parent") (auto simp: es_def)
      moreover have "set (if map_of es p = None then AList.update p p es else es) \<subseteq> insert (p, p) (set es)"
        using update_subset [of p p es] by auto
      ultimately have "\<forall>(k, q)\<in>set (if map_of es p = None then AList.update p p es else es).
          length (np_names q) = Suc (length (np_names parent))"
        using len by blast
      note new = upd [OF this]
      have "pl_added (layout_set h p n l) =
          AList.update parent (if map_of es p = None then AList.update p p es else es) (pl_added l)"
        using False Some k by (simp add: layout_set_def Let_def es_def)
      moreover have "pl_fold_case (layout_set h p n l) = pl_fold_case l"
        using False Some k by (simp add: layout_set_def Let_def)
      ultimately show ?thesis using new assms by (simp only: added_ok_def) simp
    qed
  qed
qed

lemma added_ok_down:
  assumes "added_ok l" shows "goes_down h l"
  unfolding goes_down_def
proof (intro allI ballI)
  fix dir x
  assume "x \<in> set (layout_children h l dir)"
  moreover obtain path n where x: "x = (path, n)" by fastforce
  ultimately have c: "(path, n) \<in> set (layout_children h l dir)" by simp
  define entries where "entries = (if disk_children_live h l dir
      then (case read_dir h dir of Inl _ \<Rightarrow> [] | Inr names \<Rightarrow> map (disk_entry h dir) names) else [])"
  define on_disk where "on_disk = foldl (\<lambda>out x. AList.update (layout_key h l (fst x)) x out) [] entries"
  define live where "live = filter (\<lambda>(k, _). map_of (pl_overrides l) k \<noteq> Some Planned_Absent) on_disk"
  define added where "added = (case map_of (pl_added l) (layout_key h l dir) of None \<Rightarrow> [] | Some entries \<Rightarrow> entries)"
  have "layout_children h l dir =
      map snd (foldl (\<lambda>out x. AList.update (fst x) (snd x, the (map_of (pl_overrides l) (fst x))) out) live added)"
    unfolding layout_children_def entries_def on_disk_def live_def added_def Let_def
    by (simp add: case_prod_beta' prod.collapse)
  with c have "(path, n) \<in> snd ` set live \<union> (\<lambda>x. (snd x, the (map_of (pl_overrides l) (fst x)))) ` set added"
    using fold_update_values [of fst "\<lambda>x. (snd x, the (map_of (pl_overrides l) (fst x)))" live added]
    by (simp only: set_map) blast
  moreover have "snd ` set live \<subseteq> set entries"
    using fold_update_values [of "\<lambda>x. layout_key h l (fst x)" "\<lambda>x. x" "[]" entries]
    by (auto simp: live_def on_disk_def)
  ultimately consider "(path, n) \<in> set entries" | k where "(k, path) \<in> set added" by fastforce
  then have "length (np_names path) = Suc (length (np_names dir))"
  proof cases
    case 1
    define names where "names = (if disk_children_live h l dir
        then (case read_dir h dir of Inl _ \<Rightarrow> [] | Inr names \<Rightarrow> names) else [])"
    have "entries = map (disk_entry h dir) names"
      by (simp add: entries_def names_def split: sum.split)
    with 1 obtain c where "(path, n) = disk_entry h dir c" by (metis (no_types, lifting) imageE list.set_map)
    then have "path = walk_child dir c" by (simp only: disk_entry_def prod.inject)
    then show ?thesis by (simp add: walk_child_def)
  next
    case 2
    have key: "layout_key h l dir = dir" using assms by (simp add: layout_key_def added_ok_def)
    from 2 have "map_of (pl_added l) dir = Some added" by (cases "map_of (pl_added l) dir") (simp_all add: added_def key)
    then have "(dir, added) \<in> set (pl_added l)" by (rule map_of_SomeD)
    with assms have "\<forall>(k, p)\<in>set added. length (np_names p) = Suc (length (np_names dir))"
      unfolding added_ok_def by blast
    with 2 show ?thesis by blast
  qed
  then show "case x of (path, n) \<Rightarrow> length (np_names path) = Suc (length (np_names dir))" by (simp add: x)
qed

end
